(* ===== verification/Rl_Prelude.thy ===== *)
theory Rl_Prelude
  imports Main "HOL-Library.Word" "HOL-Library.While_Combinator"
begin

text \<open>
  Shared vocabulary of the development: the machine integer types of the Rust code, the
  generic lemmas on lists, maps and sums that several components use, and the decimal
  printing and parsing of the Rust standard library (\<open>u32::from_str\<close>,
  \<open>u64::from_str\<close>, \<open>Display\<close> for integers) and of Lua (\<open>tonumber\<close>).
  A Rust \<open>String\<close> is its sequence of UTF-8 bytes, one HOL \<^typ>\<open>char\<close> per byte.
\<close>

section \<open>Types and collections\<close>

type_synonym u32 = "32 word"
type_synonym u64 = "64 word"

named_theorems decimal_simps "printing and parsing of decimal numbers"
named_theorems plan_simps "unfolding of the plan construction"
named_theorems server_simps "laws of the key-value server used as rewrite rules"

text \<open>\<open>ExitCode\<close>.\<close>

datatype exit_code = Exit_Success | Exit_Failure

section \<open>Generic lemmas\<close>

text \<open>The position of the first element that satisfies a predicate: Rust's
  \<open>Iterator::position\<close>.\<close>

fun position :: "('a \<Rightarrow> bool) \<Rightarrow> 'a list \<Rightarrow> nat option" where
  "position P [] = None"
| "position P (x # xs) = (if P x then Some 0 else map_option Suc (position P xs))"

lemma position_None: "position P xs = None \<longleftrightarrow> (\<forall>x \<in> set xs. \<not> P x)"
  by (induction xs) auto

lemma position_Some:
  "position P xs = Some i \<Longrightarrow> i < length xs \<and> P (xs ! i) \<and> (\<forall>j<i. \<not> P (xs ! j))"
proof (induction xs arbitrary: i)
  case Nil
  then show ?case by simp
next
  case (Cons x xs)
  then show ?case
    by (cases "P x") (fastforce simp: nth_Cons split: nat.splits)+
qed

lemma position_SomeD:
  assumes "position P xs = Some i"
  shows "i < length xs" and "P (xs ! i)"
  using position_Some [OF assms] by auto

text \<open>Bounds-checked indexing: \<open>None\<close> stands for Rust's panic or Lua's nil.\<close>

definition nth_opt :: "'a list \<Rightarrow> nat \<Rightarrow> 'a option" where
  "nth_opt xs i = (if i < length xs then Some (xs ! i) else None)"

lemma nth_opt_Some [simp]: "i < length xs \<Longrightarrow> nth_opt xs i = Some (xs ! i)"
  by (simp add: nth_opt_def)

lemma nth_opt_eq_Some: "nth_opt xs i = Some x \<longleftrightarrow> i < length xs \<and> xs ! i = x"
  by (auto simp: nth_opt_def)

lemma sum_list_filter_map_le:
  fixes f :: "'a \<Rightarrow> nat"
  assumes "\<And>x. x \<in> set xs \<Longrightarrow> P x \<Longrightarrow> Q x"
  shows "sum_list (map f (filter P xs)) \<le> sum_list (map f (filter Q xs))"
  using assms by (induction xs) (auto intro: le_SucI add_mono trans_le_add2)

lemma map_of_filter_fst:
  "map_of (filter (\<lambda>(k, v). P k) xs) = (\<lambda>k. if P k then map_of xs k else None)"
  by (induction xs) (auto simp: fun_eq_iff)

lemma case_sum_eq_Inr:
  "(case v of Inl e \<Rightarrow> Inl e | Inr x \<Rightarrow> f x) = Inr y \<longleftrightarrow> (\<exists>x. v = Inr x \<and> f x = Inr y)"
  by (cases v) auto

lemma case_sum_eq_Inl:
  "(case v of Inl e \<Rightarrow> Inl e | Inr x \<Rightarrow> f x) = Inl e' \<longleftrightarrow> v = Inl e' \<or> (\<exists>x. v = Inr x \<and> f x = Inl e')"
  by (cases v) auto

lemma uint_le_of_unat: "unat w \<le> n \<Longrightarrow> uint w \<le> int n"
  by (simp only: uint_nat of_nat_le_iff)

section \<open>Decimal numbers\<close>

definition digit_char :: "nat \<Rightarrow> char" where
  "digit_char d = char_of (48 + d)"

definition char_digit :: "char \<Rightarrow> nat option" where
  "char_digit c = (if 48 \<le> (of_char c :: nat) \<and> (of_char c :: nat) \<le> 57
     then Some (of_char c - 48) else None)"

text \<open>The decimal digits of a number, most significant first: Rust's \<open>Display\<close>.\<close>

fun show_nat :: "nat \<Rightarrow> string" where
  "show_nat n = (if n < 10 then [digit_char n] else show_nat (n div 10) @ [digit_char (n mod 10)])"

declare show_nat.simps [simp del]

definition show_int :: "int \<Rightarrow> string" where
  "show_int i = (if i < 0 then CHR ''-'' # show_nat (nat (- i)) else show_nat (nat i))"

fun digits_val :: "nat \<Rightarrow> string \<Rightarrow> nat option" where
  "digits_val acc [] = Some acc"
| "digits_val acc (c # cs) =
     (case char_digit c of None \<Rightarrow> None | Some d \<Rightarrow> digits_val (10 * acc + d) cs)"

definition parse_digits :: "string \<Rightarrow> nat option" where
  "parse_digits s = (if s = [] then None else digits_val 0 s)"

text \<open>
  \<open>from_str_radix (10)\<close> of an unsigned Rust integer type with values below \<open>bound\<close>: one
  leading \<open>+\<close> is accepted, the empty string, a sign alone, any other character and an
  overflowing value are errors.
\<close>

definition parse_unsigned :: "nat \<Rightarrow> string \<Rightarrow> nat option" where
  "parse_unsigned bound s =
     (case parse_digits (case s of [] \<Rightarrow> [] | c # cs \<Rightarrow> if c = CHR ''+'' then cs else s) of
        None \<Rightarrow> None
      | Some n \<Rightarrow> if n < bound then Some n else None)"

definition parse_u32 :: "string \<Rightarrow> u32 option" where
  "parse_u32 s = map_option of_nat (parse_unsigned (2 ^ 32) s)"

definition parse_u64 :: "string \<Rightarrow> u64 option" where
  "parse_u64 s = map_option of_nat (parse_unsigned (2 ^ 64) s)"

text \<open>
  Lua's \<open>tonumber\<close>, on the numerals that the server stores for integers (an optional minus
  sign and decimal digits). Other Lua numerals (hexadecimal, fractions, exponents,
  surrounding white space) are not written by any part of the program and are not modelled:
  they are \<open>None\<close> here.
\<close>

definition lua_tonumber :: "string \<Rightarrow> int option" where
  "lua_tonumber s =
     (case s of [] \<Rightarrow> None
      | c # cs \<Rightarrow> if c = CHR ''-'' then map_option (\<lambda>n. - int n) (parse_digits cs)
                 else map_option int (parse_digits s))"

lemma char_digit_digit_char [decimal_simps]: "d < 10 \<Longrightarrow> char_digit (digit_char d) = Some d"
  by (simp add: char_digit_def digit_char_def)

lemma digit_chars [simp]:
  "digit_char 0 = CHR ''0''" "digit_char (Suc 0) = CHR ''1''" "digit_char 2 = CHR ''2''" "digit_char 3 = CHR ''3''"
  "digit_char 4 = CHR ''4''" "digit_char 5 = CHR ''5''" "digit_char 6 = CHR ''6''" "digit_char 7 = CHR ''7''"
  "digit_char 8 = CHR ''8''" "digit_char 9 = CHR ''9''"
  by code_simp+

lemma of_char_digit_char: "d < 10 \<Longrightarrow> of_char (digit_char d) = 48 + d"
  by (simp add: digit_char_def)

lemma show_nat_nonempty [simp]: "show_nat n \<noteq> []"
  by (subst show_nat.simps) simp

lemma digits_val_append:
  "digits_val acc (xs @ ys) =
     (case digits_val acc xs of None \<Rightarrow> None | Some a \<Rightarrow> digits_val a ys)"
  by (induction xs arbitrary: acc) (auto split: option.splits)

lemma digits_val_show_nat: "digits_val 0 (show_nat n) = Some n"
proof (induction n rule: show_nat.induct)
  case (1 n)
  show ?case
  proof (cases "n < 10")
    case True
    then show ?thesis by (subst show_nat.simps) (simp add: decimal_simps)
  next
    case False
    have "digits_val 0 (show_nat n) = digits_val (n div 10) [digit_char (n mod 10)]"
      using False 1 by (subst show_nat.simps) (simp add: digits_val_append)
    also have "\<dots> = Some n" by (simp add: decimal_simps)
    finally show ?thesis .
  qed
qed

lemma parse_digits_show_nat [decimal_simps]: "parse_digits (show_nat n) = Some n"
  by (simp add: parse_digits_def digits_val_show_nat)

lemma show_nat_chars: "c \<in> set (show_nat n) \<Longrightarrow> \<exists>d<10. c = digit_char d"
proof (induction n rule: show_nat.induct)
  case (1 n)
  show ?case
  proof (cases "n < 10")
    case True
    with "1.prems" show ?thesis by (subst (asm) show_nat.simps) auto
  next
    case False
    with "1.prems" have "c \<in> set (show_nat (n div 10)) \<or> c = digit_char (n mod 10)"
      by (subst (asm) show_nat.simps) auto
    moreover have "n mod 10 < 10" by simp
    ultimately show ?thesis using "1.IH" [OF False] by blast
  qed
qed

lemma show_nat_no_sep:
  assumes "c \<in> {CHR '':'', CHR ''-'', CHR ''+'', CHR ''='', CHR 0x0A}"
  shows "c \<notin> set (show_nat n)"
proof
  assume "c \<in> set (show_nat n)"
  then obtain d where "d < 10" "c = digit_char d" using show_nat_chars by blast
  then have "of_char c = 48 + d" by (simp add: of_char_digit_char)
  with assms \<open>d < 10\<close> show False by auto
qed

lemma show_nat_hd: "c \<in> {CHR ''-'', CHR ''+''} \<Longrightarrow> show_nat n = x # xs \<Longrightarrow> x \<noteq> c"
  using show_nat_no_sep [of c n] by auto

lemma parse_unsigned_show_nat [decimal_simps]:
  "n < bound \<Longrightarrow> parse_unsigned bound (show_nat n) = Some n"
  using show_nat_hd [of "CHR ''+''" n] parse_digits_show_nat [of n]
  by (auto simp: parse_unsigned_def split: list.splits)

lemma parse_u32_show [decimal_simps]: "parse_u32 (show_nat (unat w)) = Some w"
  using unsigned_less [of w, where ?'a = nat] by (simp add: parse_u32_def decimal_simps)

lemma parse_u64_show [decimal_simps]: "parse_u64 (show_nat (unat w)) = Some w"
  using unsigned_less [of w, where ?'a = nat] by (simp add: parse_u64_def decimal_simps)

lemma lua_tonumber_show_nat [decimal_simps]: "lua_tonumber (show_nat n) = Some (int n)"
  using show_nat_hd [of "CHR ''-''" n] parse_digits_show_nat [of n]
  by (auto simp: lua_tonumber_def split: list.splits)

lemma lua_tonumber_show_int [decimal_simps]: "lua_tonumber (show_int i) = Some i"
  by (auto simp: show_int_def decimal_simps) (simp add: lua_tonumber_def decimal_simps)

lemma show_int_nat [simp]: "show_int (int n) = show_nat n"
  by (simp add: show_int_def)

lemma show_nat_inj [simp]: "show_nat m = show_nat n \<longleftrightarrow> m = n"
  by (metis option.inject parse_digits_show_nat)

lemma show_int_inj [simp]: "show_int i = show_int j \<longleftrightarrow> i = j"
  by (metis option.inject lua_tonumber_show_int)

text \<open>A separator that does not occur in the right parts splits a string uniquely.\<close>

lemma split_first_unique:
  assumes "xs @ c # ys = xs' @ c # ys'" and "c \<notin> set xs" and "c \<notin> set xs'"
  shows "xs = xs' \<and> ys = ys'"
  using assms
proof (induction xs arbitrary: xs')
  case Nil
  then show ?case by (cases xs') auto
next
  case (Cons x xs)
  then show ?case by (cases xs') auto
qed

lemma split_last_unique:
  assumes "xs @ c # ys = xs' @ c # ys'" and "c \<notin> set ys" and "c \<notin> set ys'"
  shows "xs = xs' \<and> ys = ys'"
proof -
  from assms(1) have "rev ys @ c # rev xs = rev ys' @ c # rev xs'"
    by (metis append_Cons append_Nil append_assoc rev.simps(2) rev_append rev_rev_ident)
  with assms(2,3) show ?thesis
    using split_first_unique [of "rev ys" c "rev xs" "rev ys'" "rev xs'"] by simp
qed

end
