(* ===== verification/Plan.thy ===== *)
theory Plan
  imports Rl_Prelude
begin

text \<open>
  The planning half of \<open>src/config.rs\<close>: durations, the bucket ladder (\<open>bucket_size\<close>),
  the construction of a \<open>CheckPlan\<close> from a rule's windows (\<open>CheckPlan::new\<close>) and the
  validation of the windows (\<open>validate_windows\<close>, \<open>build_plan\<close>). A \<open>usize\<close> index is
  a \<^typ>\<open>nat\<close>: the length of a vector is always representable.
\<close>

section \<open>Durations\<close>

text \<open>\<open>std::time::Duration\<close>: whole seconds and nanoseconds, ordered lexicographically.\<close>

datatype duration = Duration (as_secs: u64) (subsec_nanos: u32)

instantiation duration :: linorder
begin

definition less_eq_duration :: "duration \<Rightarrow> duration \<Rightarrow> bool" where
  "less_eq_duration a b \<longleftrightarrow>
     as_secs a < as_secs b \<or> as_secs a = as_secs b \<and> subsec_nanos a \<le> subsec_nanos b"

definition less_duration :: "duration \<Rightarrow> duration \<Rightarrow> bool" where
  "less_duration a b \<longleftrightarrow>
     as_secs a < as_secs b \<or> as_secs a = as_secs b \<and> subsec_nanos a < subsec_nanos b"

instance
  by standard (auto simp: less_eq_duration_def less_duration_def intro: duration.expand)

end

definition from_secs :: "u64 \<Rightarrow> duration" where
  "from_secs s = Duration s 0"

definition from_mins :: "u64 \<Rightarrow> duration" where
  "from_mins m = Duration (m * 60) 0"

definition from_hours :: "u64 \<Rightarrow> duration" where
  "from_hours h = Duration (h * 60 * 60) 0"

definition MIN_WINDOW_DURATION :: duration where
  "MIN_WINDOW_DURATION = from_mins 1"

definition MAX_WINDOW_DURATION :: duration where
  "MAX_WINDOW_DURATION = from_hours (31 * 24)"

definition BUCKET_TARGET_COUNT :: u64 where
  "BUCKET_TARGET_COUNT = 50"

definition MIN_BUCKET_SIZE :: duration where
  "MIN_BUCKET_SIZE = from_secs 1"

definition MAX_BUCKET_SIZE :: duration where
  "MAX_BUCKET_SIZE = from_hours 24"

lemmas duration_consts [plan_simps] =
  from_secs_def from_mins_def from_hours_def MIN_WINDOW_DURATION_def MAX_WINDOW_DURATION_def
  BUCKET_TARGET_COUNT_def MIN_BUCKET_SIZE_def MAX_BUCKET_SIZE_def

section \<open>The bucket ladder\<close>

definition bucket_size :: "duration \<Rightarrow> duration" where
  "bucket_size d =
     (let max_secs = as_secs MAX_BUCKET_SIZE
      in from_secs
           (while (\<lambda>secs. secs * 2 \<le> max_secs \<and> BUCKET_TARGET_COUNT \<le> as_secs d div (secs * 2))
              (\<lambda>secs. secs * 2) (as_secs MIN_BUCKET_SIZE)))"

text \<open>One turn of the loop on a power of two below the clamp does not wrap around.\<close>

lemma ladder_double:
  assumes "unat (s :: u64) = 2 ^ k" and "k \<le> 16"
  shows "unat (s * 2) = 2 ^ Suc k"
proof -
  have "(2::nat) ^ k \<le> 2 ^ 16" using assms(2) by (intro power_increasing) auto
  then show ?thesis using assms(1) by (simp add: unat_word_ariths)
qed

lemma ladder_guard:
  assumes "unat (s :: u64) = 2 ^ k" and "k \<le> 16"
  shows "s * 2 \<le> 86400 \<and> 50 \<le> d div (s * 2)
    \<longleftrightarrow> 2 ^ Suc k \<le> (86400::nat) \<and> 50 \<le> unat d div 2 ^ Suc k"
  using ladder_double [OF assms] by (simp add: word_le_nat_alt unat_div)

lemma ladder_exponent: "2 ^ Suc k \<le> (86400::nat) \<Longrightarrow> Suc k \<le> 16"
proof (rule ccontr)
  assume le: "2 ^ Suc k \<le> (86400::nat)" and "\<not> Suc k \<le> 16"
  then have "(2::nat) ^ 17 \<le> 2 ^ Suc k" by (intro power_increasing) auto
  with le show False by simp
qed

lemma bucket_size_ladder:
  obtains k where "k \<le> 16" and "unat (as_secs (bucket_size d)) = 2 ^ k"
    and "k = 0 \<or> 50 \<le> unat (as_secs d) div 2 ^ k"
    and "\<not> (2 ^ Suc k \<le> (86400::nat) \<and> 50 \<le> unat (as_secs d) div 2 ^ Suc k)"
proof -
  define P where "P s \<longleftrightarrow> (\<exists>k\<le>16. unat (s :: u64) = 2 ^ k
    \<and> (k = 0 \<or> 50 \<le> unat (as_secs d) div 2 ^ k))" for s
  let ?b = "\<lambda>s. s * 2 \<le> (86400::u64) \<and> 50 \<le> as_secs d div (s * 2)"
  have "P (while ?b (\<lambda>s. s * 2) 1) \<and> \<not> ?b (while ?b (\<lambda>s. s * 2) 1)"
  proof (rule while_rule [where P = P and r = "measure (\<lambda>s. 2 ^ 64 - unat s)"])
    show "P 1" by (auto simp: P_def intro: exI [of _ 0])
  next
    fix s assume "P s" and b: "?b s"
    then obtain k where k: "k \<le> 16" "unat s = 2 ^ k" by (auto simp: P_def)
    note g = b [unfolded ladder_guard [OF k(2,1)]]
    show "P (s * 2)"
      using g ladder_double [OF k(2,1)] ladder_exponent unfolding P_def by blast
    have "unat (s * 2) = 2 * unat s" and "0 < unat s"
      using ladder_double [OF k(2,1)] k(2) by simp_all
    then show "(s * 2, s) \<in> measure (\<lambda>s. 2 ^ 64 - unat s)"
      using unsigned_less [of "s * 2", where ?'a = nat] by simp
  qed auto
  then show thesis
    using that ladder_guard
    by (auto simp: P_def bucket_size_def plan_simps Let_def)
qed


abbreviation bucket_secs :: "duration \<Rightarrow> nat" where
  "bucket_secs d \<equiv> unat (as_secs (bucket_size d))"

lemma bucket_size_greatest:
  "\<exists>k. unat (as_secs (bucket_size d)) = 2 ^ k \<and> subsec_nanos (bucket_size d) = 0 \<and>
    (\<forall>j. 2 ^ j \<le> (86400 :: nat) \<and> 50 \<le> unat (as_secs d) div 2 ^ j \<longrightarrow> j \<le> k) \<and>
    (k = 0 \<or> 2 ^ k \<le> (86400 :: nat) \<and> 50 \<le> unat (as_secs d) div 2 ^ k)"
proof -
  obtain k where k: "k \<le> 16" "unat (as_secs (bucket_size d)) = 2 ^ k"
    "k = 0 \<or> 50 \<le> unat (as_secs d) div 2 ^ k"
    "\<not> (2 ^ Suc k \<le> (86400::nat) \<and> 50 \<le> unat (as_secs d) div 2 ^ Suc k)"
    by (rule bucket_size_ladder)
  have "(2::nat) ^ k \<le> 2 ^ 16" using k(1) by (intro power_increasing) auto
  then have size: "(2::nat) ^ k \<le> 86400" by simp
  have "j \<le> k" if j: "2 ^ j \<le> (86400 :: nat)" "50 \<le> unat (as_secs d) div 2 ^ j" for j
  proof (rule ccontr)
    assume "\<not> j \<le> k"
    then have le: "(2::nat) ^ Suc k \<le> 2 ^ j" by (intro power_increasing) auto
    then have "unat (as_secs d) div 2 ^ j \<le> unat (as_secs d) div 2 ^ Suc k" by (intro div_le_mono2) auto
    with k(4) j le show False by linarith
  qed
  moreover have "subsec_nanos (bucket_size d) = 0"
    by (simp add: bucket_size_def from_secs_def Let_def)
  ultimately show ?thesis using size k(2,3) by blast
qed

lemma bucket_secs_pos [simp]: "0 < bucket_secs d"
  by (rule bucket_size_ladder [of d]) simp

lemma bucket_size_nonzero [simp]: "as_secs (bucket_size d) \<noteq> 0"
  using bucket_secs_pos [of d] by (metis less_irrefl unsigned_0)

lemma bucket_size_secs_only: "as_secs d = as_secs d' \<Longrightarrow> bucket_size d = bucket_size d'"
  by (simp add: bucket_size_def)

lemma bucket_secs_le_day: "bucket_secs d \<le> 65536"
proof (rule bucket_size_ladder [of d])
  fix k assume "k \<le> 16" "bucket_secs d = 2 ^ k"
  moreover have "(2::nat) ^ k \<le> 2 ^ 16" using \<open>k \<le> 16\<close> by (intro power_increasing) auto
  ultimately show ?thesis by simp
qed

lemma bucket_secs_fraction:
  assumes "60 \<le> unat (as_secs d)"
  shows "bucket_secs d * 50 \<le> unat (as_secs d)"
proof (rule bucket_size_ladder [of d])
  fix k assume k: "bucket_secs d = 2 ^ k" "k = 0 \<or> 50 \<le> unat (as_secs d) div 2 ^ k"
  from k(2) show ?thesis
  proof
    assume "k = 0" then show ?thesis using assms k(1) by simp
  next
    assume "50 \<le> unat (as_secs d) div 2 ^ k"
    then have "50 * 2 ^ k \<le> unat (as_secs d)"
      by (simp add: less_eq_div_iff_mult_less_eq)
    then show ?thesis using k(1) by (simp add: mult.commute)
  qed
qed

text \<open>Below the clamp the bucket is the largest one: a window spans fewer than 100 buckets.\<close>

lemma bucket_secs_coarse:
  assumes "unat (as_secs d) \<le> 31 * 86400"
  shows "unat (as_secs d) < 100 * bucket_secs d" and "bucket_secs d \<le> 32768"
proof -
  obtain k where k: "k \<le> 16" "bucket_secs d = 2 ^ k"
    "k = 0 \<or> 50 \<le> unat (as_secs d) div 2 ^ k"
    "\<not> (2 ^ Suc k \<le> (86400::nat) \<and> 50 \<le> unat (as_secs d) div 2 ^ Suc k)"
    by (rule bucket_size_ladder)
  have "k \<noteq> 16"
  proof
    assume "k = 16"
    with k(3) have "50 \<le> unat (as_secs d) div 65536" by simp
    with assms show False by simp
  qed
  with k(1) have "k \<le> 15" by simp
  then have le: "(2::nat) ^ k \<le> 2 ^ 15" by (intro power_increasing) auto
  then show "bucket_secs d \<le> 32768" using k(2) by simp
  have "unat (as_secs d) div 2 ^ Suc k < 50" using k(4) le by auto
  then have "unat (as_secs d) < 50 * 2 ^ Suc k"
    by (simp add: div_less_iff_less_mult)
  then show "unat (as_secs d) < 100 * bucket_secs d" using k(2) by simp
qed

lemma power_two_le_power_of_guard:
  assumes "\<not> (2 ^ Suc k \<le> (86400::nat) \<and> 50 \<le> D div 2 ^ Suc k)"
    and "2 ^ j \<le> (86400::nat)" and "50 * 2 ^ j \<le> (D::nat)"
  shows "(2::nat) ^ j \<le> 2 ^ k"
proof (rule ccontr)
  assume "\<not> (2::nat) ^ j \<le> 2 ^ k"
  then have "Suc k \<le> j" by (metis Suc_leI linorder_not_le one_le_numeral power_increasing)
  then have "(2::nat) ^ Suc k \<le> 2 ^ j" by (intro power_increasing) auto
  with assms(2,3) have "2 ^ Suc k \<le> (86400::nat)" and "50 * 2 ^ Suc k \<le> D" by linarith+
  with assms(1) show False by (simp add: less_eq_div_iff_mult_less_eq)
qed

section \<open>Check plans\<close>

text \<open>One recipient-count cap over a sliding window, as the config file has it.\<close>

record window =
  count :: u32
  duration :: duration

record planned_window =
  key_index :: nat
  span_secs :: u64
  limit :: u32

record check_plan =
  bucket_sizes :: "u64 list"
  windows :: "planned_window list"
  retention_secs :: "u64 list"

text \<open>
  \<open>iter_mut().find(..)\<close> followed by a mutation of the element found or a push: the last
  part of the loop body of \<open>CheckPlan::new\<close>.
\<close>

fun merge_window :: "nat \<Rightarrow> u64 \<Rightarrow> u32 \<Rightarrow> planned_window list \<Rightarrow> planned_window list" where
  "merge_window ki span c [] = [\<lparr>key_index = ki, span_secs = span, limit = c\<rparr>]"
| "merge_window ki span c (w # ws) =
     (if key_index w = ki \<and> span_secs w = span then w\<lparr>limit := min (limit w) c\<rparr> # ws
      else w # merge_window ki span c ws)"

text \<open>The body of the loop of \<open>CheckPlan::new\<close> for one window.\<close>

definition plan_add :: "check_plan \<Rightarrow> window \<Rightarrow> check_plan" where
  "plan_add p w =
     (let size = as_secs (bucket_size (duration w));
          (ki, bs, rs) =
            (case position (\<lambda>existing. existing = size) (bucket_sizes p) of
               Some i \<Rightarrow> (i, bucket_sizes p, retention_secs p)
             | None \<Rightarrow> (length (bucket_sizes p), bucket_sizes p @ [size], retention_secs p @ [0]));
          span = as_secs (duration w)
      in \<lparr>bucket_sizes = bs,
          windows = merge_window ki span (count w) (windows p),
          retention_secs = rs[ki := max (rs ! ki) span]\<rparr>)"

definition CheckPlan_new :: "window list \<Rightarrow> check_plan" where
  "CheckPlan_new ws = foldl plan_add \<lparr>bucket_sizes = [], windows = [], retention_secs = []\<rparr> ws"

abbreviation window_span :: "window \<Rightarrow> u64" where
  "window_span w \<equiv> as_secs (duration w)"

abbreviation window_bucket :: "window \<Rightarrow> u64" where
  "window_bucket w \<equiv> as_secs (bucket_size (duration w))"

text \<open>What the loop has established after the windows \<open>ws\<close>.\<close>

definition plan_keys_inv :: "window list \<Rightarrow> check_plan \<Rightarrow> bool" where
  "plan_keys_inv ws p \<longleftrightarrow>
     length (retention_secs p) = length (bucket_sizes p) \<and> distinct (bucket_sizes p) \<and>
     set (bucket_sizes p) = window_bucket ` set ws \<and>
     (\<forall>i < length (bucket_sizes p).
        (\<forall>w \<in> set ws. window_bucket w = bucket_sizes p ! i \<longrightarrow> window_span w \<le> retention_secs p ! i) \<and>
        (\<exists>w \<in> set ws. window_bucket w = bucket_sizes p ! i \<and> window_span w = retention_secs p ! i))"

definition plan_windows_inv :: "window list \<Rightarrow> check_plan \<Rightarrow> bool" where
  "plan_windows_inv ws p \<longleftrightarrow>
     distinct (map span_secs (windows p)) \<and>
     set (map span_secs (windows p)) = window_span ` set ws \<and>
     (\<forall>pw \<in> set (windows p).
        key_index pw < length (bucket_sizes p) \<and>
        bucket_sizes p ! key_index pw = as_secs (bucket_size (from_secs (span_secs pw))) \<and>
        (\<forall>w \<in> set ws. window_span w = span_secs pw \<longrightarrow> limit pw \<le> count w) \<and>
        (\<exists>w \<in> set ws. window_span w = span_secs pw \<and> limit pw = count w))"

lemma window_bucket_from_secs: "window_bucket w = as_secs (bucket_size (from_secs (window_span w)))"
  by (rule arg_cong [where f = as_secs], rule bucket_size_secs_only) (simp add: from_secs_def)

text \<open>The key index that \<open>plan_add\<close> chooses, and the key arrays it leaves.\<close>

lemma plan_add_cases:
  assumes "length (retention_secs p) = length (bucket_sizes p)" and "distinct (bucket_sizes p)"
  obtains i where "i < length (bucket_sizes p)" and "bucket_sizes p ! i = window_bucket w"
      and "plan_add p w = \<lparr>bucket_sizes = bucket_sizes p,
             windows = merge_window i (window_span w) (count w) (windows p),
             retention_secs = (retention_secs p)[i := max (retention_secs p ! i) (window_span w)]\<rparr>"
  | "window_bucket w \<notin> set (bucket_sizes p)"
      and "plan_add p w = \<lparr>bucket_sizes = bucket_sizes p @ [window_bucket w],
             windows = merge_window (length (bucket_sizes p)) (window_span w) (count w) (windows p),
             retention_secs = retention_secs p @ [window_span w]\<rparr>"
proof (cases "position (\<lambda>existing. existing = window_bucket w) (bucket_sizes p)")
  case None
  then have "window_bucket w \<notin> set (bucket_sizes p)" by (auto simp: position_None)
  then show thesis using assms(1) None
    by (intro that(2)) (simp_all add: plan_add_def Let_def list_update_append nth_append max_def)
next
  case (Some i)
  then show thesis
    using position_SomeD [OF Some] by (intro that(1) [of i]) (simp_all add: plan_add_def Let_def)
qed

lemma plan_keys_inv_step:
  assumes "plan_keys_inv ws p"
  shows "plan_keys_inv (ws @ [w]) (plan_add p w)"
proof -
  have len: "length (retention_secs p) = length (bucket_sizes p)" "distinct (bucket_sizes p)"
    using assms by (auto simp: plan_keys_inv_def)
  show ?thesis
  proof (rule plan_add_cases [OF len, of w])
    fix i
    assume old: "i < length (bucket_sizes p)" "bucket_sizes p ! i = window_bucket w"
      "plan_add p w = \<lparr>bucket_sizes = bucket_sizes p,
         windows = merge_window i (window_span w) (count w) (windows p),
         retention_secs = (retention_secs p)[i := max (retention_secs p ! i) (window_span w)]\<rparr>"
    then have bs: "window_bucket w \<in> set (bucket_sizes p)" by (metis nth_mem)
    have keys: "bucket_sizes p ! j = window_bucket w \<longleftrightarrow> j = i" if "j < length (bucket_sizes p)" for j
      using that old(1,2) len(2) by (metis nth_eq_iff_index_eq)
    show ?thesis
      using assms bs keys old(1) unfolding plan_keys_inv_def old(3)
      by (fastforce simp: nth_list_update max_def)
  next
    assume new: "window_bucket w \<notin> set (bucket_sizes p)"
      "plan_add p w = \<lparr>bucket_sizes = bucket_sizes p @ [window_bucket w],
         windows = merge_window (length (bucket_sizes p)) (window_span w) (count w) (windows p),
         retention_secs = retention_secs p @ [window_span w]\<rparr>"
    then have ne: "\<forall>i < length (bucket_sizes p). bucket_sizes p ! i \<noteq> window_bucket w"
      by (metis nth_mem)
    have fresh: "\<forall>v \<in> set ws. window_bucket v \<noteq> window_bucket w"
      using assms new(1) unfolding plan_keys_inv_def by (metis image_eqI)
    show ?thesis
      using assms ne fresh new(1) unfolding plan_keys_inv_def new(2)
      by (auto simp: nth_append less_Suc_eq)
  qed
qed

text \<open>\<open>merge_window\<close> keeps one entry per span, provided the entry of a span has its key.\<close>

lemma merge_window_spans:
  assumes "\<forall>pw \<in> set ps. span_secs pw = s \<longrightarrow> key_index pw = ki"
  shows "map span_secs (merge_window ki s c ps) =
    (if s \<in> set (map span_secs ps) then map span_secs ps else map span_secs ps @ [s])"
  using assms by (induction ps) auto

lemma merge_window_mem:
  assumes "\<forall>pw \<in> set ps. span_secs pw = s \<longrightarrow> key_index pw = ki"
    and "distinct (map span_secs ps)"
    and "pw \<in> set (merge_window ki s c ps)"
  shows "pw \<in> set ps \<and> span_secs pw \<noteq> s
    \<or> (\<exists>old \<in> set ps. span_secs old = s \<and> pw = old\<lparr>limit := min (limit old) c\<rparr>)
    \<or> s \<notin> span_secs ` set ps \<and> pw = \<lparr>key_index = ki, span_secs = s, limit = c\<rparr>"
  using assms
proof (induction ps)
  case Nil
  then show ?case by simp
next
  case (Cons q ps)
  show ?case
  proof (cases "span_secs q = s")
    case True
    then have "s \<notin> span_secs ` set ps" using Cons.prems(2) by auto
    then have "\<forall>p \<in> set ps. span_secs p \<noteq> s" by (metis imageI)
    then show ?thesis using True Cons.prems(1,3) by auto
  next
    case False
    then show ?thesis using Cons by auto
  qed
qed

lemma plan_windows_inv_merge:
  assumes inv: "plan_windows_inv ws p"
    and keys: "\<forall>pw \<in> set (windows p). span_secs pw = window_span w \<longrightarrow> key_index pw = ki"
    and ki: "ki < length bs" "bs ! ki = window_bucket w"
    and bs: "\<forall>i < length (bucket_sizes p). i < length bs \<and> bs ! i = bucket_sizes p ! i"
  shows "plan_windows_inv (ws @ [w])
    \<lparr>bucket_sizes = bs, windows = merge_window ki (window_span w) (count w) (windows p),
     retention_secs = rs\<rparr>"
proof -
  let ?s = "window_span w" and ?ps = "windows p"
  let ?new = "\<lparr>key_index = ki, span_secs = ?s, limit = count w\<rparr>"
  note I = inv [unfolded plan_windows_inv_def]
  have spans: "map span_secs (merge_window ki ?s (count w) ?ps) =
      (if ?s \<in> set (map span_secs ?ps) then map span_secs ?ps else map span_secs ?ps @ [?s])"
    by (rule merge_window_spans [OF keys])
  have each: "key_index pw < length bs \<and>
      bs ! key_index pw = as_secs (bucket_size (from_secs (span_secs pw))) \<and>
      (\<forall>v \<in> set (ws @ [w]). window_span v = span_secs pw \<longrightarrow> limit pw \<le> count v) \<and>
      (\<exists>v \<in> set (ws @ [w]). window_span v = span_secs pw \<and> limit pw = count v)"
    if mem: "pw \<in> set (merge_window ki ?s (count w) ?ps)" for pw
  proof -
    from I have "distinct (map span_secs ?ps)" by blast
    from merge_window_mem [OF keys this mem]
    consider (other) "pw \<in> set ?ps" "span_secs pw \<noteq> ?s"
      | (upd) old where "old \<in> set ?ps" "span_secs old = ?s" "pw = old\<lparr>limit := min (limit old) (count w)\<rparr>"
      | (new) "?s \<notin> span_secs ` set ?ps" "pw = ?new" by blast
    then show ?thesis
    proof cases
      case other
      then show ?thesis using I bs by auto
    next
      case upd
      from I upd(1) have old: "key_index old < length (bucket_sizes p)"
        "bucket_sizes p ! key_index old = as_secs (bucket_size (from_secs ?s))"
        "\<forall>v \<in> set ws. window_span v = ?s \<longrightarrow> limit old \<le> count v"
        "\<exists>v \<in> set ws. window_span v = ?s \<and> limit old = count v"
        unfolding upd(2) [symmetric] by blast+
      show ?thesis
      proof (cases "limit old \<le> count w")
        case True
        then show ?thesis using old bs upd(2,3) by (auto simp: min_absorb1)
      next
        case False
        then have "\<forall>v \<in> set ws. window_span v = ?s \<longrightarrow> count w \<le> count v"
          using old(3) by force
        with False show ?thesis using old(1,2) bs upd(2,3) by (auto simp: min_absorb2)
      qed
    next
      case new
      then have "?s \<notin> window_span ` set ws" using I by auto
      then have "\<forall>v \<in> set ws. window_span v \<noteq> ?s" by (metis imageI)
      then show ?thesis using new(2) ki window_bucket_from_secs [of w] by auto
    qed
  qed
  from I spans have "distinct (map span_secs (merge_window ki ?s (count w) ?ps))" by auto
  moreover from I spans
  have "set (map span_secs (merge_window ki ?s (count w) ?ps)) = window_span ` set (ws @ [w])"
    by auto
  ultimately show ?thesis
    unfolding plan_windows_inv_def check_plan.select_convs using each by blast
qed

lemma plan_windows_inv_step:
  assumes kinv: "plan_keys_inv ws p" and inv: "plan_windows_inv ws p"
  shows "plan_windows_inv (ws @ [w]) (plan_add p w)"
proof -
  have len: "length (retention_secs p) = length (bucket_sizes p)" "distinct (bucket_sizes p)"
    using kinv by (auto simp: plan_keys_inv_def)
  have same: "key_index pw < length (bucket_sizes p)"
    "bucket_sizes p ! key_index pw = window_bucket w"
    if "pw \<in> set (windows p)" "span_secs pw = window_span w" for pw
    using inv that window_bucket_from_secs [of w] by (auto simp: plan_windows_inv_def)
  show ?thesis
  proof (rule plan_add_cases [OF len, of w])
    fix i
    assume i: "i < length (bucket_sizes p)" "bucket_sizes p ! i = window_bucket w"
      and eq: "plan_add p w = \<lparr>bucket_sizes = bucket_sizes p,
         windows = merge_window i (window_span w) (count w) (windows p),
         retention_secs = (retention_secs p)[i := max (retention_secs p ! i) (window_span w)]\<rparr>"
    have "\<forall>pw \<in> set (windows p). span_secs pw = window_span w \<longrightarrow> key_index pw = i"
      using same i len(2) by (metis nth_eq_iff_index_eq)
    from plan_windows_inv_merge [OF inv this i] show ?thesis by (simp add: eq)
  next
    assume new: "window_bucket w \<notin> set (bucket_sizes p)"
      and eq: "plan_add p w = \<lparr>bucket_sizes = bucket_sizes p @ [window_bucket w],
         windows = merge_window (length (bucket_sizes p)) (window_span w) (count w) (windows p),
         retention_secs = retention_secs p @ [window_span w]\<rparr>"
    have "\<forall>pw \<in> set (windows p). span_secs pw = window_span w \<longrightarrow> key_index pw = length (bucket_sizes p)"
      using same new by (metis nth_mem)
    from plan_windows_inv_merge [OF inv this] show ?thesis by (simp add: eq nth_append)
  qed
qed

lemma CheckPlan_new_inv:
  "plan_keys_inv ws (CheckPlan_new ws) \<and> plan_windows_inv ws (CheckPlan_new ws)"
proof (induction ws rule: rev_induct)
  case Nil
  show ?case by (simp add: CheckPlan_new_def plan_keys_inv_def plan_windows_inv_def)
next
  case (snoc w ws)
  then show ?case
    using plan_keys_inv_step plan_windows_inv_step by (simp add: CheckPlan_new_def)
qed

lemmas CheckPlan_new_keys = CheckPlan_new_inv [THEN conjunct1]
lemmas CheckPlan_new_windows = CheckPlan_new_inv [THEN conjunct2]

section \<open>What a plan guarantees\<close>

text \<open>
  The facts about a plan on which the checking script relies: parallel arrays, distinct
  nonzero bucket sizes, every window's key in range, and a key's retention equal to the
  longest span of a window that uses the key.
\<close>

definition plan_wf :: "check_plan \<Rightarrow> bool" where
  "plan_wf p \<longleftrightarrow>
     length (retention_secs p) = length (bucket_sizes p) \<and> distinct (bucket_sizes p) \<and>
     (\<forall>bs \<in> set (bucket_sizes p). 0 < unat bs) \<and>
     (\<forall>w \<in> set (windows p). key_index w < length (bucket_sizes p) \<and>
        span_secs w \<le> retention_secs p ! key_index w) \<and>
     (\<forall>i < length (bucket_sizes p).
        \<exists>w \<in> set (windows p). key_index w = i \<and> span_secs w = retention_secs p ! i)"

text \<open>Every window has the bucket size of its span, which is at most a fiftieth of it.\<close>

definition plan_fine :: "check_plan \<Rightarrow> bool" where
  "plan_fine p \<longleftrightarrow>
     (\<forall>w \<in> set (windows p).
        bucket_sizes p ! key_index w = as_secs (bucket_size (from_secs (span_secs w))) \<and>
        60 \<le> unat (span_secs w) \<and> unat (span_secs w) \<le> 31 * 86400)"

definition window_ok :: "window \<Rightarrow> bool" where
  "window_ok w \<longleftrightarrow> subsec_nanos (duration w) = 0 \<and>
     60 \<le> unat (window_span w) \<and> unat (window_span w) \<le> 31 * 86400"

lemma CheckPlan_new_window:
  assumes "w \<in> set ws"
  obtains pw where "pw \<in> set (windows (CheckPlan_new ws))" and "span_secs pw = window_span w"
    and "bucket_sizes (CheckPlan_new ws) ! key_index pw = window_bucket w"
proof -
  from CheckPlan_new_windows [of ws] assms
  have "window_span w \<in> set (map span_secs (windows (CheckPlan_new ws)))"
    unfolding plan_windows_inv_def by blast
  then obtain pw where "pw \<in> set (windows (CheckPlan_new ws))" "span_secs pw = window_span w"
    by auto
  with CheckPlan_new_windows [of ws] window_bucket_from_secs [of w] that show thesis
    unfolding plan_windows_inv_def by metis
qed

lemma CheckPlan_new_wf: "plan_wf (CheckPlan_new ws)"
proof -
  let ?p = "CheckPlan_new ws"
  note K = CheckPlan_new_keys [of ws, unfolded plan_keys_inv_def]
  note W = CheckPlan_new_windows [of ws, unfolded plan_windows_inv_def]
  have "key_index pw < length (bucket_sizes ?p) \<and> span_secs pw \<le> retention_secs ?p ! key_index pw"
    if "pw \<in> set (windows ?p)" for pw
  proof -
    from W that obtain w where "w \<in> set ws" "window_span w = span_secs pw" by blast
    then show ?thesis using K W that window_bucket_from_secs [of w] by metis
  qed
  moreover have "\<exists>pw \<in> set (windows ?p). key_index pw = i \<and> span_secs pw = retention_secs ?p ! i"
    if i: "i < length (bucket_sizes ?p)" for i
  proof -
    from K i obtain w where w: "w \<in> set ws" "window_bucket w = bucket_sizes ?p ! i"
      "window_span w = retention_secs ?p ! i" by blast
    obtain pw where pw: "pw \<in> set (windows ?p)" "span_secs pw = window_span w"
      "bucket_sizes ?p ! key_index pw = window_bucket w"
      using CheckPlan_new_window [OF w(1)] by blast
    have "key_index pw < length (bucket_sizes ?p)" using W pw(1) by blast
    then have "key_index pw = i" using K i w(2) pw(3) nth_eq_iff_index_eq by metis
    then show ?thesis using pw w(3) by auto
  qed
  moreover have "0 < unat b" if "b \<in> set (bucket_sizes ?p)" for b
    using K that by auto
  ultimately show ?thesis using K unfolding plan_wf_def by blast
qed

lemma CheckPlan_new_fine:
  assumes "\<forall>w \<in> set ws. window_ok w"
  shows "plan_fine (CheckPlan_new ws)"
proof -
  note W = CheckPlan_new_windows [of ws, unfolded plan_windows_inv_def]
  have "60 \<le> unat (span_secs pw) \<and> unat (span_secs pw) \<le> 31 * 86400"
    if "pw \<in> set (windows (CheckPlan_new ws))" for pw
  proof -
    from W that obtain w where "w \<in> set ws" "window_span w = span_secs pw" by blast
    with assms show ?thesis unfolding window_ok_def by metis
  qed
  with W show ?thesis unfolding plan_fine_def by blast
qed

lemma CheckPlan_new_Nil [simp]:
  "CheckPlan_new [] = \<lparr>bucket_sizes = [], windows = [], retention_secs = []\<rparr>"
  by (simp add: CheckPlan_new_def)

lemma CheckPlan_new_empty: "bucket_sizes (CheckPlan_new ws) = [] \<longleftrightarrow> ws = []"
  using CheckPlan_new_keys [of ws] by (auto simp: plan_keys_inv_def)

text \<open>The collapsed windows reject exactly what the configured windows reject.\<close>

lemma CheckPlan_new_same_limits:
  "(\<forall>pw \<in> set (windows (CheckPlan_new ws)). T (span_secs pw) \<le> unat (limit pw))
    \<longleftrightarrow> (\<forall>w \<in> set ws. T (window_span w) \<le> unat (count w))"
proof -
  note W = CheckPlan_new_windows [of ws, unfolded plan_windows_inv_def]
  show ?thesis
  proof
    assume L: "\<forall>pw \<in> set (windows (CheckPlan_new ws)). T (span_secs pw) \<le> unat (limit pw)"
    show "\<forall>w \<in> set ws. T (window_span w) \<le> unat (count w)"
    proof
      fix w assume w: "w \<in> set ws"
      obtain pw where pw: "pw \<in> set (windows (CheckPlan_new ws))" "span_secs pw = window_span w"
        using CheckPlan_new_window [OF w] by blast
      with W w have "limit pw \<le> count w" by metis
      moreover have "T (window_span w) \<le> unat (limit pw)" using L pw by metis
      ultimately show "T (window_span w) \<le> unat (count w)" by (simp add: word_le_nat_alt)
    qed
  next
    assume "\<forall>w \<in> set ws. T (window_span w) \<le> unat (count w)"
    with W show "\<forall>pw \<in> set (windows (CheckPlan_new ws)). T (span_secs pw) \<le> unat (limit pw)"
      by metis
  qed
qed

section \<open>Validation\<close>

text \<open>
  \<open>ConfigError\<close>. The errors of the operating system and of the libraries that some
  variants wrap are values of the type \<^typ>\<open>'e\<close>.
\<close>

type_synonym path = string

datatype 'e config_error =
    ReadError path 'e
  | ParseError path 'e
  | BadRedisUrl string 'e
  | AmbiguousPassword
  | ReadPasswordFile path 'e
  | BadRegex nat 'e
  | EmptyUsername nat
  | DefaultCount nat
  | NoWindows nat
  | WindowsWithUnrestricted nat
  | RedundantUnrestrictedFalse nat
  | WindowTooShort nat duration
  | WindowTooLong nat duration
  | ControlSocketSameAsSocket

fun validate_each :: "nat \<Rightarrow> window list \<Rightarrow> 'e config_error + unit" where
  "validate_each i [] = Inr ()"
| "validate_each i (w # ws) =
     (if subsec_nanos (duration w) \<noteq> 0 \<or> duration w < MIN_WINDOW_DURATION
      then Inl (WindowTooShort i (duration w))
      else if MAX_WINDOW_DURATION < duration w
      then Inl (WindowTooLong i (duration w))
      else validate_each i ws)"

definition validate_windows :: "nat \<Rightarrow> window list \<Rightarrow> 'e config_error + unit" where
  "validate_windows rule_index ws =
     (if ws = [] then Inl (NoWindows rule_index) else validate_each rule_index ws)"

fun build_plan :: "nat \<Rightarrow> window list option \<Rightarrow> bool option \<Rightarrow> 'e config_error + check_plan" where
  "build_plan index None (Some True) = Inr (CheckPlan_new [])"
| "build_plan index (Some _) (Some True) = Inl (WindowsWithUnrestricted index)"
| "build_plan index (Some _) (Some False) = Inl (RedundantUnrestrictedFalse index)"
| "build_plan index (Some ws) None =
     (case validate_windows index ws of Inl e \<Rightarrow> Inl e | Inr _ \<Rightarrow> Inr (CheckPlan_new ws))"
| "build_plan index None _ = Inl (NoWindows index)"

lemma window_ok_bounds:
  "window_ok w \<longleftrightarrow>
     \<not> (subsec_nanos (duration w) \<noteq> 0 \<or> duration w < MIN_WINDOW_DURATION)
     \<and> \<not> MAX_WINDOW_DURATION < duration w"
  by (auto simp: window_ok_def plan_simps less_duration_def word_less_nat_alt word_le_nat_alt
      intro: word_unat_eq_iff [THEN iffD2])

lemma validate_each_Inr: "validate_each i ws = Inr u \<longleftrightarrow> (\<forall>w \<in> set ws. window_ok w)"
  by (induction ws) (auto simp: window_ok_bounds)

lemma validate_windows_Inr:
  "validate_windows i ws = Inr u \<longleftrightarrow> ws \<noteq> [] \<and> (\<forall>w \<in> set ws. window_ok w)"
  by (auto simp: validate_windows_def validate_each_Inr)

lemma build_plan_Inr:
  "build_plan i wso u = Inr p \<longleftrightarrow>
     wso = None \<and> u = Some True \<and> p = CheckPlan_new []
     \<or> (\<exists>ws. wso = Some ws \<and> u = None \<and> ws \<noteq> [] \<and> (\<forall>w \<in> set ws. window_ok w) \<and> p = CheckPlan_new ws)"
  by (cases "(i, wso, u)" rule: build_plan.cases)
    (auto simp: case_sum_eq_Inr validate_windows_Inr)

end
