(* ===== verification/Json.thy ===== *)
theory Json
  imports Rl_Prelude
begin

text \<open>
  JSON values as \<open>serde_json::Value\<close> has them, with member access. Numbers that are not
  integers are kept as their text. The translation between values and text is done by
  \<open>serde_json\<close> and \<open>cjson\<close>, libraries outside the repository: it is the parameter
  \<open>json_text\<close> below.
\<close>

datatype json =
    JNull
  | JBool bool
  | JInt int
  | JFloat string
  | JStr string
  | JArr "json list"
  | JObj "(string \<times> json) list"

text \<open>Member access: the last of several members with the same name wins.\<close>

fun jget :: "string \<Rightarrow> json \<Rightarrow> json option" where
  "jget k (JObj kvs) = map_of (rev kvs) k"
| "jget k _ = None"

fun jint :: "json \<Rightarrow> int option" where
  "jint (JInt i) = Some i"
| "jint _ = None"

fun jarr :: "json \<Rightarrow> json list option" where
  "jarr (JArr xs) = Some xs"
| "jarr _ = None"

text \<open>All elements of an optional list, if every one is present.\<close>

fun all_some :: "'a option list \<Rightarrow> 'a list option" where
  "all_some [] = Some []"
| "all_some (x # xs) = (case x of None \<Rightarrow> None | Some y \<Rightarrow> map_option ((#) y) (all_some xs))"

lemma all_some_map_Some [simp]: "all_some (map (\<lambda>x. Some (f x)) xs) = Some (map f xs)"
  by (induction xs) auto

definition jints :: "json \<Rightarrow> int list option" where
  "jints j = (case jarr j of None \<Rightarrow> None | Some xs \<Rightarrow> all_some (map jint xs))"

lemma jints_JArr_map [simp]: "jints (JArr (map (\<lambda>x. JInt (f x)) xs)) = Some (map f xs)"
  by (simp add: jints_def comp_def)

text \<open>Values without fractions, all of whose integers are such that \<open>P\<close>.\<close>

fun json_fits :: "(int \<Rightarrow> bool) \<Rightarrow> json \<Rightarrow> bool" where
  "json_fits P JNull = True"
| "json_fits P (JBool b) = True"
| "json_fits P (JInt i) = P i"
| "json_fits P (JFloat s) = False"
| "json_fits P (JStr s) = True"
| "json_fits P (JArr js) = (\<forall>j \<in> set js. json_fits P j)"
| "json_fits P (JObj kvs) = (\<forall>kv \<in> set kvs. json_fits P (snd kv))"

lemma json_fits_mono: "(\<And>i. P i \<Longrightarrow> Q i) \<Longrightarrow> json_fits P j \<Longrightarrow> json_fits Q j"
  by (induction Q j rule: json_fits.induct) auto

text \<open>
  The text codec: \<open>to_text\<close> is \<open>serde_json::to_string\<close>, \<open>of_text\<close> is the decoder at the
  other end, \<open>cjson.decode\<close>. The code relies on the decoder reading back what the encoder
  wrote, for integers that a double holds exactly.
\<close>

record 'txt json_text =
  to_text :: "json \<Rightarrow> 'txt"
  of_text :: "'txt \<Rightarrow> json option"

definition codec_ok :: "'txt json_text \<Rightarrow> bool" where
  "codec_ok c \<longleftrightarrow> (\<forall>j. json_fits (\<lambda>i. \<bar>i\<bar> \<le> 2 ^ 53) j \<longrightarrow> of_text c (to_text c j) = Some j)"

lemma codec_okD: "codec_ok c \<Longrightarrow> json_fits (\<lambda>i. \<bar>i\<bar> \<le> 2 ^ 53) j \<Longrightarrow> of_text c (to_text c j) = Some j"
  by (simp add: codec_ok_def)

end
