(* ===== verification/Valkey.thy ===== *)
theory Valkey
  imports Rl_Prelude
begin

text \<open>
  The key-value server is a service outside the repository. The program uses it through the
  commands of \<open>server_cmds\<close>, which the definitions take as a parameter; what it relies on is
  the documented behaviour of these commands, stated as the laws of the locale
  \<open>hash_server\<close> over an abstract view of the server: the live hashes, the expiry deadlines and
  the clock. An in-memory store with deadlines provides the interface for evaluation.
\<close>

section \<open>The interface\<close>

datatype reply_item = Nil_Reply | Info_Reply string

text \<open>
  A command returns an error message or a reply, and the changed server where it writes. The
  reply of HGETALL is the flat list of fields and values that RESP2 and Lua see. Clock and
  expiry do not move while a script runs.
\<close>

record 's server_cmds =
  cmd_time :: "'s \<Rightarrow> string + string list"
  cmd_hgetall :: "'s \<Rightarrow> string \<Rightarrow> string + string list"
  cmd_hincrby :: "'s \<Rightarrow> string \<Rightarrow> string \<Rightarrow> string \<Rightarrow> string + 's"
  cmd_hdel :: "'s \<Rightarrow> string \<Rightarrow> string list \<Rightarrow> string + 's"
  cmd_expire :: "'s \<Rightarrow> string \<Rightarrow> string \<Rightarrow> string + 's"
  cmd_command_info :: "'s \<Rightarrow> string list \<Rightarrow> string + reply_item list"

definition flat_pairs :: "('a \<times> 'a) list \<Rightarrow> 'a list" where
  "flat_pairs fvs = concat (map (\<lambda>(f, v). [f, v]) fvs)"

lemma flat_pairs_simps [simp]:
  "flat_pairs [] = []"
  "flat_pairs ((f, v) # fvs) = f # v # flat_pairs fvs"
  by (simp_all add: flat_pairs_def)

locale hash_server =
  fixes cmds :: "'s server_cmds"
    and hash :: "'s \<Rightarrow> string \<Rightarrow> (string \<rightharpoonup> string)"
    and deadline :: "'s \<Rightarrow> string \<Rightarrow> nat option"
    and clock :: "'s \<Rightarrow> nat"
    and serves :: "'s \<Rightarrow> string \<Rightarrow> bool"
  assumes time_law: "\<exists>us. cmd_time cmds s = Inr [show_nat (clock s), us]"
    and hgetall_law: "serves s k \<Longrightarrow>
      \<exists>fvs. cmd_hgetall cmds s k = Inr (flat_pairs fvs) \<and> distinct (map fst fvs) \<and> map_of fvs = hash s k"
    and hincrby_law: "serves s k \<Longrightarrow> 0 \<le> v \<Longrightarrow> 0 \<le> n \<Longrightarrow> v + n < 2 ^ 63 \<Longrightarrow>
      hash s k f = Some (show_int v) \<or> hash s k f = None \<and> v = 0 \<Longrightarrow>
      \<exists>s'. cmd_hincrby cmds s k f (show_int n) = Inr s'
        \<and> hash s' = (hash s)(k := (hash s k)(f \<mapsto> show_int (v + n)))
        \<and> deadline s' = deadline s \<and> clock s' = clock s \<and> serves s' = serves s"
    and hdel_law: "serves s k \<Longrightarrow> fs \<noteq> [] \<Longrightarrow>
      \<exists>s'. cmd_hdel cmds s k fs = Inr s'
        \<and> hash s' = (hash s)(k := (hash s k) |` (- set fs))
        \<and> (hash s' k \<noteq> Map.empty \<longrightarrow> deadline s' = deadline s)
        \<and> clock s' = clock s \<and> serves s' = serves s"
    and expire_law: "serves s k \<Longrightarrow> hash s k \<noteq> Map.empty \<Longrightarrow> 0 < ttl \<Longrightarrow> ttl < 2 ^ 53 \<Longrightarrow>
      \<exists>s'. cmd_expire cmds s k (show_int (int ttl)) = Inr s' \<and> hash s' = hash s
        \<and> deadline s' = (deadline s)(k := Some (clock s + ttl))
        \<and> clock s' = clock s \<and> serves s' = serves s"
    and hincrby_other: "cmd_hincrby cmds s k f v' = Inr s' \<Longrightarrow> k' \<noteq> k \<Longrightarrow>
      hash s' k' = hash s k' \<and> deadline s' k' = deadline s k' \<and> serves s' k' = serves s k' \<and> clock s' = clock s"
    and hdel_other: "cmd_hdel cmds s k fs = Inr s' \<Longrightarrow> k' \<noteq> k \<Longrightarrow>
      hash s' k' = hash s k' \<and> deadline s' k' = deadline s k' \<and> serves s' k' = serves s k' \<and> clock s' = clock s"
    and expire_other: "cmd_expire cmds s k v' = Inr s' \<Longrightarrow> k' \<noteq> k \<Longrightarrow>
      hash s' k' = hash s k' \<and> deadline s' k' = deadline s k' \<and> serves s' k' = serves s k' \<and> clock s' = clock s"

text \<open>
  Between two scripts time passes and other clients use other keys. A key of \<open>K\<close> keeps its
  hash until its deadline; from the deadline on the server may have removed it, completely.
  An earlier removal (eviction under memory pressure, a restart that loses writes) and a clock
  that runs backwards are excluded.
\<close>

definition idle :: "('s \<Rightarrow> string \<Rightarrow> (string \<rightharpoonup> string)) \<Rightarrow> ('s \<Rightarrow> string \<Rightarrow> nat option) \<Rightarrow>
    ('s \<Rightarrow> nat) \<Rightarrow> ('s \<Rightarrow> string \<Rightarrow> bool) \<Rightarrow> string set \<Rightarrow> 's \<Rightarrow> 's \<Rightarrow> bool" where
  "idle hash deadline clock serves K s s' \<longleftrightarrow>
     clock s \<le> clock s' \<and>
     (\<forall>k \<in> K. serves s k \<longrightarrow> serves s' k \<and>
        (hash s' k = hash s k \<and> deadline s' k = deadline s k
         \<or> (\<exists>d. deadline s k = Some d \<and> d \<le> clock s' \<and> hash s' k = Map.empty)))"

section \<open>An in-memory store\<close>

record store =
  entries :: "string \<Rightarrow> (string \<times> string) list"
  expiry :: "string \<Rightarrow> nat option"
  store_clock :: nat

definition store_hash :: "store \<Rightarrow> string \<Rightarrow> (string \<rightharpoonup> string)" where
  "store_hash s k = map_of (entries s k)"

definition store_serves :: "store \<Rightarrow> string \<Rightarrow> bool" where
  "store_serves s k \<longleftrightarrow> distinct (map fst (entries s k))"

fun field_add :: "string \<Rightarrow> int \<Rightarrow> (string \<times> string) list \<Rightarrow> (string \<times> string) list option" where
  "field_add f n [] = Some [(f, show_int n)]"
| "field_add f n ((g, v) # fvs) =
     (if g = f then
        (case lua_tonumber v of
           None \<Rightarrow> None
         | Some i \<Rightarrow> if i + n < 2 ^ 63 then Some ((g, show_int (i + n)) # fvs) else None)
      else map_option ((#) (g, v)) (field_add f n fvs))"

definition store_cmds :: "store server_cmds" where
  "store_cmds = \<lparr>
     cmd_time = (\<lambda>s. Inr [show_nat (store_clock s), ''0'']),
     cmd_hgetall = (\<lambda>s k. Inr (flat_pairs (entries s k))),
     cmd_hincrby = (\<lambda>s k f n.
       case lua_tonumber n of
         None \<Rightarrow> Inl ''ERR value is not an integer or out of range''
       | Some i \<Rightarrow>
           (case field_add f i (entries s k) of
              None \<Rightarrow> Inl ''ERR hash value is not an integer''
            | Some fvs \<Rightarrow> Inr (s\<lparr>entries := (entries s)(k := fvs)\<rparr>))),
     cmd_hdel = (\<lambda>s k fs.
       if fs = [] then Inl ''ERR wrong number of arguments''
       else Inr (s\<lparr>entries := (entries s)(k := filter (\<lambda>(f, v). f \<notin> set fs) (entries s k))\<rparr>)),
     cmd_expire = (\<lambda>s k n.
       case lua_tonumber n of
         None \<Rightarrow> Inl ''ERR value is not an integer or out of range''
       | Some i \<Rightarrow> Inr (s\<lparr>expiry := (expiry s)(k := Some (store_clock s + nat i))\<rparr>)),
     cmd_command_info = (\<lambda>s cs. Inr (map Info_Reply cs))\<rparr>"

text \<open>The passing of time: keys whose deadline has come are removed.\<close>

definition store_wait :: "nat \<Rightarrow> store \<Rightarrow> store" where
  "store_wait t s =
     (let dead = (\<lambda>k. case expiry s k of None \<Rightarrow> False | Some d \<Rightarrow> d \<le> store_clock s + t)
      in \<lparr>entries = (\<lambda>k. if dead k then [] else entries s k),
          expiry = (\<lambda>k. if dead k then None else expiry s k),
          store_clock = store_clock s + t\<rparr>)"

definition empty_store :: "nat \<Rightarrow> store" where
  "empty_store t = \<lparr>entries = (\<lambda>_. []), expiry = (\<lambda>_. None), store_clock = t\<rparr>"

lemma field_add_Some:
  assumes "map_of fvs f = Some (show_int v) \<or> map_of fvs f = None \<and> v = 0"
    and "v + n < 2 ^ 63" and "distinct (map fst fvs)"
  shows "\<exists>fvs'. field_add f n fvs = Some fvs' \<and> map_of fvs' = (map_of fvs)(f \<mapsto> show_int (v + n))
    \<and> distinct (map fst fvs') \<and> set (map fst fvs') \<subseteq> insert f (set (map fst fvs))"
  using assms
proof (induction fvs)
  case Nil
  then show ?case by (auto simp: fun_eq_iff)
next
  case (Cons gv fvs)
  obtain g w where gv: "gv = (g, w)" by (cases gv)
  show ?case
  proof (cases "g = f")
    case True
    then show ?thesis using Cons.prems gv by (auto simp: decimal_simps fun_eq_iff)
  next
    case False
    then have "map_of fvs f = Some (show_int v) \<or> map_of fvs f = None \<and> v = 0"
      and "distinct (map fst fvs)" using Cons.prems gv by simp_all
    from Cons.IH [OF this(1) Cons.prems(2) this(2)]
    obtain fvs' where "field_add f n fvs = Some fvs'"
      "map_of fvs' = (map_of fvs)(f \<mapsto> show_int (v + n))" "distinct (map fst fvs')"
      "set (map fst fvs') \<subseteq> insert f (set (map fst fvs))" by blast
    then show ?thesis using False Cons.prems gv by (auto simp: fun_eq_iff)
  qed
qed

lemma map_of_drop_fields: "map_of (filter (\<lambda>(f, v). f \<notin> set fs) fvs) = map_of fvs |` (- set fs)"
  by (auto simp: map_of_filter_fst restrict_map_def fun_eq_iff)

interpretation mem: hash_server store_cmds store_hash expiry store_clock store_serves
proof
  fix s :: store and k f :: string and v n :: int
  assume H: "store_serves s k" "v + n < 2 ^ 63"
    "store_hash s k f = Some (show_int v) \<or> store_hash s k f = None \<and> v = 0"
  then obtain fvs' where "field_add f n (entries s k) = Some fvs'"
      "map_of fvs' = (map_of (entries s k))(f \<mapsto> show_int (v + n))" "distinct (map fst fvs')"
    using field_add_Some [of "entries s k" f v n] by (auto simp: store_serves_def store_hash_def)
  then show "\<exists>s'. cmd_hincrby store_cmds s k f (show_int n) = Inr s'
        \<and> store_hash s' = (store_hash s)(k := (store_hash s k)(f \<mapsto> show_int (v + n)))
        \<and> expiry s' = expiry s \<and> store_clock s' = store_clock s \<and> store_serves s' = store_serves s"
    using H(1) by (auto simp: store_cmds_def store_hash_def store_serves_def fun_eq_iff decimal_simps)
next
  fix s :: store and k :: string and fs :: "string list"
  assume "store_serves s k" and "fs \<noteq> []"
  moreover have "distinct (map fst (filter (\<lambda>(f, v). f \<notin> set fs) xs))"
    if "distinct (map fst xs)" for xs :: "(string \<times> string) list"
    using that by (induction xs) auto
  ultimately show "\<exists>s'. cmd_hdel store_cmds s k fs = Inr s'
        \<and> store_hash s' = (store_hash s)(k := (store_hash s k) |` (- set fs))
        \<and> (store_hash s' k \<noteq> Map.empty \<longrightarrow> expiry s' = expiry s)
        \<and> store_clock s' = store_clock s \<and> store_serves s' = store_serves s"
    by (auto simp: store_cmds_def store_hash_def store_serves_def map_of_drop_fields fun_eq_iff)
qed (auto simp: store_cmds_def store_hash_def store_serves_def decimal_simps fun_eq_iff
    split: option.splits if_splits)

lemma store_wait_idle:
  "idle store_hash expiry store_clock store_serves K s (store_wait t s)"
  by (auto simp: idle_def store_wait_def store_hash_def store_serves_def Let_def split: option.splits)

lemma empty_store_views [simp]:
  "store_hash (empty_store t) k = Map.empty" "expiry (empty_store t) k = None"
  "store_clock (empty_store t) = t" "store_serves (empty_store t) k"
  by (simp_all add: empty_store_def store_hash_def store_serves_def)

end
