(* ===== verification/Script.thy ===== *)
theory Script
  imports Json Valkey
begin

text \<open>
  \<open>lua/check_and_record.lua\<close>, phase by phase. Lua numbers are doubles, whose arithmetic is exact
  on integers below \<open>2 ^ 53\<close> in magnitude; they are \<^typ>\<open>int\<close> here. The theory Script_Doubles has the
  script with every rounding and shows that it computes the same. A
  Lua error is a value of \<open>lua_error\<close>: indexing or arithmetic on nil is \<open>Type_Error\<close>, an
  error reply of \<open>redis.call\<close> is \<open>Server_Error\<close>. What was written before an error stays.
\<close>

datatype lua_error = Decode_Error | Type_Error | Unpack_Error | Server_Error string

section \<open>The request\<close>

record lua_window =
  lw_key_index :: int
  lw_span_secs :: int
  lw_limit :: int

record lua_request =
  rq_recipient_count :: int
  rq_now_override :: "json option"
  rq_bucket_sizes :: "int list"
  rq_windows :: "lua_window list"
  rq_retention_secs :: "int list"

text \<open>
  Reading the decoded table. The loop that adds 1 to every \<open>key_index\<close> is part of it: from
  here on the index is 1-based. A missing or ill-typed member raises when it is used, which
  is before any write.
\<close>

definition decode_window :: "json \<Rightarrow> lua_window option" where
  "decode_window j =
     (case (Option.bind (jget ''key_index'' j) jint, Option.bind (jget ''span_secs'' j) jint,
            Option.bind (jget ''limit'' j) jint) of
        (Some ki, Some sp, Some li) \<Rightarrow>
          Some \<lparr>lw_key_index = ki + 1, lw_span_secs = sp, lw_limit = li\<rparr>
      | _ \<Rightarrow> None)"

definition decode_request :: "json \<Rightarrow> lua_request option" where
  "decode_request j =
     (case jget ''plan'' j of
        None \<Rightarrow> None
      | Some plan \<Rightarrow>
          (case (Option.bind (jget ''recipient_count'' j) jint,
                 Option.bind (jget ''bucket_sizes'' plan) jints,
                 Option.bind (Option.bind (jget ''windows'' plan) jarr) (\<lambda>ws. all_some (map decode_window ws)),
                 Option.bind (jget ''retention_secs'' plan) jints) of
             (Some n, Some bs, Some ws, Some rs) \<Rightarrow>
               Some \<lparr>rq_recipient_count = n, rq_now_override = jget ''now_override'' j,
                     rq_bucket_sizes = bs, rq_windows = ws, rq_retention_secs = rs\<rparr>
           | _ \<Rightarrow> None))"

text \<open>
  \<open>request.now_override or tonumber(redis.call("TIME")[1])\<close>: only nil and false fall through
  to the clock. A JSON null decodes to \<open>cjson.null\<close>, which is true, and arithmetic on it raises.
\<close>

fun server_now :: "'s server_cmds \<Rightarrow> 's \<Rightarrow> lua_error + int" where
  "server_now V s =
     (case cmd_time V s of
        Inl e \<Rightarrow> Inl (Server_Error e)
      | Inr [] \<Rightarrow> Inl Type_Error
      | Inr (secs # _) \<Rightarrow>
          (case lua_tonumber secs of None \<Rightarrow> Inl Type_Error | Some t \<Rightarrow> Inr t))"

fun lua_now :: "'s server_cmds \<Rightarrow> 's \<Rightarrow> json option \<Rightarrow> lua_error + int" where
  "lua_now V s None = server_now V s"
| "lua_now V s (Some (JBool False)) = server_now V s"
| "lua_now V s (Some (JInt t)) = Inr t"
| "lua_now V s (Some _) = Inl Type_Error"

section \<open>Fetching the buckets\<close>

type_synonym entry = "int option \<times> int option"

text \<open>One pass over the flat reply: the entries and the smallest id, nil for an empty hash.\<close>

fun next_min :: "int option \<Rightarrow> int option \<Rightarrow> lua_error + int option" where
  "next_min None bid = Inr bid"
| "next_min (Some m) None = Inl Type_Error"
| "next_min (Some m) (Some i) = Inr (Some (if i < m then i else m))"

fun parse_fields :: "string list \<Rightarrow> int option \<Rightarrow> lua_error + (entry list \<times> int option)" where
  "parse_fields [] min_id = Inr ([], min_id)"
| "parse_fields [f] min_id =
     (case next_min min_id (lua_tonumber f) of
        Inl e \<Rightarrow> Inl e
      | Inr m \<Rightarrow> Inr ([(lua_tonumber f, None)], m))"
| "parse_fields (f # c # rest) min_id =
     (case next_min min_id (lua_tonumber f) of
        Inl e \<Rightarrow> Inl e
      | Inr m \<Rightarrow>
          (case parse_fields rest m of
             Inl e \<Rightarrow> Inl e
           | Inr (es, m') \<Rightarrow> Inr ((lua_tonumber f, lua_tonumber c) # es, m')))"

fun fetch_buckets :: "'s server_cmds \<Rightarrow> 's \<Rightarrow> string list \<Rightarrow> int list \<Rightarrow>
    lua_error + (entry list \<times> int option) list" where
  "fetch_buckets V s keys [] = Inr []"
| "fetch_buckets V s [] (bs # sizes) = Inl Type_Error"
| "fetch_buckets V s (k # keys) (bs # sizes) =
     (case cmd_hgetall V s k of
        Inl e \<Rightarrow> Inl (Server_Error e)
      | Inr fvs \<Rightarrow>
          (case parse_fields fvs None of
             Inl e \<Rightarrow> Inl e
           | Inr em \<Rightarrow>
               (case fetch_buckets V s keys sizes of Inl e \<Rightarrow> Inl e | Inr ems \<Rightarrow> Inr (em # ems))))"

section \<open>Checking the windows\<close>

text \<open>1-based indexing of a Lua array; \<open>None\<close> is nil.\<close>

definition lua_index :: "'a list \<Rightarrow> int \<Rightarrow> 'a option" where
  "lua_index xs i = (if 1 \<le> i then nth_opt xs (nat (i - 1)) else None)"

fun window_total :: "int \<Rightarrow> int \<Rightarrow> entry list \<Rightarrow> int \<Rightarrow> lua_error + int" where
  "window_total bucket_size oldest [] acc = Inr acc"
| "window_total bucket_size oldest ((None, c) # es) acc = Inl Type_Error"
| "window_total bucket_size oldest ((Some i, c) # es) acc =
     (if (i + 1) * bucket_size > oldest
      then (case c of None \<Rightarrow> Inl Type_Error | Some n \<Rightarrow> window_total bucket_size oldest es (acc + n))
      else window_total bucket_size oldest es acc)"

fun check_windows :: "int \<Rightarrow> int \<Rightarrow> int list \<Rightarrow> (entry list \<times> int option) list \<Rightarrow>
    lua_window list \<Rightarrow> lua_error + bool" where
  "check_windows now n sizes bks [] = Inr True"
| "check_windows now n sizes bks (w # ws) =
     (case (lua_index sizes (lw_key_index w), lua_index bks (lw_key_index w)) of
        (Some bs, Some (es, _)) \<Rightarrow>
          (case window_total bs (now - lw_span_secs w) es n of
             Inl e \<Rightarrow> Inl e
           | Inr acc \<Rightarrow> if acc > lw_limit w then Inr False else check_windows now n sizes bks ws)
      | _ \<Rightarrow> Inl Type_Error)"

section \<open>Recording\<close>

fun stale_ids :: "int \<Rightarrow> int \<Rightarrow> entry list \<Rightarrow> lua_error + int list" where
  "stale_ids bucket_size oldest [] = Inr []"
| "stale_ids bucket_size oldest ((None, c) # es) = Inl Type_Error"
| "stale_ids bucket_size oldest ((Some i, c) # es) =
     (case stale_ids bucket_size oldest es of
        Inl e \<Rightarrow> Inl e
      | Inr st \<Rightarrow> Inr (if (i + 1) * bucket_size \<le> oldest then i # st else st))"

text \<open>\<open>unpack\<close> raises when the results do not fit the C stack of Lua 5.1, 8000 slots.\<close>

definition lua_unpack :: "'a list \<Rightarrow> lua_error + 'a list" where
  "lua_unpack xs = (if length xs < 8000 then Inr xs else Inl Unpack_Error)"

definition record_key :: "'s server_cmds \<Rightarrow> int \<Rightarrow> int \<Rightarrow> string \<Rightarrow> int \<Rightarrow> int option \<Rightarrow>
    entry list \<times> int option \<Rightarrow> 's \<Rightarrow> (lua_error + unit) \<times> 's" where
  "record_key V now n k bucket_size retention em s =
     (case cmd_hincrby V s k (show_int (now div bucket_size)) (show_int n) of
        Inl e \<Rightarrow> (Inl (Server_Error e), s)
      | Inr s1 \<Rightarrow>
          (case retention of
             None \<Rightarrow> (Inl Type_Error, s1)
           | Some r \<Rightarrow>
               (case cmd_expire V s1 k (show_int (r + bucket_size)) of
                  Inl e \<Rightarrow> (Inl (Server_Error e), s1)
                | Inr s2 \<Rightarrow>
                    (case em of
                       (es, None) \<Rightarrow> (Inr (), s2)
                     | (es, Some min_id) \<Rightarrow>
                         if (min_id + 1) * bucket_size \<le> now - r
                         then (case stale_ids bucket_size (now - r) es of
                                 Inl e \<Rightarrow> (Inl e, s2)
                               | Inr stale \<Rightarrow>
                                   (case lua_unpack stale of
                                      Inl e \<Rightarrow> (Inl e, s2)
                                    | Inr ids \<Rightarrow>
                                        (case cmd_hdel V s2 k (map show_int ids) of
                                           Inl e \<Rightarrow> (Inl (Server_Error e), s2)
                                         | Inr s3 \<Rightarrow> (Inr (), s3))))
                         else (Inr (), s2)))))"

fun record_keys :: "'s server_cmds \<Rightarrow> int \<Rightarrow> int \<Rightarrow> string list \<Rightarrow> int list \<Rightarrow> int list \<Rightarrow>
    (entry list \<times> int option) list \<Rightarrow> 's \<Rightarrow> (lua_error + unit) \<times> 's" where
  "record_keys V now n (k # keys) (bs # sizes) rets (em # ems) s =
     (case record_key V now n k bs (case rets of [] \<Rightarrow> None | r # _ \<Rightarrow> Some r) em s of
        (Inl e, s') \<Rightarrow> (Inl e, s')
      | (Inr _, s') \<Rightarrow> record_keys V now n keys sizes (drop 1 rets) ems s')"
| "record_keys V now n _ _ _ _ s = (Inr (), s)"

section \<open>The script\<close>

text \<open>The result is the reply (1 accepted, 0 rejected) or the Lua error, and the server's state.\<close>

definition check_and_record :: "'s server_cmds \<Rightarrow> 'txt json_text \<Rightarrow> string list \<Rightarrow> 'txt \<Rightarrow> 's \<Rightarrow>
    (lua_error + int) \<times> 's" where
  "check_and_record V codec keys arg s =
     (case of_text codec arg of
        None \<Rightarrow> (Inl Decode_Error, s)
      | Some j \<Rightarrow>
     (case decode_request j of
        None \<Rightarrow> (Inl Type_Error, s)
      | Some rq \<Rightarrow>
     (case lua_now V s (rq_now_override rq) of
        Inl e \<Rightarrow> (Inl e, s)
      | Inr now \<Rightarrow>
     (case fetch_buckets V s keys (rq_bucket_sizes rq) of
        Inl e \<Rightarrow> (Inl e, s)
      | Inr bks \<Rightarrow>
     (case check_windows now (rq_recipient_count rq) (rq_bucket_sizes rq) bks (rq_windows rq) of
        Inl e \<Rightarrow> (Inl e, s)
      | Inr False \<Rightarrow> (Inr 0, s)
      | Inr True \<Rightarrow>
     (case record_keys V now (rq_recipient_count rq) keys (rq_bucket_sizes rq)
             (rq_retention_secs rq) bks s of
        (Inl e, s') \<Rightarrow> (Inl e, s')
      | (Inr _, s') \<Rightarrow> (Inr 1, s')))))))"

end
