(* ===== verification/Limiter.thy ===== *)
theory Limiter
  imports Plan Script
begin

text \<open>
  \<open>src/limiter.rs\<close>: the naming of the bucket keys, the argument of the script, the check of
  the server's command set and \<open>Limiter::check_sasl\<close>.
\<close>

section \<open>Keys\<close>

definition BUCKET_KEY_TYPE :: string where "BUCKET_KEY_TYPE = ''bucket''"
definition BUCKET_SCHEMA_VERSION :: string where "BUCKET_SCHEMA_VERSION = ''v1''"
definition SASL_IDENTITY_KIND :: string where "SASL_IDENTITY_KIND = ''sasl''"

text \<open>\<open>str::replace\<close> with a single-character pattern.\<close>

definition replace_char :: "char \<Rightarrow> string \<Rightarrow> string \<Rightarrow> string" where
  "replace_char c r s = concat (map (\<lambda>x. if x = c then r else [x]) s)"

text \<open>A \<open>Cow<str>\<close>: text that was borrowed as it is, or allocated.\<close>

datatype cow = Borrowed string | Owned string

fun deref :: "cow \<Rightarrow> string" where
  "deref (Borrowed s) = s"
| "deref (Owned s) = s"

definition escape_identity_value :: "string \<Rightarrow> cow" where
  "escape_identity_value value =
     (if list_ex (\<lambda>c. c = CHR 0x5C \<or> c = CHR '':'') value
      then Owned (replace_char (CHR '':'') [CHR 0x5C, CHR '':''] (replace_char (CHR 0x5C) [CHR 0x5C, CHR 0x5C] value))
      else Borrowed value)"

definition identity :: "string \<Rightarrow> string \<Rightarrow> string" where
  "identity kind value = kind @ '':'' @ deref (escape_identity_value value)"

definition bucket_key :: "string \<Rightarrow> string \<Rightarrow> u64 \<Rightarrow> string" where
  "bucket_key key_prefix ident bucket_sz =
     key_prefix @ '':'' @ BUCKET_KEY_TYPE @ '':'' @ BUCKET_SCHEMA_VERSION @ '':'' @ ident @ '':''
     @ show_nat (unat bucket_sz)"

text \<open>A plain description of the escaped text: every backslash and colon gets a backslash.\<close>

fun escaped :: "string \<Rightarrow> string" where
  "escaped [] = []"
| "escaped (c # cs) = (if c = CHR 0x5C \<or> c = CHR '':'' then CHR 0x5C # c # escaped cs else c # escaped cs)"

fun unescape :: "string \<Rightarrow> string" where
  "unescape [] = []"
| "unescape [c] = [c]"
| "unescape (c # d # cs) = (if c = CHR 0x5C then d # unescape cs else c # unescape (d # cs))"

lemma escape_identity_value_escaped: "deref (escape_identity_value s) = escaped s"
proof -
  have "replace_char (CHR '':'') [CHR 0x5C, CHR '':''] (replace_char (CHR 0x5C) [CHR 0x5C, CHR 0x5C] s)
    = escaped s"
    by (induction s) (auto simp: replace_char_def)
  moreover have "\<not> list_ex (\<lambda>c. c = CHR 0x5C \<or> c = CHR '':'') s \<Longrightarrow> escaped s = s"
    by (induction s) auto
  ultimately show ?thesis by (auto simp: escape_identity_value_def)
qed

lemma unescape_plain: "c \<noteq> CHR 0x5C \<Longrightarrow> unescape (c # cs) = c # unescape cs"
  by (cases cs) auto

lemma unescape_escaped: "unescape (escaped s) = s"
  by (induction s) (auto simp: unescape_plain)

lemma escaped_inj [simp]: "escaped s = escaped t \<longleftrightarrow> s = t"
  by (metis unescape_escaped)

lemma identity_inj:
  assumes "identity k v = identity k' v'" and "CHR '':'' \<notin> set k" and "CHR '':'' \<notin> set k'"
  shows "k = k' \<and> v = v'"
proof -
  have "k @ CHR '':'' # escaped v = k' @ CHR '':'' # escaped v'"
    using assms(1) by (simp add: identity_def escape_identity_value_escaped)
  from split_first_unique [OF this assms(2,3)] show ?thesis by simp
qed

lemma bucket_key_inj_ident:
  assumes "bucket_key p i b = bucket_key p i' b'"
  shows "i = i' \<and> b = b'"
proof -
  have "i @ CHR '':'' # show_nat (unat b) = i' @ CHR '':'' # show_nat (unat b')"
    using assms by (simp add: bucket_key_def)
  from split_last_unique [OF this] show_nat_no_sep [of "CHR '':''"] show ?thesis
    by (simp add: word_unat_eq_iff)
qed

section \<open>The script's argument\<close>

definition window_json :: "planned_window \<Rightarrow> json" where
  "window_json w = JObj [(''key_index'', JInt (int (key_index w))),
     (''span_secs'', JInt (uint (span_secs w))), (''limit'', JInt (uint (limit w)))]"

definition plan_json :: "check_plan \<Rightarrow> json" where
  "plan_json p = JObj [(''bucket_sizes'', JArr (map (\<lambda>b. JInt (uint b)) (bucket_sizes p))),
     (''windows'', JArr (map window_json (windows p))),
     (''retention_secs'', JArr (map (\<lambda>b. JInt (uint b)) (retention_secs p)))]"

text \<open>\<open>CheckRequest\<close> as it is serialized: an absent \<open>now_override\<close> is left out.\<close>

definition check_request_json :: "u32 \<Rightarrow> u64 option \<Rightarrow> check_plan \<Rightarrow> json" where
  "check_request_json n now_override p = JObj
     ([(''recipient_count'', JInt (uint n))]
      @ (case now_override of None \<Rightarrow> [] | Some t \<Rightarrow> [(''now_override'', JInt (uint t))])
      @ [(''plan'', plan_json p)])"

definition lua_window_of :: "planned_window \<Rightarrow> lua_window" where
  "lua_window_of w = \<lparr>lw_key_index = int (key_index w) + 1, lw_span_secs = uint (span_secs w),
     lw_limit = uint (limit w)\<rparr>"

lemma lua_window_of_simps [simp]:
  "lw_key_index (lua_window_of w) = int (key_index w) + 1"
  "lw_span_secs (lua_window_of w) = uint (span_secs w)"
  "lw_limit (lua_window_of w) = uint (limit w)"
  by (simp_all add: lua_window_of_def)

lemma decode_window_json [simp]: "decode_window (window_json w) = Some (lua_window_of w)"
  by (simp add: decode_window_def window_json_def lua_window_of_def)

lemma decode_check_request:
  "decode_request (check_request_json n t p) = Some
     \<lparr>rq_recipient_count = uint n, rq_now_override = map_option (\<lambda>t. JInt (uint t)) t,
      rq_bucket_sizes = map uint (bucket_sizes p), rq_windows = map lua_window_of (windows p),
      rq_retention_secs = map uint (retention_secs p)\<rparr>"
  by (cases t) (simp_all add: decode_request_def check_request_json_def plan_json_def comp_def)

section \<open>Connecting\<close>

definition REQUIRED_COMMANDS :: "string list" where
  "REQUIRED_COMMANDS =
     [''EVALSHA'', ''SCRIPT'', ''HGETALL'', ''HINCRBY'', ''HDEL'', ''EXPIRE'', ''TIME'']"

datatype redis_error = Transport_Error | Command_Error string | Missing_Commands "string list"
  | Script_Error lua_error | Unexpected_Return_Type

definition check_command_support :: "'s server_cmds \<Rightarrow> 's \<Rightarrow> string list \<Rightarrow> redis_error + unit" where
  "check_command_support V s commands =
     (case cmd_command_info V s commands of
        Inl e \<Rightarrow> Inl (Command_Error e)
      | Inr info \<Rightarrow>
          let missing = map fst (filter (\<lambda>(_, i). i = Nil_Reply) (zip commands info))
          in if missing = [] then Inr () else Inl (Missing_Commands missing))"

section \<open>Checking a sender\<close>

text \<open>
  What becomes of one invocation on the connection: it is delivered and answered, the request
  is lost, or the server executes it and the reply is lost (a timeout, a broken connection).
\<close>

datatype delivery = Delivered | Request_Lost | Reply_Lost

definition check_sasl :: "'s server_cmds \<Rightarrow> 'txt json_text \<Rightarrow> delivery \<Rightarrow> string \<Rightarrow> string \<Rightarrow> u32 \<Rightarrow>
    check_plan \<Rightarrow> u64 option \<Rightarrow> 's \<Rightarrow> (redis_error + bool) \<times> 's" where
  "check_sasl V codec net key_prefix sasl_username recipient_count plan now_override s =
     (if bucket_sizes plan = [] then (Inr True, s)
      else
        let sasl_identity = identity SASL_IDENTITY_KIND sasl_username;
            keys = map (bucket_key key_prefix sasl_identity) (bucket_sizes plan);
            request = to_text codec (check_request_json recipient_count now_override plan)
        in case net of
             Request_Lost \<Rightarrow> (Inl Transport_Error, s)
           | Reply_Lost \<Rightarrow> (Inl Transport_Error, snd (check_and_record V codec keys request s))
           | Delivered \<Rightarrow>
               (case check_and_record V codec keys request s of
                  (Inl e, s') \<Rightarrow> (Inl (Script_Error e), s')
                | (Inr allowed, s') \<Rightarrow> (Inr (allowed = 1), s')))"

end
