(* ===== verification/Sliding_Window.thy ===== *)
theory Sliding_Window
  imports Plan
begin

text \<open>
  What the rate limiter promises, without a server: the log of the accepted messages, each a
  time in seconds and a recipient count, oldest first, and the decision on a further message.
  The locale \<open>sliding_log\<close> is the contract of one window. Its lemmas bound what any history of
  admitted messages can contain; the bucketed decision that the plan makes interprets it.
\<close>

type_synonym log = "(nat \<times> nat) list"

text \<open>The recipients logged at the times that satisfy \<open>P\<close>.\<close>

definition logged :: "log \<Rightarrow> (nat \<Rightarrow> bool) \<Rightarrow> nat" where
  "logged H P = sum_list (map snd (filter (\<lambda>(t, n). P t) H))"

lemma logged_simps [simp]:
  "logged [] P = 0"
  "logged ((t, n) # H) P = (if P t then n else 0) + logged H P"
  "logged (H @ H') P = logged H P + logged H' P"
  by (simp_all add: logged_def)

lemma logged_mono:
  "(\<And>t n. (t, n) \<in> set H \<Longrightarrow> P t \<Longrightarrow> Q t) \<Longrightarrow> logged H P \<le> logged H Q"
  unfolding logged_def by (rule sum_list_filter_map_le) auto

lemma logged_cong:
  "(\<And>t n. (t, n) \<in> set H \<Longrightarrow> P t = Q t) \<Longrightarrow> logged H P = logged H Q"
  by (rule order_antisym; rule logged_mono) auto

lemma logged_none: "(\<And>t n. (t, n) \<in> set H \<Longrightarrow> \<not> P t) \<Longrightarrow> logged H P = 0"
  using logged_cong [of H P "\<lambda>_. False"] by (fastforce simp: logged_def)

lemma logged_disjoint:
  "(\<And>t. \<not> (P t \<and> Q t)) \<Longrightarrow> logged H (\<lambda>t. P t \<or> Q t) = logged H P + logged H Q"
  by (induction H) auto

text \<open>Summing the buckets of a list of distinct bucket ids.\<close>

lemma logged_buckets:
  "distinct bl \<Longrightarrow>
    sum_list (map (\<lambda>b. logged H (\<lambda>t. t div bs = b)) bl) = logged H (\<lambda>t. t div bs \<in> set bl)"
proof (induction bl)
  case Nil
  then show ?case by (simp add: logged_none)
next
  case (Cons b bl)
  have "logged H (\<lambda>t. t div bs \<in> set (b # bl)) = logged H (\<lambda>t. t div bs = b \<or> t div bs \<in> set bl)"
    by (rule logged_cong) auto
  also have "\<dots> = logged H (\<lambda>t. t div bs = b) + logged H (\<lambda>t. t div bs \<in> set bl)"
    using Cons.prems by (intro logged_disjoint) auto
  finally show ?case using Cons by simp
qed

section \<open>Histories of admitted messages\<close>

definition admitted :: "(log \<Rightarrow> nat \<Rightarrow> nat \<Rightarrow> bool) \<Rightarrow> log \<Rightarrow> bool" where
  "admitted admits H \<longleftrightarrow> (\<forall>i < length H. admits (take i H) (fst (H ! i)) (snd (H ! i)))"

lemma admitted_Nil [simp]: "admitted admits []"
  by (simp add: admitted_def)

lemma admitted_snoc [simp]:
  "admitted admits (H @ [(t, n)]) \<longleftrightarrow> admitted admits H \<and> admits H t n"
  by (auto simp: admitted_def nth_append less_Suc_eq)

lemma admitted_mono:
  "(\<And>H t n. admits H t n \<Longrightarrow> admits' H t n) \<Longrightarrow> admitted admits H \<Longrightarrow> admitted admits' H"
  by (auto simp: admitted_def)

text \<open>A run of requests: every admitted one is logged.\<close>

fun log_run :: "(log \<Rightarrow> nat \<Rightarrow> nat \<Rightarrow> bool) \<Rightarrow> log \<Rightarrow> (nat \<times> nat) list \<Rightarrow> log" where
  "log_run admits H [] = H"
| "log_run admits H ((t, n) # rs) = log_run admits (if admits H t n then H @ [(t, n)] else H) rs"

lemma log_run_admitted: "admitted admits H \<Longrightarrow> admitted admits (log_run admits H rs)"
  by (induction admits H rs rule: log_run.induct) auto

lemma log_run_sorted:
  "sorted (map fst H) \<Longrightarrow> sorted (map fst rs) \<Longrightarrow> (\<And>t r. t \<in> fst ` set H \<Longrightarrow> r \<in> fst ` set rs \<Longrightarrow> t \<le> r)
    \<Longrightarrow> sorted (map fst (log_run admits H rs))"
proof (induction admits H rs rule: log_run.induct)
  case (1 admits H)
  then show ?case by simp
next
  case (2 admits H t n rs)
  show ?case unfolding log_run.simps
  proof (rule "2.IH")
    show "sorted (map fst (if admits H t n then H @ [(t, n)] else H))"
      using "2.prems" by (fastforce simp: sorted_append)
    show "sorted (map fst rs)" using "2.prems"(2) by simp
    fix u r assume "u \<in> fst ` set (if admits H t n then H @ [(t, n)] else H)" "r \<in> fst ` set rs"
    then show "u \<le> r" using "2.prems"(2,3) by (fastforce split: if_splits)
  qed
qed

section \<open>The contract of one window\<close>

text \<open>
  A decision procedure for a window of \<open>span\<close> seconds: it admits only what keeps the exact
  sliding window within the limit, and refuses only what exceeds the limit over a window longer
  by \<open>slack\<close>.
\<close>

locale sliding_log =
  fixes admits :: "log \<Rightarrow> nat \<Rightarrow> nat \<Rightarrow> bool" and span lim slack :: nat
  assumes admits_within: "admits H now n \<Longrightarrow> n + logged H (\<lambda>t. now < t + span) \<le> lim"
    and refuses_over: "\<not> admits H now n \<Longrightarrow> lim < n + logged H (\<lambda>t. now < t + span + slack)"
begin

text \<open>At no time does any window of \<open>span\<close> seconds hold more than the limit.\<close>

lemma window_never_exceeded:
  assumes "admitted admits H" and "sorted (map fst H)"
  shows "logged H (\<lambda>t. t \<le> \<tau> \<and> \<tau> < t + span) \<le> lim"
  using assms
proof (induction H rule: rev_induct)
  case Nil
  then show ?case by simp
next
  case (snoc e H)
  obtain t n where e: "e = (t, n)" by (cases e)
  show ?case
  proof (cases "t \<le> \<tau>")
    case False
    then show ?thesis using snoc e by (simp add: sorted_append)
  next
    case True
    have "logged (H @ [e]) (\<lambda>t. t \<le> \<tau> \<and> \<tau> < t + span) \<le> n + logged H (\<lambda>t'. t < t' + span)"
      using True e logged_mono [of H "\<lambda>t. t \<le> \<tau> \<and> \<tau> < t + span" "\<lambda>t'. t < t' + span"] by auto
    also have "\<dots> \<le> lim" using snoc.prems(1) e admits_within by auto
    finally show ?thesis .
  qed
qed

text \<open>A message that fits the longer window is admitted, in particular after a quiet period.\<close>

lemma admits_if_room:
  "n + logged H (\<lambda>t. now < t + span + slack) \<le> lim \<Longrightarrow> admits H now n"
  using refuses_over [of H now n] by linarith

lemma admits_after_quiet:
  assumes "\<And>t m. (t, m) \<in> set H \<Longrightarrow> t + span + slack \<le> now"
  shows "admits H now n \<longleftrightarrow> n \<le> lim"
proof
  assume "admits H now n"
  then show "n \<le> lim" using admits_within by fastforce
next
  assume "n \<le> lim"
  moreover have "logged H (\<lambda>t. now < t + span + slack) = 0"
    using assms by (intro logged_none) fastforce
  ultimately show "admits H now n" by (intro admits_if_room) simp
qed

end

section \<open>The bucketed decision\<close>

definition bucket_end :: "nat \<Rightarrow> nat \<Rightarrow> nat" where
  "bucket_end bs t = (t div bs + 1) * bs"

lemma bucket_end_after: "0 < bs \<Longrightarrow> t < bucket_end bs t"
  by (simp add: bucket_end_def) (metis add.commute dividend_less_times_div mult.commute)

lemma bucket_end_le: "bucket_end bs t \<le> t + bs"
  by (simp add: bucket_end_def)

text \<open>A whole bucket counts as long as its end is inside the window.\<close>

definition window_admits :: "nat \<Rightarrow> nat \<Rightarrow> nat \<Rightarrow> log \<Rightarrow> nat \<Rightarrow> nat \<Rightarrow> bool" where
  "window_admits bs span lim H now n \<longleftrightarrow> n + logged H (\<lambda>t. now < bucket_end bs t + span) \<le> lim"

definition plan_admits :: "check_plan \<Rightarrow> log \<Rightarrow> nat \<Rightarrow> nat \<Rightarrow> bool" where
  "plan_admits p H now n \<longleftrightarrow>
     (\<forall>w \<in> set (windows p).
        window_admits (unat (bucket_sizes p ! key_index w)) (unat (span_secs w)) (unat (limit w)) H now n)"

interpretation bucketed: sliding_log "window_admits (Suc b) span lim" span lim "Suc b"
  for b span lim
proof
  fix H now n
  assume "window_admits (Suc b) span lim H now n"
  moreover have "logged H (\<lambda>t. now < t + span) \<le> logged H (\<lambda>t. now < bucket_end (Suc b) t + span)"
    using bucket_end_after [of "Suc b"] by (intro logged_mono) (meson add_less_mono1 less_trans zero_less_Suc)
  ultimately show "n + logged H (\<lambda>t. now < t + span) \<le> lim" by (simp add: window_admits_def)
next
  fix H now n
  assume "\<not> window_admits (Suc b) span lim H now n"
  moreover have "logged H (\<lambda>t. now < bucket_end (Suc b) t + span) \<le> logged H (\<lambda>t. now < t + span + Suc b)"
    using bucket_end_le [of "Suc b"] by (intro logged_mono) (simp add: less_le_trans add.commute add.left_commute)
  ultimately show "lim < n + logged H (\<lambda>t. now < t + span + Suc b)" by (simp add: window_admits_def)
qed

text \<open>The contract for a window of a well-formed plan.\<close>

lemma plan_window_contract:
  assumes "plan_wf p" and "w \<in> set (windows p)"
  shows "sliding_log
    (window_admits (unat (bucket_sizes p ! key_index w)) (unat (span_secs w)) (unat (limit w)))
    (unat (span_secs w)) (unat (limit w)) (unat (bucket_sizes p ! key_index w))"
proof -
  have "0 < unat (bucket_sizes p ! key_index w)"
    using assms by (auto simp: plan_wf_def)
  then obtain b where "unat (bucket_sizes p ! key_index w) = Suc b" by (metis gr0_implies_Suc)
  then show ?thesis using bucketed.sliding_log_axioms [of b] by simp
qed

lemma plan_admits_window:
  "plan_admits p H now n \<Longrightarrow> w \<in> set (windows p) \<Longrightarrow>
    window_admits (unat (bucket_sizes p ! key_index w)) (unat (span_secs w)) (unat (limit w)) H now n"
  by (simp add: plan_admits_def)

end
