(* ===== verification/Limiter_Correct.thy ===== *)
theory Limiter_Correct
  imports Limiter Sliding_Window
begin

text \<open>
  The script and \<open>check_sasl\<close> against the sliding-window contract: whatever server satisfies
  the laws of \<open>hash_server\<close>, the hashes represent the log of the accepted messages, a check
  decides as \<open>plan_admits\<close> does, and an accepted check extends the log.
\<close>

section \<open>How a hash represents a log\<close>

text \<open>A bucket that the last accepted message left in place.\<close>

definition live_bucket :: "nat \<Rightarrow> nat \<Rightarrow> log \<Rightarrow> nat \<Rightarrow> bool" where
  "live_bucket bs R H b \<longleftrightarrow>
     H \<noteq> [] \<and> fst (last H) < (b + 1) * bs + R \<and> b \<le> fst (last H) div bs"

text \<open>
  The hash at \<open>k\<close>, with buckets of \<open>bs\<close> seconds and a retention of \<open>R\<close> seconds, represents the
  log: every field is a live bucket with its total, every bucket that a window can still reach
  is a field, and the deadline covers the newest bucket.
\<close>

definition key_rep :: "('s \<Rightarrow> string \<Rightarrow> (string \<rightharpoonup> string)) \<Rightarrow> ('s \<Rightarrow> string \<Rightarrow> nat option) \<Rightarrow>
    ('s \<Rightarrow> nat) \<Rightarrow> ('s \<Rightarrow> string \<Rightarrow> bool) \<Rightarrow> log \<Rightarrow> 's \<Rightarrow> string \<times> nat \<times> nat \<Rightarrow> bool" where
  "key_rep hash deadline clock serves H s = (\<lambda>(k, bs, R).
     serves s k \<and>
     (\<forall>f v. hash s k f = Some v \<longrightarrow>
        (\<exists>b. f = show_nat b \<and> v = show_nat (logged H (\<lambda>t. t div bs = b)) \<and> live_bucket bs R H b)) \<and>
     (\<forall>(t, n) \<in> set H. clock s < bucket_end bs t + R \<longrightarrow> hash s k (show_nat (t div bs)) \<noteq> None) \<and>
     (hash s k \<noteq> Map.empty \<longrightarrow> deadline s k = Some (fst (last H) + (R + bs))))"

definition plan_keys :: "string \<Rightarrow> string \<Rightarrow> check_plan \<Rightarrow> (string \<times> nat \<times> nat) list" where
  "plan_keys key_prefix sasl_username p =
     map (\<lambda>(b, r). (bucket_key key_prefix (identity SASL_IDENTITY_KIND sasl_username) b, unat b, unat r))
       (zip (bucket_sizes p) (retention_secs p))"

text \<open>The state of the server represents the log \<open>H\<close> of one sender under the plan \<open>p\<close>.\<close>

definition sender_rep :: "('s \<Rightarrow> string \<Rightarrow> (string \<rightharpoonup> string)) \<Rightarrow> ('s \<Rightarrow> string \<Rightarrow> nat option) \<Rightarrow>
    ('s \<Rightarrow> nat) \<Rightarrow> ('s \<Rightarrow> string \<Rightarrow> bool) \<Rightarrow> string \<Rightarrow> string \<Rightarrow> check_plan \<Rightarrow> log \<Rightarrow> 's \<Rightarrow> bool" where
  "sender_rep hash deadline clock serves key_prefix sasl_username p H s \<longleftrightarrow>
     sorted (map fst H) \<and> (\<forall>(t, n) \<in> set H. t \<le> clock s) \<and>
     (\<forall>key \<in> set (plan_keys key_prefix sasl_username p). key_rep hash deadline clock serves H s key)"

section \<open>Lua's arithmetic on decimal entries\<close>

definition log_entries :: "log \<Rightarrow> nat \<Rightarrow> nat list \<Rightarrow> entry list" where
  "log_entries H bs bl = map (\<lambda>b. (Some (int b), Some (int (logged H (\<lambda>t. t div bs = b))))) bl"

fun min_opt :: "nat option \<Rightarrow> nat list \<Rightarrow> nat option" where
  "min_opt m [] = m"
| "min_opt None (b # bl) = min_opt (Some b) bl"
| "min_opt (Some m) (b # bl) = min_opt (Some (min b m)) bl"

lemma min_opt_Some:
  "\<exists>x. min_opt (Some m) bl = Some x \<and> x \<in> insert m (set bl) \<and> (\<forall>b \<in> insert m (set bl). x \<le> b)"
proof (induction bl arbitrary: m)
  case Nil
  then show ?case by simp
next
  case (Cons b bl)
  from Cons.IH [of "min b m"] show ?case by (fastforce simp: min_def split: if_splits)
qed

lemma min_opt_None:
  "bl \<noteq> [] \<Longrightarrow> \<exists>x. min_opt None bl = Some x \<and> x \<in> set bl \<and> (\<forall>b \<in> set bl. x \<le> b)"
  using min_opt_Some by (cases bl) auto

lemma parse_fields_decimal:
  "parse_fields (flat_pairs (map (\<lambda>b. (show_nat b, show_nat (c b))) bl)) (map_option int m) =
     Inr (map (\<lambda>b. (Some (int b), Some (int (c b)))) bl, map_option int (min_opt m bl))"
proof (induction bl arbitrary: m)
  case Nil
  then show ?case by simp
next
  case (Cons b bl)
  show ?case
  proof (cases m)
    case None
    then show ?thesis using Cons.IH [of "Some b"] by (simp add: decimal_simps)
  next
    case (Some a)
    have "next_min (Some (int a)) (Some (int b)) = Inr (map_option int (Some (min b a)))"
      by auto
    then show ?thesis using Some Cons.IH [of "Some (min b a)"] by (simp add: decimal_simps)
  qed
qed

text \<open>Over any entries with decimal ids and counts, and over those that represent a log.\<close>

lemma window_total_entries:
  "window_total (int bs) (int now - int span) (map (\<lambda>b. (Some (int b), Some (int (c b)))) bl) (int n) =
     Inr (int (n + sum_list (map c (filter (\<lambda>b. now < (b + 1) * bs + span) bl))))"
proof (induction bl arbitrary: n)
  case Nil
  then show ?case by simp
next
  case (Cons b bl)
  have "(int b + 1) * int bs > int now - int span \<longleftrightarrow> now < (b + 1) * bs + span"
    by (metis (mono_tags, lifting) diff_less_eq of_nat_1 of_nat_add of_nat_less_iff of_nat_mult)
  then show ?case
    using Cons.IH [of n] Cons.IH [of "n + c b"] by (simp add: add.assoc)
qed

lemma window_total_log_entries:
  "distinct bl \<Longrightarrow> window_total (int bs) (int now - int span) (log_entries H bs bl) (int n) =
     Inr (int (n + logged H (\<lambda>t. t div bs \<in> set (filter (\<lambda>b. now < (b + 1) * bs + span) bl))))"
  unfolding log_entries_def window_total_entries by (simp add: logged_buckets del: set_filter)

lemma stale_ids_entries:
  "stale_ids (int bs) (int now - int R) (map (\<lambda>b. (Some (int b), Some (int (c b)))) bl) =
     Inr (map int (filter (\<lambda>b. (b + 1) * bs + R \<le> now) bl))"
proof (induction bl)
  case Nil
  then show ?case by simp
next
  case (Cons b bl)
  have "(int b + 1) * int bs \<le> int now - int R \<longleftrightarrow> (b + 1) * bs + R \<le> now"
    by (metis (mono_tags, lifting) le_diff_eq of_nat_1 of_nat_add of_nat_le_iff of_nat_mult)
  with Cons show ?case by simp
qed

lemma stale_ids_log_entries:
  "stale_ids (int bs) (int now - int R) (log_entries H bs bl) =
     Inr (map int (filter (\<lambda>b. (b + 1) * bs + R \<le> now) bl))"
  unfolding log_entries_def by (rule stale_ids_entries)

text \<open>The live buckets of a key are few: at most two more than the retention spans.\<close>

lemma div_add_le: "0 < bs \<Longrightarrow> ((a::nat) + r) div bs \<le> a div bs + r div bs + 1"
proof -
  assume bs: "0 < bs"
  have "a < bs + (a div bs) * bs" and "r < bs + (r div bs) * bs"
    using bs by (auto intro: dividend_less_div_times)
  then have "a + r < (a div bs + r div bs + 2) * bs" by (simp add: algebra_simps)
  then have "(a + r) div bs < a div bs + r div bs + 2"
    using bs by (simp only: div_less_iff_less_mult)
  then show ?thesis by linarith
qed

lemma live_buckets_few:
  assumes "distinct bl" and "\<And>b. b \<in> set bl \<Longrightarrow> live_bucket bs R H b" and "0 < bs"
  shows "length bl \<le> R div bs + 2"
proof (cases bl)
  case Nil
  then show ?thesis by simp
next
  case (Cons b0 _)
  let ?T = "fst (last H)"
  have "set bl \<subseteq> {(?T - R) div bs .. ?T div bs}"
  proof
    fix b assume "b \<in> set bl"
    with assms(2) have b: "?T < (b + 1) * bs + R" "b \<le> ?T div bs"
      unfolding live_bucket_def by blast+
    have "(?T - R) div bs < b + 1"
    proof (cases "?T < R")
      case False
      with b(1) have "?T - R < (b + 1) * bs" by linarith
      then show ?thesis using assms(3) by (simp only: div_less_iff_less_mult)
    qed simp
    with b(2) show "b \<in> {(?T - R) div bs .. ?T div bs}" by simp
  qed
  then have "card (set bl) \<le> ?T div bs + 1 - (?T - R) div bs"
    using card_mono [of "{(?T - R) div bs .. ?T div bs}" "set bl"] by simp
  moreover have "?T div bs \<le> (?T - R) div bs + R div bs + 1"
  proof -
    have "?T div bs \<le> ((?T - R) + R) div bs" by (intro div_le_mono) simp
    then show ?thesis using div_add_le [OF assms(3), of "?T - R" R] by linarith
  qed
  ultimately show ?thesis using distinct_card [OF assms(1)] by linarith
qed

section \<open>One key on a server\<close>

lemma key_rep_cong:
  assumes "hash s' k = hash s k" "deadline s' k = deadline s k" "clock s' = clock s"
    "serves s' k = serves s k" "key_rep hash deadline clock serves H s (k, bs, R)"
  shows "key_rep hash deadline clock serves H s' (k, bs, R)"
  using assms by (auto simp: key_rep_def)

lemma logged_snoc_bucket:
  "logged (H @ [(t, n)]) (\<lambda>u. u div bs = b) = logged H (\<lambda>u. u div bs = b) + (if t div bs = b then n else 0)"
  by simp

text \<open>The entries that the script fetches for a key.\<close>

definition fetched :: "(string \<Rightarrow> (string \<rightharpoonup> string)) \<Rightarrow> log \<Rightarrow> string \<times> nat \<times> nat \<Rightarrow>
    entry list \<times> int option \<Rightarrow> bool" where
  "fetched m H = (\<lambda>(k, bs, R) em.
     \<exists>bl. em = (log_entries H bs bl, map_option int (min_opt None bl)) \<and> distinct bl \<and>
          dom (m k) = show_nat ` set bl \<and> length bl \<le> R div bs + 2)"

text \<open>How time passing between scripts leaves the representation intact.\<close>

lemma key_rep_idle:
  assumes idle: "idle hash deadline clock serves K s s'" and k: "k \<in> K"
    and past: "\<forall>(t, n) \<in> set H. t \<le> fst (last H)"
    and rep: "key_rep hash deadline clock serves H s (k, bs, R)"
  shows "key_rep hash deadline clock serves H s' (k, bs, R)"
proof -
  note I = idle [unfolded idle_def, THEN conjunct2, rule_format, OF k]
  have le: "clock s \<le> clock s'" using idle by (simp add: idle_def)
  have srv: "serves s k" using rep by (simp add: key_rep_def)
  from I [OF srv] consider (kept) "serves s' k" "hash s' k = hash s k" "deadline s' k = deadline s k"
    | (gone) d where "serves s' k" "deadline s k = Some d" "d \<le> clock s'" "hash s' k = Map.empty"
    by blast
  then show ?thesis
  proof cases
    case kept
    then show ?thesis using rep le by (fastforce simp: key_rep_def)
  next
    case gone
    have "\<not> clock s' < bucket_end bs t + R" if "(t, n) \<in> set H" for t n
    proof (cases "hash s k = Map.empty")
      case True
      then show ?thesis using rep le that by (fastforce simp: key_rep_def)
    next
      case False
      then have "fst (last H) + (R + bs) \<le> clock s'" using rep gone by (auto simp: key_rep_def)
      moreover have "t \<le> fst (last H)" using past that by auto
      ultimately show ?thesis using bucket_end_le [of bs t] by linarith
    qed
    then show ?thesis using gone by (auto simp: key_rep_def)
  qed
qed

context hash_server
begin

lemma hgetall_key:
  assumes rep: "key_rep hash deadline clock serves H s (k, bs, R)"
  obtains bl where "cmd_hgetall cmds s k =
      Inr (flat_pairs (map (\<lambda>b. (show_nat b, show_nat (logged H (\<lambda>t. t div bs = b)))) bl))"
    and "distinct bl" and "dom (hash s k) = show_nat ` set bl" and "\<And>b. b \<in> set bl \<Longrightarrow> live_bucket bs R H b"
proof -
  let ?c = "\<lambda>b. logged H (\<lambda>t. t div bs = b)"
  from rep have "serves s k" by (simp add: key_rep_def)
  from hgetall_law [OF this] obtain fvs where
    F: "cmd_hgetall cmds s k = Inr (flat_pairs fvs)" "distinct (map fst fvs)" "map_of fvs = hash s k"
    by blast
  have shape: "\<exists>b. f = show_nat b \<and> v = show_nat (?c b) \<and> live_bucket bs R H b" if "(f, v) \<in> set fvs" for f v
  proof -
    from that F(2,3) have "hash s k f = Some v" by (metis map_of_is_SomeI)
    with rep show ?thesis by (auto simp: key_rep_def)
  qed
  define bl where "bl = map (\<lambda>(f, v). the (parse_digits f)) fvs"
  have fvs: "fvs = map (\<lambda>b. (show_nat b, show_nat (?c b))) bl"
    unfolding bl_def map_map by (rule map_idI [symmetric]) (use shape in \<open>fastforce simp: decimal_simps\<close>)
  then have names: "map fst fvs = map show_nat bl" by (simp add: comp_def)
  have "distinct bl" using F(2) unfolding names by (simp add: distinct_map)
  moreover have "dom (hash s k) = show_nat ` set bl"
    using F(3) names by (metis dom_map_of_conv_image_fst list.set_map)
  moreover have "live_bucket bs R H b" if "b \<in> set bl" for b
  proof -
    have "(show_nat b, show_nat (?c b)) \<in> set fvs" using that fvs by auto
    from shape [OF this] show ?thesis by auto
  qed
  ultimately show thesis using that [of bl] F(1) fvs by metis
qed

lemma fetch_key:
  assumes rep: "key_rep hash deadline clock serves H s (k, bs, R)" and "0 < bs"
  shows "\<exists>fvs em. cmd_hgetall cmds s k = Inr fvs \<and> parse_fields fvs None = Inr em
    \<and> fetched (hash s) H (k, bs, R) em"
proof -
  let ?c = "\<lambda>b. logged H (\<lambda>t. t div bs = b)"
  obtain bl where bl: "cmd_hgetall cmds s k = Inr (flat_pairs (map (\<lambda>b. (show_nat b, show_nat (?c b))) bl))"
    "distinct bl" "dom (hash s k) = show_nat ` set bl" "\<And>b. b \<in> set bl \<Longrightarrow> live_bucket bs R H b"
    using hgetall_key [OF rep] by blast
  have "length bl \<le> R div bs + 2" using live_buckets_few [OF bl(2,4)] assms(2) by blast
  then show ?thesis
    using parse_fields_decimal [of ?c bl None] bl(1-3) by (auto simp: fetched_def log_entries_def)
qed

text \<open>The buckets that a window reaches are fields, so their sum is the window's part of the log.\<close>

lemma window_buckets_logged:
  assumes rep: "key_rep hash deadline clock serves H s (k, bs, R)" and "span \<le> R"
    and dom: "dom (hash s k) = show_nat ` set bl"
  shows "logged H (\<lambda>t. t div bs \<in> set (filter (\<lambda>b. clock s < (b + 1) * bs + span) bl))
    = logged H (\<lambda>t. clock s < bucket_end bs t + span)"
proof (rule logged_cong)
  fix t m assume tm: "(t, m) \<in> set H"
  have "t div bs \<in> set bl" if "clock s < bucket_end bs t + span"
  proof -
    have "hash s k (show_nat (t div bs)) \<noteq> None"
      using rep tm that assms(2) by (fastforce simp: key_rep_def)
    then have "show_nat (t div bs) \<in> show_nat ` set bl" using dom by blast
    then show ?thesis by auto
  qed
  then show "(t div bs \<in> set (filter (\<lambda>b. clock s < (b + 1) * bs + span) bl))
    = (clock s < bucket_end bs t + span)"
    by (auto simp: bucket_end_def)
qed

text \<open>The total that the script computes for a window that the key's retention covers.\<close>

lemma window_total_key:
  assumes rep: "key_rep hash deadline clock serves H s (k, bs, R)" and "0 < bs" and "span \<le> R"
    and em: "fetched (hash s) H (k, bs, R) (es, mi)"
  shows "window_total (int bs) (int (clock s) - int span) es (int n) =
    Inr (int (n + logged H (\<lambda>t. clock s < bucket_end bs t + span)))"
proof -
  from em obtain bl where bl: "es = log_entries H bs bl" "distinct bl" "dom (hash s k) = show_nat ` set bl"
    by (auto simp: fetched_def)
  with window_buckets_logged [OF rep assms(3) bl(3)] show ?thesis
    using window_total_log_entries [OF bl(2), of bs "clock s" span H n] by simp
qed

end

section \<open>Recording on one key\<close>

text \<open>The hash after recording: the current bucket incremented, the stale fields gone.\<close>

definition recorded_hash :: "nat \<Rightarrow> nat \<Rightarrow> nat \<Rightarrow> log \<Rightarrow> nat \<Rightarrow> (string \<rightharpoonup> string) \<Rightarrow> (string \<rightharpoonup> string)" where
  "recorded_hash bs R now H n m =
     (m(show_nat (now div bs) \<mapsto> show_nat (logged H (\<lambda>t. t div bs = now div bs) + n)))
       |` (- show_nat ` {b. show_nat b \<in> dom m \<and> (b + 1) * bs + R \<le> now})"

lemma recorded_hash_cases:
  assumes "recorded_hash bs R now H n m f = Some v" and "0 < bs"
  obtains "f = show_nat (now div bs)" "v = show_nat (logged H (\<lambda>t. t div bs = now div bs) + n)"
  | "m f = Some v" "f \<noteq> show_nat (now div bs)" "\<And>b. f = show_nat b \<Longrightarrow> now < (b + 1) * bs + R"
proof (cases "f = show_nat (now div bs)")
  case True
  then show thesis using assms(1) that(1) by (auto simp: recorded_hash_def restrict_map_def split: if_splits)
next
  case False
  then have "m f = Some v" "f \<notin> show_nat ` {b. show_nat b \<in> dom m \<and> (b + 1) * bs + R \<le> now}"
    using assms(1) by (auto simp: recorded_hash_def restrict_map_def split: if_splits)
  then show thesis using False that(2) by (metis (mono_tags, lifting) domI image_eqI mem_Collect_eq not_le)
qed

lemma recorded_hash_current:
  "0 < bs \<Longrightarrow> recorded_hash bs R now H n m (show_nat (now div bs)) \<noteq> None"
  using bucket_end_after [of bs now] by (auto simp: recorded_hash_def bucket_end_def)

lemma recorded_hash_kept:
  assumes "m (show_nat b) \<noteq> None" and "now < (b + 1) * bs + R"
  shows "recorded_hash bs R now H n m (show_nat b) \<noteq> None"
proof -
  have in_dom: "show_nat b \<in> - show_nat ` {b. show_nat b \<in> dom m \<and> (b + 1) * bs + R \<le> now}"
    using assms(2) by auto
  show ?thesis
    unfolding recorded_hash_def restrict_in [OF in_dom] using assms(1) by simp
qed

context hash_server
begin

lemma record_key_rep:
  assumes rep: "key_rep hash deadline clock serves H s (k, bs, R)" and bs: "0 < bs"
    and past: "\<forall>(t, n) \<in> set H. t \<le> clock s"
    and s': "hash s' k = recorded_hash bs R (clock s) H n (hash s k)"
      "deadline s' k = Some (clock s + (R + bs))" "clock s' = clock s" "serves s' k"
  shows "key_rep hash deadline clock serves (H @ [(clock s, n)]) s' (k, bs, R)"
proof -
  let ?H = "H @ [(clock s, n)]" and ?now = "clock s"
  have now: "?now < (?now div bs + 1) * bs" using bucket_end_after [OF bs] by (simp add: bucket_end_def)
  have fields: "\<exists>b. f = show_nat b \<and> v = show_nat (logged ?H (\<lambda>t. t div bs = b)) \<and> live_bucket bs R ?H b"
    if "hash s' k f = Some v" for f v
    using that unfolding s'(1)
  proof (rule recorded_hash_cases [OF _ bs])
    assume "f = show_nat (?now div bs)" "v = show_nat (logged H (\<lambda>t. t div bs = ?now div bs) + n)"
    then show ?thesis using now by (auto simp: live_bucket_def)
  next
    assume f: "hash s k f = Some v" "f \<noteq> show_nat (?now div bs)"
      "\<And>b. f = show_nat b \<Longrightarrow> ?now < (b + 1) * bs + R"
    have "\<forall>f v. hash s k f = Some v \<longrightarrow> (\<exists>b. f = show_nat b
        \<and> v = show_nat (logged H (\<lambda>t. t div bs = b)) \<and> live_bucket bs R H b)"
      using rep by (simp add: key_rep_def)
    then obtain b where b: "f = show_nat b" "v = show_nat (logged H (\<lambda>t. t div bs = b))"
      "live_bucket bs R H b" using f(1) by blast
    have "H \<noteq> []" using b(3) by (simp add: live_bucket_def)
    then have "fst (last H) \<le> ?now" using past last_in_set by fastforce
    then have "b \<le> ?now div bs" using b(3) div_le_mono [of "fst (last H)" ?now bs]
      by (simp add: live_bucket_def)
    then show ?thesis using b f by (auto simp: live_bucket_def)
  qed
  have reach: "hash s' k (show_nat (t div bs)) \<noteq> None"
    if "(t, m) \<in> set ?H" "?now < bucket_end bs t + R" for t m
  proof (cases "(t, m) \<in> set H")
    case True
    then have "hash s k (show_nat (t div bs)) \<noteq> None" using rep that(2) by (fastforce simp: key_rep_def)
    then show ?thesis using that(2) unfolding s'(1) bucket_end_def by (rule recorded_hash_kept)
  next
    case False
    then show ?thesis using that(1) recorded_hash_current [OF bs] by (simp add: s'(1))
  qed
  show ?thesis unfolding key_rep_def prod.case
  proof (intro conjI allI impI)
    show "\<forall>(t, m) \<in> set ?H. clock s' < bucket_end bs t + R \<longrightarrow> hash s' k (show_nat (t div bs)) \<noteq> None"
      unfolding s'(3) by (intro ballI case_prodI2 impI) (use reach in blast)
  qed (use fields s'(2,4) in \<open>simp_all\<close>)
qed

text \<open>
  The pruning branch of the script, on the state after HINCRBY and EXPIRE. It fails only when the
  stale fields are too many for \<open>unpack\<close>, and then deletes none.
\<close>

lemma prune_key:
  assumes es: "es = map (\<lambda>b. (Some (int b), Some (int (c b)))) bl" and mi: "mi = map_option int (min_opt None bl)"
    and dom: "dom m = show_nat ` set bl"
    and s: "serves s k" "hash s k = m(show_nat (now div bs) \<mapsto> v)" and bs: "0 < bs"
  shows "\<exists>r s'. (case mi of None \<Rightarrow> (Inr (), s)
      | Some min_id \<Rightarrow>
          if (min_id + 1) * int bs \<le> int now - int R
          then (case stale_ids (int bs) (int now - int R) es of
                  Inl e \<Rightarrow> (Inl e, s)
                | Inr stale \<Rightarrow>
                    (case lua_unpack stale of
                       Inl e \<Rightarrow> (Inl e, s)
                     | Inr ids \<Rightarrow>
                         (case cmd_hdel cmds s k (map show_int ids) of
                            Inl e \<Rightarrow> (Inl (Server_Error e), s)
                          | Inr s3 \<Rightarrow> (Inr (), s3))))
          else (Inr (), s)) = (r, s')
    \<and> (r = Inr () \<and> hash s' = (hash s)(k := hash s k |` (- show_nat ` {b. show_nat b \<in> dom m \<and> (b + 1) * bs + R \<le> now}))
       \<or> 8000 \<le> length bl \<and> r = Inl Unpack_Error \<and> hash s' = hash s)
    \<and> deadline s' = deadline s \<and> clock s' = clock s \<and> serves s' = serves s"
proof -
  let ?st = "filter (\<lambda>b. (b + 1) * bs + R \<le> now) bl"
  have stale_set: "{b. show_nat b \<in> dom m \<and> (b + 1) * bs + R \<le> now} = set ?st"
    unfolding dom by auto
  have guard: "(int b + 1) * int bs \<le> int now - int R \<longleftrightarrow> (b + 1) * bs + R \<le> now" for b
    by (metis (mono_tags, lifting) le_diff_eq of_nat_1 of_nat_add of_nat_le_iff of_nat_mult)
  have cur: "show_nat (now div bs) \<notin> show_nat ` set ?st"
    using bucket_end_after [OF bs, of now] by (auto simp: bucket_end_def)
  show ?thesis
  proof (cases "?st = []")
    case True
    then have "\<not> (b + 1) * bs + R \<le> now" if "b \<in> set bl" for b using that by (simp add: filter_empty_conv)
    then have skip: "mi = None \<or> (\<exists>b. mi = Some (int b) \<and> \<not> (int b + 1) * int bs \<le> int now - int R)"
      using min_opt_None [of bl] mi guard by (cases "bl = []") auto
    have "(hash s)(k := hash s k |` (- show_nat ` set ?st)) = hash s"
      unfolding True by (simp add: restrict_map_def)
    with skip show ?thesis unfolding stale_set by auto
  next
    case False
    then obtain b where b: "b \<in> set bl" "(b + 1) * bs + R \<le> now" by (auto simp: filter_empty_conv)
    then have "bl \<noteq> []" by auto
    then obtain x where x: "min_opt None bl = Some x" "x \<le> b" using min_opt_None b(1) by blast
    have "(x + 1) * bs \<le> (b + 1) * bs" using x(2) by (intro mult_right_mono) auto
    then have "(x + 1) * bs + R \<le> now" using b(2) by linarith
    then have go: "mi = Some (int x)" "(int x + 1) * int bs \<le> int now - int R"
      using x(1) mi guard by simp_all
    have ids: "map show_int (map int ?st) = map show_nat ?st" by simp
    from False have "map show_nat ?st \<noteq> []" by simp
    from hdel_law [OF s(1) this] obtain s3 where s3: "cmd_hdel cmds s k (map show_nat ?st) = Inr s3"
      "hash s3 = (hash s)(k := hash s k |` (- show_nat ` set ?st))"
      "hash s3 k \<noteq> Map.empty \<longrightarrow> deadline s3 = deadline s" "clock s3 = clock s" "serves s3 = serves s"
      unfolding set_map by blast
    have "hash s3 k (show_nat (now div bs)) \<noteq> None" using cur s(2) s3(2) by simp
    then have "hash s3 k \<noteq> Map.empty" by auto
    note s3 = s3(1,2,4,5) s3(3) [THEN mp, OF this]
    show ?thesis
    proof (cases "length ?st < 8000")
      case True
      then show ?thesis using s3
        unfolding stale_set go es stale_ids_entries using go(2) ids by (simp add: comp_def lua_unpack_def)
    next
      case False
      then have "8000 \<le> length bl" using length_filter_le [of "\<lambda>b. (b + 1) * bs + R \<le> now" bl] by linarith
      then show ?thesis using False
        unfolding stale_set go es stale_ids_entries using go(2) by (simp add: lua_unpack_def)
    qed
  qed
qed

text \<open>One key as a whole: HINCRBY, EXPIRE, pruning.\<close>

lemma record_key_effect:
  assumes srv: "serves s k" and bs: "0 < bs" and small: "R + bs < 2 ^ 53" "v + n < 2 ^ 32"
    and val: "hash s k (show_nat (clock s div bs)) = Some (show_nat v) \<or> hash s k (show_nat (clock s div bs)) = None \<and> v = 0"
    and dom: "dom (hash s k) = show_nat ` set bl"
  obtains r s' where "record_key cmds (int (clock s)) (int n) k (int bs) (Some (int R))
        (map (\<lambda>b. (Some (int b), Some (int (c b)))) bl, map_option int (min_opt None bl)) s = (r, s')"
    and "r = Inr () \<and> hash s' = (hash s)(k := (hash s k)(show_nat (clock s div bs) \<mapsto> show_nat (v + n))
           |` (- show_nat ` {b. show_nat b \<in> dom (hash s k) \<and> (b + 1) * bs + R \<le> clock s}))
       \<or> 8000 \<le> length bl \<and> r = Inl Unpack_Error
         \<and> hash s' = (hash s)(k := (hash s k)(show_nat (clock s div bs) \<mapsto> show_nat (v + n)))"
    and "deadline s' = (deadline s)(k := Some (clock s + (R + bs)))" and "clock s' = clock s" and "serves s' = serves s"
proof -
  let ?f = "show_nat (clock s div bs)"
  have "int (v + n) < int (2 ^ 32)" using small(2) by (simp only: of_nat_less_iff)
  then have sum: "int v + int n < 2 ^ 63" by simp
  have "hash s k ?f = Some (show_int (int v)) \<or> hash s k ?f = None \<and> int v = 0" using val by auto
  from hincrby_law [OF srv _ _ sum this] obtain s1 where
    s1: "cmd_hincrby cmds s k ?f (show_nat n) = Inr s1"
      "hash s1 = (hash s)(k := (hash s k)(?f \<mapsto> show_nat (v + n)))"
      "deadline s1 = deadline s" "clock s1 = clock s" "serves s1 = serves s"
    by (auto simp flip: of_nat_add)
  have "serves s1 k" "hash s1 k \<noteq> Map.empty" using srv s1(2,5) by (auto simp: fun_eq_iff)
  from expire_law [OF this, of "R + bs"] bs small(1) obtain s2 where
    s2: "cmd_expire cmds s1 k (show_int (int R + int bs)) = Inr s2" "hash s2 = hash s1"
      "deadline s2 = (deadline s1)(k := Some (clock s1 + (R + bs)))" "clock s2 = clock s1" "serves s2 = serves s1"
    by auto
  have "serves s2 k" "hash s2 k = (hash s k)(?f \<mapsto> show_nat (v + n))" using srv s1 s2 by auto
  from prune_key [OF refl refl dom this bs, where c = c and R = R] obtain r s' where
    run: "record_key cmds (int (clock s)) (int n) k (int bs) (Some (int R))
        (map (\<lambda>b. (Some (int b), Some (int (c b)))) bl, map_option int (min_opt None bl)) s = (r, s')"
    and effect: "r = Inr () \<and> hash s' = (hash s2)(k := hash s2 k |` (- show_nat ` {b. show_nat b \<in> dom (hash s k) \<and> (b + 1) * bs + R \<le> clock s}))
       \<or> 8000 \<le> length bl \<and> r = Inl Unpack_Error \<and> hash s' = hash s2"
    and kept: "deadline s' = deadline s2" "clock s' = clock s2" "serves s' = serves s2"
    unfolding record_key_def by (auto simp: s1(1) s2(1) zdiv_int [symmetric] simp del: not_le)
  show thesis
    by (rule that [OF run]) (use effect kept s1 s2 in simp_all)
qed

end

section \<open>All keys of a plan\<close>

text \<open>What recording needs to know of a key: its buckets are few and its numbers small.\<close>

definition recordable :: "log \<Rightarrow> nat \<Rightarrow> nat \<Rightarrow> string \<times> nat \<times> nat \<Rightarrow> bool" where
  "recordable H now n = (\<lambda>(k, bs, R). 0 < bs \<and> R div bs + 2 < 8000 \<and> R + bs < 2 ^ 53 \<and>
     logged H (\<lambda>t. t div bs = now div bs) + n < 2 ^ 32)"

text \<open>The effect of the recording phase on one key and on the rest of the server.\<close>

context hash_server
begin

lemma record_key_correct:
  assumes rep: "key_rep hash deadline clock serves H s (k, bs, R)" and bs: "0 < bs"
    and past: "\<forall>(t, n) \<in> set H. t \<le> clock s"
    and em: "fetched (hash s) H (k, bs, R) em" and few: "R div bs + 2 < 8000"
    and small: "logged H (\<lambda>t. t div bs = clock s div bs) + n < 2 ^ 32" "R + bs < 2 ^ 53"
  shows "\<exists>s'. record_key cmds (int (clock s)) (int n) k (int bs) (Some (int R)) em s = (Inr (), s')
    \<and> key_rep hash deadline clock serves (H @ [(clock s, n)]) s' (k, bs, R)
    \<and> clock s' = clock s \<and> serves s' = serves s
    \<and> (\<forall>k'. k' \<noteq> k \<longrightarrow> hash s' k' = hash s k' \<and> deadline s' k' = deadline s k')"
proof -
  let ?b = "clock s div bs" and ?f = "show_nat (clock s div bs)"
  let ?v = "logged H (\<lambda>t. t div bs = ?b)"
  have srv: "serves s k" using rep by (simp add: key_rep_def)
  have val: "hash s k ?f = Some (show_int (int ?v)) \<or> hash s k ?f = None \<and> int ?v = 0"
  proof (cases "hash s k ?f")
    case None
    have "\<not> t div bs = ?b" if "(t, m) \<in> set H" for t m
    proof
      assume eq: "t div bs = ?b"
      then have "clock s < bucket_end bs t + R"
        using bucket_end_after [OF bs, of "clock s"] by (simp add: bucket_end_def)
      then show False using rep that None eq by (fastforce simp: key_rep_def)
    qed
    then have "?v = 0" by (rule logged_none)
    with None show ?thesis by simp
  next
    case (Some v)
    then show ?thesis using rep by (fastforce simp: key_rep_def)
  qed
  have val': "hash s k ?f = Some (show_nat ?v) \<or> hash s k ?f = None \<and> ?v = 0" using val by auto
  obtain bl where bl: "em = (log_entries H bs bl, map_option int (min_opt None bl))"
    "dom (hash s k) = show_nat ` set bl" "length bl \<le> R div bs + 2"
    using em by (auto simp: fetched_def)
  obtain r s' where
    s': "record_key cmds (int (clock s)) (int n) k (int bs) (Some (int R)) em s = (r, s')"
      "r = Inr () \<and> hash s' = (hash s)(k := (hash s k)(?f \<mapsto> show_nat (?v + n))
         |` (- show_nat ` {b. show_nat b \<in> dom (hash s k) \<and> (b + 1) * bs + R \<le> clock s}))
       \<or> 8000 \<le> length bl \<and> r = Inl Unpack_Error \<and> hash s' = (hash s)(k := (hash s k)(?f \<mapsto> show_nat (?v + n)))"
      "deadline s' = (deadline s)(k := Some (clock s + (R + bs)))" "clock s' = clock s" "serves s' = serves s"
    using record_key_effect [OF srv bs small(2,1) val' bl(2), of "\<lambda>b. logged H (\<lambda>t. t div bs = b)"]
    unfolding bl(1) log_entries_def by blast
  have ok: "r = Inr ()" "hash s' = (hash s)(k := recorded_hash bs R (clock s) H n (hash s k))"
    using s'(2) bl(3) few by (auto simp: recorded_hash_def)
  have "key_rep hash deadline clock serves (H @ [(clock s, n)]) s' (k, bs, R)"
    by (rule record_key_rep [OF rep bs past]) (use s'(3-5) ok srv in simp_all)
  with s' ok show ?thesis by auto
qed

lemma record_keys_correct:
  assumes "list_all2 (fetched (hash s) H) kl ems"
    and "\<forall>key \<in> set kl. key_rep hash deadline clock serves H s key \<and> recordable H (clock s) n key"
    and "distinct (map fst kl)" and "\<forall>(t, n) \<in> set H. t \<le> clock s"
  shows "\<exists>s'. record_keys cmds (int (clock s)) (int n) (map fst kl) (map (\<lambda>(k, bs, R). int bs) kl)
        (map (\<lambda>(k, bs, R). int R) kl) ems s = (Inr (), s')
    \<and> (\<forall>key \<in> set kl. key_rep hash deadline clock serves (H @ [(clock s, n)]) s' key)
    \<and> clock s' = clock s \<and> serves s' = serves s
    \<and> (\<forall>k. k \<notin> fst ` set kl \<longrightarrow> hash s' k = hash s k \<and> deadline s' k = deadline s k)"
  using assms
proof (induction kl arbitrary: ems s)
  case Nil
  then show ?case by simp
next
  case (Cons key kl)
  obtain k bs R where key: "key = (k, bs, R)" by (cases key)
  from Cons.prems(1) obtain em ems' where ems: "ems = em # ems'"
    and fetched: "fetched (hash s) H (k, bs, R) em" "list_all2 (fetched (hash s) H) kl ems'"
    by (auto simp: list_all2_Cons1 key)
  from Cons.prems(2) have rep: "key_rep hash deadline clock serves H s (k, bs, R)"
    and rec: "0 < bs" "R div bs + 2 < 8000" "logged H (\<lambda>t. t div bs = clock s div bs) + n < 2 ^ 32"
      "R + bs < 2 ^ 53" by (auto simp: key recordable_def)
  from record_key_correct [OF rep rec(1) Cons.prems(4) fetched(1) rec(2,3,4)]
  obtain s1 where s1: "record_key cmds (int (clock s)) (int n) k (int bs) (Some (int R)) em s = (Inr (), s1)"
    "key_rep hash deadline clock serves (H @ [(clock s, n)]) s1 (k, bs, R)"
    "clock s1 = clock s" "serves s1 = serves s"
    "\<forall>k'. k' \<noteq> k \<longrightarrow> hash s1 k' = hash s k' \<and> deadline s1 k' = deadline s k'"
    by blast
  have other: "fst key' \<noteq> k" if "key' \<in> set kl" for key'
    using Cons.prems(3) that by (auto simp: key)
  have fetched1: "list_all2 (fetched (hash s1) H) kl ems'"
    using fetched(2)
  proof (rule list.rel_mono_strong)
    fix key' em' assume "key' \<in> set kl" "fetched (hash s) H key' em'"
    then show "fetched (hash s1) H key' em'"
      using other [of key'] s1(5) by (cases key') (auto simp: fetched_def)
  qed
  have rep1: "key_rep hash deadline clock serves H s1 key' \<and> recordable H (clock s1) n key'"
    if "key' \<in> set kl" for key'
    using Cons.prems(2) that other [OF that] s1(3-5) key_rep_cong [of hash s1 "fst key'" s deadline clock serves H]
    by (cases key') auto
  from Cons.IH [OF fetched1] rep1 Cons.prems(3,4) s1(3)
  obtain s2 where s2: "record_keys cmds (int (clock s1)) (int n) (map fst kl) (map (\<lambda>(k, bs, R). int bs) kl)
        (map (\<lambda>(k, bs, R). int R) kl) ems' s1 = (Inr (), s2)"
    "\<forall>key \<in> set kl. key_rep hash deadline clock serves (H @ [(clock s1, n)]) s2 key"
    "clock s2 = clock s1" "serves s2 = serves s1"
    "\<forall>k. k \<notin> fst ` set kl \<longrightarrow> hash s2 k = hash s1 k \<and> deadline s2 k = deadline s1 k"
    by auto
  have "k \<notin> fst ` set kl" using other by auto
  then have "key_rep hash deadline clock serves (H @ [(clock s, n)]) s2 (k, bs, R)"
    using key_rep_cong [OF _ _ _ _ s1(2), of s2] s2(3-5) by simp
  with s1 s2 show ?case by (auto simp: key ems)
qed

end

section \<open>The script decides as the plan does\<close>

abbreviation sender_key :: "string \<Rightarrow> string \<Rightarrow> u64 \<Rightarrow> string" where
  "sender_key key_prefix sasl_username \<equiv> bucket_key key_prefix (identity SASL_IDENTITY_KIND sasl_username)"

lemma int_gt_uint: "uint w < int x \<longleftrightarrow> \<not> x \<le> unat w"
  by (metis not_le of_nat_less_iff uint_nat)

lemma lua_index_Suc: "lua_index xs (int i + 1) = nth_opt xs i"
  by (simp add: lua_index_def)

lemma plan_keys_arrays:
  assumes "plan_wf p"
  shows "map fst (plan_keys pre u p) = map (sender_key pre u) (bucket_sizes p)"
    and "map (\<lambda>(k, bs, R). int bs) (plan_keys pre u p) = map uint (bucket_sizes p)"
    and "map (\<lambda>(k, bs, R). int R) (plan_keys pre u p) = map uint (retention_secs p)"
    and "length (plan_keys pre u p) = length (bucket_sizes p)"
  using assms
  by (auto simp: plan_keys_def plan_wf_def intro!: nth_equalityI)

lemma plan_keys_nth:
  assumes "plan_wf p" and "i < length (bucket_sizes p)"
  shows "plan_keys pre u p ! i =
    (sender_key pre u (bucket_sizes p ! i), unat (bucket_sizes p ! i), unat (retention_secs p ! i))"
  using assms by (auto simp: plan_keys_def plan_wf_def)

lemma plan_keys_distinct: "plan_wf p \<Longrightarrow> distinct (map fst (plan_keys pre u p))"
  unfolding plan_keys_arrays by (auto simp: plan_wf_def distinct_map inj_on_def dest: bucket_key_inj_ident)

lemma plan_wf_window:
  assumes "plan_wf p" and "w \<in> set (windows p)"
  shows "key_index w < length (bucket_sizes p)"
    and "unat (span_secs w) \<le> unat (retention_secs p ! key_index w)"
  using assms by (auto simp: plan_wf_def word_le_nat_alt)

text \<open>Every key of a plan has a window that spans its whole retention.\<close>

lemma plan_key_window:
  assumes "plan_wf p" and "(k, bs, R) \<in> set (plan_keys pre u p)"
  obtains w where "w \<in> set (windows p)" "bs = unat (bucket_sizes p ! key_index w)" "R = unat (span_secs w)"
    and "0 < bs" and "k = sender_key pre u (bucket_sizes p ! key_index w)"
proof -
  from assms(2) obtain i where i: "i < length (bucket_sizes p)" "plan_keys pre u p ! i = (k, bs, R)"
    using plan_keys_arrays(4) [OF assms(1)] by (metis in_set_conv_nth)
  with plan_keys_nth [OF assms(1) i(1), of pre u]
  have "bs = unat (bucket_sizes p ! i)" "R = unat (retention_secs p ! i)" "k = sender_key pre u (bucket_sizes p ! i)"
    by auto
  moreover obtain w where "w \<in> set (windows p)" "key_index w = i" "span_secs w = retention_secs p ! i"
    using assms(1) i(1) unfolding plan_wf_def by blast
  moreover have "0 < unat (bucket_sizes p ! i)"
    using assms(1) i(1) by (auto simp: plan_wf_def)
  ultimately show thesis using that by metis
qed

lemma plan_fine_window:
  assumes "plan_fine p" and "w \<in> set (windows p)"
  shows "unat (span_secs w) < 100 * unat (bucket_sizes p ! key_index w)"
    and "unat (bucket_sizes p ! key_index w) * 50 \<le> unat (span_secs w)"
    and "unat (bucket_sizes p ! key_index w) \<le> 32768" and "unat (span_secs w) \<le> 31 * 86400"
  using assms bucket_secs_coarse [of "from_secs (span_secs w)"] bucket_secs_fraction [of "from_secs (span_secs w)"]
  by (auto simp: plan_fine_def from_secs_def)

text \<open>All numbers of a plan are small, so that the check request survives the decoder's doubles.\<close>

lemma plan_numbers_small:
  assumes wf: "plan_wf p" and fine: "plan_fine p"
  shows "\<And>x. x \<in> set (bucket_sizes p) \<Longrightarrow> uint x \<le> 32768"
    and "\<And>x. x \<in> set (retention_secs p) \<Longrightarrow> uint x \<le> 31 * 86400"
    and "length (bucket_sizes p) \<le> 32769"
proof -
  have sizes: "uint x \<le> 32768" if "x \<in> set (bucket_sizes p)" for x
  proof -
    from that obtain i where "i < length (bucket_sizes p)" "bucket_sizes p ! i = x" by (auto simp: in_set_conv_nth)
    then obtain w where "w \<in> set (windows p)" "bucket_sizes p ! key_index w = x" using wf by (auto simp: plan_wf_def)
    then have "unat x \<le> 32768" using plan_fine_window(3) [OF fine] by blast
    from uint_le_of_unat [OF this] show ?thesis by simp
  qed
  show "uint x \<le> 32768" if "x \<in> set (bucket_sizes p)" for x by (rule sizes [OF that])
  show "uint x \<le> 31 * 86400" if "x \<in> set (retention_secs p)" for x
  proof -
    from that obtain i where "i < length (bucket_sizes p)" "retention_secs p ! i = x"
      using wf by (auto simp: in_set_conv_nth plan_wf_def)
    then obtain w where "w \<in> set (windows p)" "span_secs w = x" using wf by (auto simp: plan_wf_def)
    then have "unat x \<le> 31 * 86400" using plan_fine_window(4) [OF fine] by blast
    from uint_le_of_unat [OF this] show ?thesis by simp
  qed
  have "distinct (map uint (bucket_sizes p))" using wf by (auto simp: plan_wf_def distinct_map inj_on_def word_uint_eq_iff)
  then have "length (map uint (bucket_sizes p)) = card (set (map uint (bucket_sizes p)))"
    by (rule distinct_card [symmetric])
  also have "\<dots> \<le> card {0 .. 32768 :: int}" using sizes by (intro card_mono) auto
  finally show "length (bucket_sizes p) \<le> 32769" by simp
qed

lemma check_request_reads:
  assumes codec: "codec_ok codec" and wf: "plan_wf p" and fine: "plan_fine p"
  shows "of_text codec (to_text codec (check_request_json n None p)) = Some (check_request_json n None p)"
proof (rule codec_okD [OF codec])
  note small = plan_numbers_small [OF wf fine]
  have "uint n < 2 ^ 32" using uint_bounded [of n] by simp
  moreover have "json_fits (\<lambda>i. \<bar>i\<bar> \<le> 2 ^ 53) (window_json w)" if w: "w \<in> set (windows p)" for w
  proof -
    have "key_index w < 32769" using wf w small(3) by (auto simp: plan_wf_def)
    moreover have "uint (span_secs w) \<le> int (31 * 86400)" by (rule uint_le_of_unat [OF plan_fine_window(4) [OF fine w]])
    moreover have "uint (limit w) < 2 ^ 32" using uint_bounded [of "limit w"] by simp
    ultimately show ?thesis by (simp add: window_json_def)
  qed
  moreover have "uint x \<le> 2 ^ 53" if "x \<in> set (bucket_sizes p)" for x using small(1) [OF that] by simp
  moreover have "uint x \<le> 2 ^ 53" if "x \<in> set (retention_secs p)" for x using small(2) [OF that] by simp
  ultimately show "json_fits (\<lambda>i. \<bar>i\<bar> \<le> 2 ^ 53) (check_request_json n None p)"
    by (simp add: check_request_json_def plan_json_def)
qed

lemma recordable_plan_key:
  assumes "plan_wf p" and "plan_fine p" and "plan_admits p H now (unat (n :: u32))"
    and key: "(k, bs, R) \<in> set (plan_keys pre u p)"
  shows "recordable H now (unat n) (k, bs, R)"
proof -
  obtain w where w: "w \<in> set (windows p)" "bs = unat (bucket_sizes p ! key_index w)"
    "R = unat (span_secs w)" "0 < bs"
    using plan_key_window [OF assms(1) key] by blast
  note fine = plan_fine_window [OF assms(2) w(1), folded w(2,3)]
  have "R div bs < 100" using fine(1) w(4) by (simp add: div_less_iff_less_mult)
  moreover have "logged H (\<lambda>t. t div bs = now div bs) + unat n < 2 ^ 32"
  proof -
    have "window_admits bs R (unat (limit w)) H now (unat n)"
      using assms(3) w by (simp add: plan_admits_def)
    moreover have "logged H (\<lambda>t. t div bs = now div bs) \<le> logged H (\<lambda>t. now < bucket_end bs t + R)"
      using bucket_end_after [OF w(4), of now] by (intro logged_mono) (simp add: bucket_end_def)
    moreover have "unat (limit w) < 2 ^ 32" using unsigned_less [of "limit w", where ?'a = nat] by simp
    ultimately show ?thesis by (simp add: window_admits_def)
  qed
  moreover have "R + bs < 2 ^ 53" using fine(3,4) by simp
  ultimately show ?thesis using w(4) by (simp add: recordable_def)
qed

context hash_server
begin

lemma fetch_all:
  assumes "\<forall>(k, bs, R) \<in> set kl. key_rep hash deadline clock serves H s (k, bs, R) \<and> 0 < bs"
  shows "\<exists>ems. fetch_buckets cmds s (map fst kl) (map (\<lambda>(k, bs, R). int bs) kl) = Inr ems
    \<and> list_all2 (fetched (hash s) H) kl ems"
  using assms
proof (induction kl)
  case Nil
  then show ?case by simp
next
  case (Cons key kl)
  obtain k bs R where key: "key = (k, bs, R)" by (cases key)
  then have "key_rep hash deadline clock serves H s (k, bs, R)" "0 < bs" using Cons.prems by auto
  from fetch_key [OF this] obtain fvs em where "cmd_hgetall cmds s k = Inr fvs"
    "parse_fields fvs None = Inr em" "fetched (hash s) H (k, bs, R) em" by blast
  moreover from Cons obtain ems where
    "fetch_buckets cmds s (map fst kl) (map (\<lambda>(k, bs, R). int bs) kl) = Inr ems"
    "list_all2 (fetched (hash s) H) kl ems" by auto
  ultimately show ?case by (auto simp: key)
qed

lemma check_windows_correct:
  assumes "list_all2 (fetched (hash s) H) kl ems"
    and "\<forall>(k, bs, R) \<in> set kl. key_rep hash deadline clock serves H s (k, bs, R) \<and> 0 < bs"
    and "\<forall>w \<in> set ws. key_index w < length kl \<and> unat (span_secs w) \<le> snd (snd (kl ! key_index w))"
  shows "check_windows (int (clock s)) (int n) (map (\<lambda>(k, bs, R). int bs) kl) ems (map lua_window_of ws)
    = Inr (\<forall>w \<in> set ws. window_admits (fst (snd (kl ! key_index w))) (unat (span_secs w)) (unat (limit w)) H (clock s) n)"
  using assms(3)
proof (induction ws)
  case Nil
  then show ?case by simp
next
  case (Cons w ws)
  let ?i = "key_index w"
  obtain k bs R where key: "kl ! ?i = (k, bs, R)" by (cases "kl ! ?i")
  from Cons.prems have i: "?i < length kl" "unat (span_secs w) \<le> R" by (auto simp: key)
  obtain es mi where em: "ems ! ?i = (es, mi)" by (cases "ems ! ?i")
  have len: "length ems = length kl" using list_all2_lengthD [OF assms(1)] by simp
  have "fetched (hash s) H (k, bs, R) (es, mi)"
    using list_all2_nthD [OF assms(1) i(1)] by (simp add: key em)
  moreover have "key_rep hash deadline clock serves H s (k, bs, R)" "0 < bs"
    using assms(2) nth_mem [OF i(1)] by (auto simp: key)
  ultimately have tot: "window_total (int bs) (int (clock s) - int (unat (span_secs w))) es (int n)
    = Inr (int (n + logged H (\<lambda>t. clock s < bucket_end bs t + unat (span_secs w))))"
    using window_total_key i(2) by blast
  have IH: "check_windows (int (clock s)) (int n) (map (\<lambda>(k, bs, R). int bs) kl) ems (map lua_window_of ws)
    = Inr (\<forall>w \<in> set ws. window_admits (fst (snd (kl ! key_index w))) (unat (span_secs w)) (unat (limit w)) H (clock s) n)"
    using Cons by simp
  show ?case
    using i(1) len tot IH
    by (simp add: lua_index_Suc key em window_admits_def int_gt_uint del: of_nat_add)
qed

text \<open>The script on a server that represents the sender's log.\<close>

lemma check_and_record_correct:
  assumes wf: "plan_wf p" and fine: "plan_fine p" and codec: "codec_ok codec"
    and rep: "sender_rep hash deadline clock serves pre u p H s"
  shows "\<exists>s'. check_and_record cmds codec (map (sender_key pre u) (bucket_sizes p))
        (to_text codec (check_request_json n None p)) s
      = (Inr (if plan_admits p H (clock s) (unat n) then 1 else 0), s')
    \<and> sender_rep hash deadline clock serves pre u p
        (if plan_admits p H (clock s) (unat n) then H @ [(clock s, unat n)] else H) s'
    \<and> (\<not> plan_admits p H (clock s) (unat n) \<longrightarrow> s' = s)
    \<and> clock s' = clock s \<and> serves s' = serves s
    \<and> (\<forall>k. k \<notin> sender_key pre u ` set (bucket_sizes p) \<longrightarrow> hash s' k = hash s k \<and> deadline s' k = deadline s k)"
proof -
  let ?kl = "plan_keys pre u p"
  note arrays = plan_keys_arrays [OF wf, of pre u]
  have keys: "\<forall>(k, bs, R) \<in> set ?kl. key_rep hash deadline clock serves H s (k, bs, R) \<and> 0 < bs"
  proof -
    have "0 < bs" if "(k, bs, R) \<in> set ?kl" for k bs R
      using plan_key_window [OF wf that] by blast
    then show ?thesis using rep by (auto simp: sender_rep_def)
  qed
  obtain ems where ems: "fetch_buckets cmds s (map fst ?kl) (map (\<lambda>(k, bs, R). int bs) ?kl) = Inr ems"
    "list_all2 (fetched (hash s) H) ?kl ems" using fetch_all [OF keys] by blast
  obtain us where "cmd_time cmds s = Inr [show_nat (clock s), us]" using time_law by blast
  then have now: "server_now cmds s = Inr (int (clock s))" by (simp add: decimal_simps)
  have window_key: "?kl ! key_index w = (sender_key pre u (bucket_sizes p ! key_index w),
      unat (bucket_sizes p ! key_index w), unat (retention_secs p ! key_index w))"
    if "w \<in> set (windows p)" for w
    using plan_keys_nth [OF wf plan_wf_window(1) [OF wf that]] .
  have decide: "check_windows (int (clock s)) (uint n) (map uint (bucket_sizes p)) ems (map lua_window_of (windows p))
    = Inr (plan_admits p H (clock s) (unat n))"
  proof -
    have "\<forall>w \<in> set (windows p). key_index w < length ?kl \<and> unat (span_secs w) \<le> snd (snd (?kl ! key_index w))"
      by (simp add: arrays(4) window_key plan_wf_window [OF wf])
    from check_windows_correct [OF ems(2) keys this, of "unat n"]
    have "check_windows (int (clock s)) (uint n) (map uint (bucket_sizes p)) ems (map lua_window_of (windows p))
      = Inr (\<forall>w \<in> set (windows p). window_admits (fst (snd (?kl ! key_index w))) (unat (span_secs w)) (unat (limit w)) H (clock s) (unat n))"
      by (simp add: arrays(2))
    then show ?thesis
      by (simp add: plan_admits_def window_key)
  qed
  note run = check_and_record_def check_request_reads [OF codec wf fine] decode_check_request
  show ?thesis
  proof (cases "plan_admits p H (clock s) (unat n)")
    case False
    then show ?thesis
      using ems(1) now decide rep by (simp add: run arrays del: server_now.simps)
  next
    case True
    have past: "\<forall>(t, n) \<in> set H. t \<le> clock s" using rep by (simp add: sender_rep_def)
    have "\<forall>key \<in> set ?kl. key_rep hash deadline clock serves H s key \<and> recordable H (clock s) (unat n) key"
      using keys recordable_plan_key [OF wf fine True] by auto
    from record_keys_correct [OF ems(2) this plan_keys_distinct [OF wf] past] obtain s' where
      s': "record_keys cmds (int (clock s)) (int (unat n)) (map fst ?kl) (map (\<lambda>(k, bs, R). int bs) ?kl)
          (map (\<lambda>(k, bs, R). int R) ?kl) ems s = (Inr (), s')"
        "\<forall>key \<in> set ?kl. key_rep hash deadline clock serves (H @ [(clock s, unat n)]) s' key"
        "clock s' = clock s" "serves s' = serves s"
        "\<forall>k. k \<notin> fst ` set ?kl \<longrightarrow> hash s' k = hash s k \<and> deadline s' k = deadline s k" by blast
    have "sorted (map fst (H @ [(clock s, unat n)]))"
      using rep past by (auto simp: sender_rep_def sorted_append)
    then have "sender_rep hash deadline clock serves pre u p (H @ [(clock s, unat n)]) s'"
      using s'(2,3) past by (auto simp: sender_rep_def)
    moreover have "fst ` set ?kl = sender_key pre u ` set (bucket_sizes p)"
      using arrays(1) by (metis list.set_map)
    ultimately show ?thesis
      using True ems(1) now decide s'
      by (simp add: run arrays del: server_now.simps)
  qed
qed

end

section \<open>Senders\<close>

lemma SASL_IDENTITY_KIND_no_colon: "CHR '':'' \<notin> set SASL_IDENTITY_KIND"
  by (simp add: SASL_IDENTITY_KIND_def)

lemma sender_key_inj: "sender_key pre u b = sender_key pre v c \<Longrightarrow> u = v \<and> b = c"
  using bucket_key_inj_ident identity_inj by (metis SASL_IDENTITY_KIND_no_colon)

context hash_server
begin

lemma sender_rep_cong:
  assumes wf: "plan_wf p" and rep: "sender_rep hash deadline clock serves pre u p H s"
    and same: "\<forall>b \<in> set (bucket_sizes p). hash s' (sender_key pre u b) = hash s (sender_key pre u b)
      \<and> deadline s' (sender_key pre u b) = deadline s (sender_key pre u b)"
    and "clock s' = clock s" "serves s' = serves s"
  shows "sender_rep hash deadline clock serves pre u p H s'"
proof -
  have "key_rep hash deadline clock serves H s' (k, bs, R)" if "(k, bs, R) \<in> set (plan_keys pre u p)" for k bs R
  proof (rule key_rep_cong)
    have "k \<in> sender_key pre u ` set (bucket_sizes p)"
      using that plan_keys_arrays(1) [OF wf, of pre u] by (metis fst_conv image_eqI list.set_map)
    then show "hash s' k = hash s k" "deadline s' k = deadline s k" using same by auto
    show "key_rep hash deadline clock serves H s (k, bs, R)" using rep that by (simp add: sender_rep_def)
  qed (use assms in simp_all)
  then show ?thesis using rep assms(4) by (auto simp: sender_rep_def)
qed

lemma sender_rep_idle:
  assumes idle: "idle hash deadline clock serves K s s'"
    and K: "fst ` set (plan_keys pre u p) \<subseteq> K"
    and rep: "sender_rep hash deadline clock serves pre u p H s"
  shows "sender_rep hash deadline clock serves pre u p H s'"
proof -
  have le: "clock s \<le> clock s'" using idle by (simp add: idle_def)
  have past: "\<forall>(t, n) \<in> set H. t \<le> fst (last H)"
  proof (cases H rule: rev_cases)
    case (snoc H' e)
    then show ?thesis using rep by (auto simp: sender_rep_def sorted_append)
  qed simp
  have "key_rep hash deadline clock serves H s' (k, bs, R)" if "(k, bs, R) \<in> set (plan_keys pre u p)" for k bs R
    using key_rep_idle [OF idle _ past] K rep that by (force simp: sender_rep_def)
  then show ?thesis using rep le by (fastforce simp: sender_rep_def)
qed

lemma check_sasl_correct:
  assumes wf: "plan_wf p" and fine: "plan_fine p" and codec: "codec_ok codec"
    and rep: "sender_rep hash deadline clock serves pre u p H s"
  shows "\<exists>s'. check_sasl cmds codec Delivered pre u n p None s
      = (Inr (plan_admits p H (clock s) (unat n)), s')
    \<and> sender_rep hash deadline clock serves pre u p
        (if plan_admits p H (clock s) (unat n) then H @ [(clock s, unat n)] else H) s'
    \<and> (\<not> plan_admits p H (clock s) (unat n) \<longrightarrow> s' = s)
    \<and> clock s' = clock s \<and> serves s' = serves s
    \<and> (\<forall>k. k \<notin> sender_key pre u ` set (bucket_sizes p) \<longrightarrow> hash s' k = hash s k \<and> deadline s' k = deadline s k)"
proof (cases "bucket_sizes p = []")
  case True
  then have "windows p = []" using wf by (cases "windows p") (auto simp: plan_wf_def)
  then have "plan_admits p H (clock s) (unat n)" by (simp add: plan_admits_def)
  moreover have "sender_rep hash deadline clock serves pre u p (H @ [(clock s, unat n)]) s"
    using rep True by (auto simp: sender_rep_def plan_keys_def sorted_append)
  ultimately show ?thesis using True by (simp add: check_sasl_def)
next
  case False
  then show ?thesis
    using check_and_record_correct [OF wf fine codec rep, of n] by (auto simp: check_sasl_def Let_def split: if_splits)
qed

text \<open>A check of one sender leaves every other sender's log alone.\<close>

lemma check_sasl_frame:
  assumes wf: "plan_wf p" "plan_wf q" and fine: "plan_fine p" and codec: "codec_ok codec" and "u \<noteq> v"
    and rep: "sender_rep hash deadline clock serves pre u p H s"
    and rep': "sender_rep hash deadline clock serves pre v q H' s"
    and check: "check_sasl cmds codec Delivered pre u n p None s = (r, s')"
  shows "sender_rep hash deadline clock serves pre v q H' s'"
proof -
  from check_sasl_correct [OF wf(1) fine codec rep, of n] check
  have same: "clock s' = clock s" "serves s' = serves s"
    "\<forall>k. k \<notin> sender_key pre u ` set (bucket_sizes p) \<longrightarrow> hash s' k = hash s k \<and> deadline s' k = deadline s k"
    by auto
  have other: "sender_key pre v b \<notin> sender_key pre u ` set (bucket_sizes p)" for b
    using assms(5) by (auto dest: sender_key_inj)
  show ?thesis
    by (rule sender_rep_cong [OF wf(2) rep' _ same(1,2)]) (use same(3) other in simp)
qed

end

text \<open>A server on which a sender has no keys represents the empty log.\<close>

lemma sender_rep_fresh:
  assumes "\<forall>b \<in> set (bucket_sizes p). serves s (sender_key pre u b) \<and> hash s (sender_key pre u b) = Map.empty"
    and "plan_wf p"
  shows "sender_rep hash deadline clock serves pre u p [] s"
proof -
  have "serves s k \<and> hash s k = Map.empty" if "(k, bs, R) \<in> set (plan_keys pre u p)" for k bs R
    using that assms plan_keys_arrays(1) [OF assms(2), of pre u]
    by (metis (no_types, lifting) fst_conv image_iff list.set_map)
  then show ?thesis by (auto simp: sender_rep_def key_rep_def)
qed

end
