(* ===== verification/Script_Doubles.thy ===== *)
theory Script_Doubles
  imports Limiter_Correct "HOL-Library.Log_Nat"
begin

text \<open>
  Lua 5.1 has no integers: every number of \<open>lua/check_and_record.lua\<close> is an IEEE double, and every
  operation rounds. Here the script is given once more, with the rounding written out after each
  conversion and each operation, and proved to compute what the script on integers computes, on
  every state that the daemon can have left on the server.
\<close>

section \<open>Rounding\<close>

text \<open>The quotient rounded to the nearest integer, ties to even.\<close>

definition round_div :: "nat \<Rightarrow> nat \<Rightarrow> nat" where
  "round_div p q =
     (let d = p div q; r = p mod q
      in if q < 2 * r \<or> 2 * r = q \<and> odd d then d + 1 else d)"

text \<open>
  The floor of the double nearest to \<open>a / b\<close>: 53 significant bits of the quotient. Below 1 all 53
  bits are behind the point, which is at least as fine as a double just below 1.
\<close>

definition double_floor_div :: "int \<Rightarrow> int \<Rightarrow> int" where
  "double_floor_div a b =
     (let p = nat \<bar>a\<bar>; q = nat \<bar>b\<bar>; len = floorlog 2 (p div q); sg = sgn a * sgn b
      in if len \<le> 53 then (sg * int (round_div (p * 2 ^ (53 - len)) q)) div 2 ^ (53 - len)
         else sg * int (round_div p (q * 2 ^ (len - 53))) * 2 ^ (len - 53))"

text \<open>The double nearest to an integer.\<close>

definition double :: "int \<Rightarrow> int" where
  "double x = double_floor_div x 1"

lemma round_div_1 [simp]: "round_div p (Suc 0) = p"
  by (simp add: round_div_def)

lemma round_div_le: "0 < q \<Longrightarrow> 2 * (round_div p q * q) \<le> 2 * p + q"
proof -
  assume "0 < q"
  moreover have "round_div p q * q = p div q * q \<or> round_div p q * q = p div q * q + q \<and> q \<le> 2 * (p mod q)"
    by (auto simp: round_div_def Let_def)
  ultimately show ?thesis using div_mult_mod_eq [of p q] by linarith
qed

lemma round_div_0 [simp]: "round_div 0 q = 0"
  by (simp add: round_div_def Let_def)

lemma round_div_ge: "p div q \<le> round_div p q"
  by (simp add: round_div_def Let_def)

lemma floorlog_53: "n < 2 ^ 53 \<Longrightarrow> floorlog 2 n \<le> 53"
  using floorlog_leI [of n 2 53] by simp

lemma double_exact [simp]:
  assumes "\<bar>x\<bar> < 2 ^ 53"
  shows "double x = x"
proof -
  have "nat \<bar>x\<bar> < 2 ^ 53" using assms by (simp add: nat_less_iff)
  from floorlog_53 [OF this] show ?thesis
    by (simp add: double_def double_floor_div_def Let_def) (simp add: sgn_mult_abs flip: mult.assoc)
qed

text \<open>
  Flooring a rounded quotient gives the integer quotient: the distance to the next integer is at
  least \<open>1 / q\<close>, more than half a unit in the last place.
\<close>

lemma floor_round_div:
  assumes "0 < q" and "q < 2 ^ Suc s"
  shows "round_div (p * 2 ^ s) q div 2 ^ s = p div q"
proof (rule div_nat_eqI)
  have "p div q * 2 ^ s * q \<le> p * 2 ^ s" by simp
  then have "p div q * 2 ^ s \<le> p * 2 ^ s div q" using assms(1) by (simp add: less_eq_div_iff_mult_less_eq)
  then show "2 ^ s * (p div q) \<le> round_div (p * 2 ^ s) q"
    using round_div_ge [of "p * 2 ^ s" q] by (simp add: mult.commute)
  show "round_div (p * 2 ^ s) q < 2 ^ s * Suc (p div q)"
  proof (rule ccontr)
    assume "\<not> round_div (p * 2 ^ s) q < 2 ^ s * Suc (p div q)"
    then have "2 * (2 ^ s * Suc (p div q) * q) \<le> 2 * (round_div (p * 2 ^ s) q * q)" by simp
    also have "\<dots> \<le> 2 * (p * 2 ^ s) + q" by (rule round_div_le [OF assms(1)])
    also have "\<dots> < 2 * (p * 2 ^ s) + 2 * 2 ^ s" using assms(2) by simp
    finally have "2 ^ s * (Suc (p div q) * q) < 2 ^ s * (p + 1)" by (simp add: algebra_simps)
    then have "Suc (p div q) * q < p + 1" by (rule mult_less_cancel1 [THEN iffD1, THEN conjunct2])
    then have "p div q * q + q \<le> p" by simp
    moreover have "p < p div q * q + q"
      using div_mult_mod_eq [of p q] mod_less_divisor [OF assms(1), of p] by linarith
    ultimately show False by linarith
  qed
qed

lemma double_floor_div_exact:
  assumes "0 \<le> a" and "a < 2 ^ 53" and "0 < b" and "b \<le> 2 ^ 53"
  shows "double_floor_div a b = a div b"
proof -
  define p q where "p = nat a" and "q = nat b"
  have ab: "a = int p" "b = int q" "0 < q" "p < 2 ^ 53" "q \<le> 2 ^ 53"
    using assms by (auto simp: p_def q_def nat_less_iff nat_le_iff)
  have "p div q \<le> p" by simp
  with ab(4) have "p div q < 2 ^ 53" by linarith
  then have len: "floorlog 2 (p div q) \<le> 53" by (rule floorlog_53)
  have "q < 2 ^ Suc (53 - floorlog 2 (p div q))"
  proof (cases "p div q = 0")
    case True
    then show ?thesis using ab(5) by (simp add: floorlog_def)
  next
    case False
    define l where "l = floorlog 2 (p div q) - 1"
    have pos: "0 < floorlog 2 (p div q)" using False by (simp add: floorlog_def)
    have "2 ^ l \<le> p div q" using False floorlog_bounds [of "p div q" 2] by (simp add: l_def)
    then have "2 ^ l * q \<le> p" using ab(3) by (simp add: less_eq_div_iff_mult_less_eq)
    then have "2 ^ l * q < 2 ^ l * 2 ^ (53 - l)"
      using ab(4) len by (simp add: l_def flip: power_add)
    then have "q < 2 ^ (53 - l)" by simp
    moreover have "53 - l = Suc (53 - floorlog 2 (p div q))" using len pos by (simp add: l_def)
    ultimately show ?thesis by simp
  qed
  from floor_round_div [OF ab(3) this, of p]
  have "int (round_div (p * 2 ^ (53 - floorlog 2 (p div q))) q) div 2 ^ (53 - floorlog 2 (p div q)) = int p div int q"
    by (metis of_nat_numeral of_nat_power zdiv_int)
  with len ab(3) show ?thesis
    by (cases "p = 0") (simp_all add: double_floor_div_def Let_def ab(1,2))
qed

section \<open>The script with rounding\<close>

text \<open>
  Each definition is that of theory Script with \<open>double\<close> after every conversion and operation. The
  numbers that go into a command are printed with \<open>%.17g\<close>, which prints an integral double below
  \<open>10 ^ 17\<close> as a decimal integer.
\<close>

definition d_tonumber :: "string \<Rightarrow> int option" where
  "d_tonumber s = map_option double (lua_tonumber s)"

definition d_window :: "lua_window \<Rightarrow> lua_window" where
  "d_window w = \<lparr>lw_key_index = double (double (lw_key_index w - 1) + 1), lw_span_secs = double (lw_span_secs w),
     lw_limit = double (lw_limit w)\<rparr>"

definition d_request :: "lua_request \<Rightarrow> lua_request" where
  "d_request rq = \<lparr>rq_recipient_count = double (rq_recipient_count rq), rq_now_override = rq_now_override rq,
     rq_bucket_sizes = map double (rq_bucket_sizes rq), rq_windows = map d_window (rq_windows rq),
     rq_retention_secs = map double (rq_retention_secs rq)\<rparr>"

fun d_parse_fields :: "string list \<Rightarrow> int option \<Rightarrow> lua_error + (entry list \<times> int option)" where
  "d_parse_fields [] min_id = Inr ([], min_id)"
| "d_parse_fields [f] min_id =
     (case next_min min_id (d_tonumber f) of
        Inl e \<Rightarrow> Inl e
      | Inr m \<Rightarrow> Inr ([(d_tonumber f, None)], m))"
| "d_parse_fields (f # c # rest) min_id =
     (case next_min min_id (d_tonumber f) of
        Inl e \<Rightarrow> Inl e
      | Inr m \<Rightarrow>
          (case d_parse_fields rest m of
             Inl e \<Rightarrow> Inl e
           | Inr (es, m') \<Rightarrow> Inr ((d_tonumber f, d_tonumber c) # es, m')))"

fun d_fetch_buckets :: "'s server_cmds \<Rightarrow> 's \<Rightarrow> string list \<Rightarrow> int list \<Rightarrow>
    lua_error + (entry list \<times> int option) list" where
  "d_fetch_buckets V s keys [] = Inr []"
| "d_fetch_buckets V s [] (bs # sizes) = Inl Type_Error"
| "d_fetch_buckets V s (k # keys) (bs # sizes) =
     (case cmd_hgetall V s k of
        Inl e \<Rightarrow> Inl (Server_Error e)
      | Inr fvs \<Rightarrow>
          (case d_parse_fields fvs None of
             Inl e \<Rightarrow> Inl e
           | Inr em \<Rightarrow>
               (case d_fetch_buckets V s keys sizes of Inl e \<Rightarrow> Inl e | Inr ems \<Rightarrow> Inr (em # ems))))"

fun d_window_total :: "int \<Rightarrow> int \<Rightarrow> entry list \<Rightarrow> int \<Rightarrow> lua_error + int" where
  "d_window_total bsize oldest [] acc = Inr acc"
| "d_window_total bsize oldest ((None, c) # es) acc = Inl Type_Error"
| "d_window_total bsize oldest ((Some i, c) # es) acc =
     (if double (double (i + 1) * bsize) > oldest
      then (case c of None \<Rightarrow> Inl Type_Error | Some n \<Rightarrow> d_window_total bsize oldest es (double (acc + n)))
      else d_window_total bsize oldest es acc)"

fun d_check_windows :: "int \<Rightarrow> int \<Rightarrow> int list \<Rightarrow> (entry list \<times> int option) list \<Rightarrow>
    lua_window list \<Rightarrow> lua_error + bool" where
  "d_check_windows now n sizes bks [] = Inr True"
| "d_check_windows now n sizes bks (w # ws) =
     (case (lua_index sizes (lw_key_index w), lua_index bks (lw_key_index w)) of
        (Some bs, Some (es, _)) \<Rightarrow>
          (case d_window_total bs (double (now - lw_span_secs w)) es n of
             Inl e \<Rightarrow> Inl e
           | Inr acc \<Rightarrow> if acc > lw_limit w then Inr False else d_check_windows now n sizes bks ws)
      | _ \<Rightarrow> Inl Type_Error)"

fun d_stale_ids :: "int \<Rightarrow> int \<Rightarrow> entry list \<Rightarrow> lua_error + int list" where
  "d_stale_ids bsize oldest [] = Inr []"
| "d_stale_ids bsize oldest ((None, c) # es) = Inl Type_Error"
| "d_stale_ids bsize oldest ((Some i, c) # es) =
     (case d_stale_ids bsize oldest es of
        Inl e \<Rightarrow> Inl e
      | Inr st \<Rightarrow> Inr (if double (double (i + 1) * bsize) \<le> oldest then i # st else st))"

definition d_record_key :: "'s server_cmds \<Rightarrow> int \<Rightarrow> int \<Rightarrow> string \<Rightarrow> int \<Rightarrow> int option \<Rightarrow>
    entry list \<times> int option \<Rightarrow> 's \<Rightarrow> (lua_error + unit) \<times> 's" where
  "d_record_key V now n k bsize retention em s =
     (case cmd_hincrby V s k (show_int (double_floor_div now bsize)) (show_int n) of
        Inl e \<Rightarrow> (Inl (Server_Error e), s)
      | Inr s1 \<Rightarrow>
          (case retention of
             None \<Rightarrow> (Inl Type_Error, s1)
           | Some r \<Rightarrow>
               (case cmd_expire V s1 k (show_int (double (r + bsize))) of
                  Inl e \<Rightarrow> (Inl (Server_Error e), s1)
                | Inr s2 \<Rightarrow>
                    (case em of
                       (es, None) \<Rightarrow> (Inr (), s2)
                     | (es, Some min_id) \<Rightarrow>
                         if double (double (min_id + 1) * bsize) \<le> double (now - r)
                         then (case d_stale_ids bsize (double (now - r)) es of
                                 Inl e \<Rightarrow> (Inl e, s2)
                               | Inr stale \<Rightarrow>
                                   (case lua_unpack stale of
                                      Inl e \<Rightarrow> (Inl e, s2)
                                    | Inr ids \<Rightarrow>
                                        (case cmd_hdel V s2 k (map show_int ids) of
                                           Inl e \<Rightarrow> (Inl (Server_Error e), s2)
                                         | Inr s3 \<Rightarrow> (Inr (), s3))))
                         else (Inr (), s2)))))"

fun d_record_keys :: "'s server_cmds \<Rightarrow> int \<Rightarrow> int \<Rightarrow> string list \<Rightarrow> int list \<Rightarrow> int list \<Rightarrow>
    (entry list \<times> int option) list \<Rightarrow> 's \<Rightarrow> (lua_error + unit) \<times> 's" where
  "d_record_keys V now n (k # keys) (bs # sizes) rets (em # ems) s =
     (case d_record_key V now n k bs (case rets of [] \<Rightarrow> None | r # _ \<Rightarrow> Some r) em s of
        (Inl e, s') \<Rightarrow> (Inl e, s')
      | (Inr _, s') \<Rightarrow> d_record_keys V now n keys sizes (drop 1 rets) ems s')"
| "d_record_keys V now n _ _ _ _ s = (Inr (), s)"

definition d_check_and_record :: "'s server_cmds \<Rightarrow> 'txt json_text \<Rightarrow> string list \<Rightarrow> 'txt \<Rightarrow> 's \<Rightarrow>
    (lua_error + int) \<times> 's" where
  "d_check_and_record V codec keys arg s =
     (case of_text codec arg of
        None \<Rightarrow> (Inl Decode_Error, s)
      | Some j \<Rightarrow>
     (case map_option d_request (decode_request j) of
        None \<Rightarrow> (Inl Type_Error, s)
      | Some rq \<Rightarrow>
     (case map_sum id double (lua_now V s (rq_now_override rq)) of
        Inl e \<Rightarrow> (Inl e, s)
      | Inr now \<Rightarrow>
     (case d_fetch_buckets V s keys (rq_bucket_sizes rq) of
        Inl e \<Rightarrow> (Inl e, s)
      | Inr bks \<Rightarrow>
     (case d_check_windows now (rq_recipient_count rq) (rq_bucket_sizes rq) bks (rq_windows rq) of
        Inl e \<Rightarrow> (Inl e, s)
      | Inr False \<Rightarrow> (Inr 0, s)
      | Inr True \<Rightarrow>
     (case d_record_keys V now (rq_recipient_count rq) keys (rq_bucket_sizes rq)
             (rq_retention_secs rq) bks s of
        (Inl e, s') \<Rightarrow> (Inl e, s')
      | (Inr _, s') \<Rightarrow> (Inr 1, s')))))))"

section \<open>Small numbers\<close>

definition small_entry :: "int \<Rightarrow> entry \<Rightarrow> bool" where
  "small_entry bs = (\<lambda>(oi, oc).
     (\<forall>i. oi = Some i \<longrightarrow> 0 \<le> i \<and> i + 1 < 2 ^ 53 \<and> (i + 1) * bs < 2 ^ 53) \<and>
     (\<forall>c. oc = Some c \<longrightarrow> 0 \<le> c \<and> c < 2 ^ 32))"

text \<open>What was fetched of a key: few entries, all small, and a small least id.\<close>

definition small_key :: "int \<Rightarrow> entry list \<times> int option \<Rightarrow> bool" where
  "small_key bs = (\<lambda>(es, mi). 0 < bs \<and> bs \<le> 2 ^ 52 \<and> length es < 8000 \<and> (\<forall>e \<in> set es. small_entry bs e) \<and>
     (\<forall>i. mi = Some i \<longrightarrow> 0 \<le> i \<and> i + 1 < 2 ^ 53 \<and> (i + 1) * bs < 2 ^ 53))"

lemma double_end:
  assumes "0 \<le> i" and "i + 1 < 2 ^ 53" and "(i + 1) * bs < 2 ^ 53" and "0 < bs"
  shows "double (double (i + 1) * bs) = (i + 1) * bs"
proof -
  have "0 \<le> (i + 1) * bs" using assms by simp
  then show ?thesis using assms by simp
qed

lemma double_diff: "0 \<le> a \<Longrightarrow> a < 2 ^ 53 \<Longrightarrow> 0 \<le> b \<Longrightarrow> b < 2 ^ 53 \<Longrightarrow> double (a - b) = a - b"
  by (rule double_exact) arith

lemma d_parse_fields_eq:
  assumes "\<And>f i. f \<in> set fvs \<Longrightarrow> lua_tonumber f = Some i \<Longrightarrow> \<bar>i\<bar> < 2 ^ 53"
  shows "d_parse_fields fvs m = parse_fields fvs m"
proof -
  have num: "d_tonumber f = lua_tonumber f" if "f \<in> set fvs" for f
    using assms [OF that] by (cases "lua_tonumber f") (simp_all add: d_tonumber_def)
  then show ?thesis
    by (induction fvs m rule: d_parse_fields.induct) (simp_all split: sum.split)
qed

lemma d_window_total_eq:
  assumes "\<forall>e \<in> set es. small_entry bs e" and "0 < bs" and "0 \<le> acc" and "acc + int (length es) * 2 ^ 32 < 2 ^ 53"
  shows "d_window_total bs oldest es acc = window_total bs oldest es acc"
  using assms
proof (induction bs oldest es acc rule: d_window_total.induct)
  case (3 bs oldest i c es acc)
  have e: "double (double (i + 1) * bs) = (i + 1) * bs"
    using 3(3,4) by (intro double_end) (auto simp: small_entry_def)
  show ?case
  proof (cases c)
    case None
    then show ?thesis using 3 e by simp
  next
    case (Some n)
    then have n: "0 \<le> n" "n < 2 ^ 32" using 3(3) by (auto simp: small_entry_def)
    then have "double (acc + n) = acc + n" using 3(5,6) by simp
    with 3 e Some n show ?thesis by simp
  qed
qed simp_all

lemma d_stale_ids_eq:
  assumes "\<forall>e \<in> set es. small_entry bs e" and "0 < bs"
  shows "d_stale_ids bs oldest es = stale_ids bs oldest es"
  using assms
proof (induction bs oldest es rule: d_stale_ids.induct)
  case (3 bs oldest i c es)
  have "double (double (i + 1) * bs) = (i + 1) * bs"
    using 3(2,3) by (intro double_end) (auto simp: small_entry_def)
  with 3 show ?case by (simp split: sum.split)
qed simp_all

lemma d_check_windows_eq:
  assumes "\<And>i bs em. lua_index sizes i = Some bs \<Longrightarrow> lua_index bks i = Some em \<Longrightarrow> small_key bs em"
    and "0 \<le> n" and "n < 2 ^ 32" and "0 \<le> now" and "now < 2 ^ 52"
    and "\<And>w. w \<in> set ws \<Longrightarrow> 0 \<le> lw_span_secs w \<and> lw_span_secs w < 2 ^ 53"
  shows "d_check_windows now n sizes bks ws = check_windows now n sizes bks ws"
  using assms(6)
proof (induction ws)
  case (Cons w ws)
  have span: "double (now - lw_span_secs w) = now - lw_span_secs w"
    using Cons.prems [of w] assms(4,5) by (intro double_diff) simp_all
  have IH: "d_check_windows now n sizes bks ws = check_windows now n sizes bks ws"
    using Cons by simp
  show ?case
  proof (cases "\<exists>bs es mi. lua_index sizes (lw_key_index w) = Some bs \<and> lua_index bks (lw_key_index w) = Some (es, mi)")
    case True
    then obtain bs es mi where key: "lua_index sizes (lw_key_index w) = Some bs"
      "lua_index bks (lw_key_index w) = Some (es, mi)" by blast
    then have small: "small_key bs (es, mi)" by (rule assms(1))
    then have "int (length es) * 2 ^ 32 \<le> 8000 * 2 ^ 32" by (simp add: small_key_def)
    then have "d_window_total bs (now - lw_span_secs w) es n = window_total bs (now - lw_span_secs w) es n"
      using small assms(2,3) by (intro d_window_total_eq) (auto simp: small_key_def)
    then show ?thesis using key span IH by (simp split: sum.split)
  next
    case False
    then show ?thesis using IH by (auto split: option.split)
  qed
qed simp

lemma d_record_key_eq:
  assumes "small_key bs em" and "0 \<le> now" and "now < 2 ^ 52" and "\<And>r. ret = Some r \<Longrightarrow> 0 \<le> r \<and> r < 2 ^ 52"
  shows "d_record_key V now n k bs ret em s = record_key V now n k bs ret em s"
proof -
  obtain es mi where em: "em = (es, mi)" by (cases em)
  have bs: "0 < bs" "bs \<le> 2 ^ 52" "\<forall>e \<in> set es. small_entry bs e"
    and mi: "\<And>i. mi = Some i \<Longrightarrow> double (double (i + 1) * bs) = (i + 1) * bs"
    using assms(1) double_end by (auto simp: small_key_def em)
  have "double_floor_div now bs = now div bs"
    using assms(2,3) bs by (intro double_floor_div_exact) simp_all
  moreover have "double (r + bs) = r + bs \<and> double (now - r) = now - r" if "ret = Some r" for r
    using assms(4) [OF that] assms(2,3) bs(1,2) double_diff [of now r] by simp
  ultimately show ?thesis
    using mi d_stale_ids_eq [OF bs(3,1)]
    by (cases ret; cases mi) (simp_all add: d_record_key_def record_key_def em split: sum.split)
qed

lemma d_record_keys_eq:
  assumes "list_all2 small_key sizes ems" and "0 \<le> now" and "now < 2 ^ 52" and "\<forall>r \<in> set rets. 0 \<le> r \<and> r < 2 ^ 52"
  shows "d_record_keys V now n keys sizes rets ems s = record_keys V now n keys sizes rets ems s"
  using assms
proof (induction V now n keys sizes rets ems s rule: d_record_keys.induct)
  case (1 V now n k keys bs sizes rets em ems s)
  have "d_record_key V now n k bs (case rets of [] \<Rightarrow> None | r # _ \<Rightarrow> Some r) em s
      = record_key V now n k bs (case rets of [] \<Rightarrow> None | r # _ \<Rightarrow> Some r) em s"
    by (rule d_record_key_eq) (use "1.prems" in \<open>auto split: list.splits\<close>)
  moreover have "\<forall>r \<in> set (drop 1 rets). 0 \<le> r \<and> r < 2 ^ 52" using "1.prems"(4) by (auto dest: in_set_dropD)
  ultimately show ?case using 1 by (simp split: prod.split sum.split)
qed simp_all

section \<open>On the state of a sender\<close>

text \<open>No bucket of an admitted log holds more than a limit: it lies within a window.\<close>

lemma bucket_total_small:
  assumes wf: "plan_wf p" and fine: "plan_fine p" and adm: "admitted (plan_admits p) H" and H: "sorted (map fst H)"
    and key: "(k, bs, R) \<in> set (plan_keys pre u p)"
  shows "logged H (\<lambda>t. t div bs = b) < 2 ^ 32"
proof -
  obtain w where w: "w \<in> set (windows p)" "bs = unat (bucket_sizes p ! key_index w)" "R = unat (span_secs w)" "0 < bs"
    using plan_key_window [OF wf key] by blast
  let ?\<tau> = "b * bs + bs - 1"
  have "admitted (window_admits bs R (unat (limit w))) H"
    using admitted_mono [OF plan_admits_window [OF _ w(1)] adm] w(2,3) by simp
  from sliding_log.window_never_exceeded [OF plan_window_contract [OF wf w(1)] this [unfolded w(2,3)] H, of ?\<tau>]
  have "logged H (\<lambda>t. t \<le> ?\<tau> \<and> ?\<tau> < t + R) \<le> unat (limit w)" by (simp add: w(3))
  moreover have "logged H (\<lambda>t. t div bs = b) \<le> logged H (\<lambda>t. t \<le> ?\<tau> \<and> ?\<tau> < t + R)"
  proof (rule logged_mono)
    fix t n assume t: "t div bs = b"
    then have "t = b * bs + t mod bs" "t mod bs < bs" using w(4) by auto
    moreover have "bs \<le> R" using plan_fine_window(2) [OF fine w(1)] w(2,3) by linarith
    ultimately show "t \<le> ?\<tau> \<and> ?\<tau> < t + R" by linarith
  qed
  moreover have "unat (limit w) < 2 ^ 32" using unsigned_less [of "limit w", where ?'a = nat] by simp
  ultimately show ?thesis by linarith
qed

context hash_server
begin

lemma fetch_key_small:
  assumes wf: "plan_wf p" and fine: "plan_fine p" and adm: "admitted (plan_admits p) H"
    and rep: "sender_rep hash deadline clock serves pre u p H s" and now: "clock s < 2 ^ 52"
    and key: "(k, bs, R) \<in> set (plan_keys pre u p)"
  obtains fvs em where "cmd_hgetall cmds s k = Inr fvs" and "parse_fields fvs None = Inr em"
    and "d_parse_fields fvs None = Inr em" and "small_key (int bs) em"
proof -
  let ?c = "\<lambda>b. logged H (\<lambda>t. t div bs = b)"
  have krep: "key_rep hash deadline clock serves H s (k, bs, R)" and sorted: "sorted (map fst H)"
    and past: "\<forall>(t, n) \<in> set H. t \<le> clock s"
    using rep key by (auto simp: sender_rep_def)
  obtain w where w: "w \<in> set (windows p)" "bs = unat (bucket_sizes p ! key_index w)" "R = unat (span_secs w)" "0 < bs"
    using plan_key_window [OF wf key] by blast
  note fw = plan_fine_window [OF fine w(1), folded w(2,3)]
  obtain bl where bl: "cmd_hgetall cmds s k = Inr (flat_pairs (map (\<lambda>b. (show_nat b, show_nat (?c b))) bl))"
    "distinct bl" "dom (hash s k) = show_nat ` set bl" "\<And>b. b \<in> set bl \<Longrightarrow> live_bucket bs R H b"
    using hgetall_key [OF krep] by blast
  have len: "length bl < 8000"
  proof -
    have "length bl \<le> R div bs + 2" using live_buckets_few [OF bl(2,4)] w(4) by blast
    moreover have "R div bs < 100" using fw(1) w(4) by (simp add: div_less_iff_less_mult)
    ultimately show ?thesis by linarith
  qed
  have small: "0 \<le> int b \<and> int b + 1 < 2 ^ 53 \<and> (int b + 1) * int bs < 2 ^ 53" if "b \<in> set bl" for b
  proof -
    have "H \<noteq> []" "b \<le> fst (last H) div bs" using bl(4) [OF that] by (auto simp: live_bucket_def)
    moreover from this have "fst (last H) \<le> clock s" using past last_in_set by fastforce
    moreover from calculation have "b * bs \<le> fst (last H) div bs * bs" by simp
    moreover have "fst (last H) div bs * bs \<le> fst (last H)" by simp
    ultimately have le: "b * bs \<le> clock s" by linarith
    have "b * 1 \<le> b * bs" using w(4) by (intro mult_le_mono2) simp
    with le have "b \<le> clock s" by linarith
    with le have "b + 1 < 2 ^ 53" "(b + 1) * bs < 2 ^ 53" using now fw(3) by (simp_all add: add_mult_distrib)
    then have "int (b + 1) < int (2 ^ 53)" "int ((b + 1) * bs) < int (2 ^ 53)" by (simp_all only: of_nat_less_iff)
    then show ?thesis by (simp add: add_mult_distrib distrib_right)
  qed
  have count: "?c b < 2 ^ 32" for b by (rule bucket_total_small [OF wf fine adm sorted key])
  let ?fvs = "flat_pairs (map (\<lambda>b. (show_nat b, show_nat (?c b))) bl)"
  have parsed: "parse_fields ?fvs None = Inr (log_entries H bs bl, map_option int (min_opt None bl))"
    using parse_fields_decimal [of ?c bl None] by (simp add: log_entries_def)
  have "d_parse_fields ?fvs None = parse_fields ?fvs None"
  proof (rule d_parse_fields_eq)
    fix f i assume f: "f \<in> set ?fvs" "lua_tonumber f = Some i"
    then obtain b where b: "b \<in> set bl" "f = show_nat b \<or> f = show_nat (?c b)" by (auto simp: flat_pairs_def)
    have "int (?c b) < int (2 ^ 32)" using count by (simp only: of_nat_less_iff)
    then show "\<bar>i\<bar> < 2 ^ 53" using b f(2) small [OF b(1)] by (auto simp: decimal_simps)
  qed
  moreover have "small_key (int bs) (log_entries H bs bl, map_option int (min_opt None bl))"
  proof -
    have "small_entry (int bs) e" if "e \<in> set (log_entries H bs bl)" for e
    proof -
      from that obtain b where b: "b \<in> set bl" "e = (Some (int b), Some (int (?c b)))" by (auto simp: log_entries_def)
      have "int (?c b) < int (2 ^ 32)" using count by (simp only: of_nat_less_iff)
      then show ?thesis using small [OF b(1)] b(2) by (simp add: small_entry_def)
    qed
    moreover have "0 \<le> i \<and> i + 1 < 2 ^ 53 \<and> (i + 1) * int bs < 2 ^ 53" if "map_option int (min_opt None bl) = Some i" for i
    proof -
      from that have "bl \<noteq> []" by auto
      then obtain x where "min_opt None bl = Some x" "x \<in> set bl" using min_opt_None by blast
      then show ?thesis using that small by auto
    qed
    moreover have "int bs \<le> 2 ^ 52" using fw(3) by simp
    ultimately show ?thesis using w(4) len by (simp add: small_key_def log_entries_def)
  qed
  ultimately show thesis using that [OF bl(1) parsed] parsed by simp
qed

lemma d_fetch_all:
  assumes wf: "plan_wf p" and fine: "plan_fine p" and adm: "admitted (plan_admits p) H"
    and rep: "sender_rep hash deadline clock serves pre u p H s" and now: "clock s < 2 ^ 52"
    and "set kl \<subseteq> set (plan_keys pre u p)"
  shows "\<exists>ems. fetch_buckets cmds s (map fst kl) (map (\<lambda>(k, bs, R). int bs) kl) = Inr ems
    \<and> d_fetch_buckets cmds s (map fst kl) (map (\<lambda>(k, bs, R). int bs) kl) = Inr ems
    \<and> list_all2 small_key (map (\<lambda>(k, bs, R). int bs) kl) ems"
  using assms(6)
proof (induction kl)
  case (Cons key kl)
  obtain k bs R where key: "key = (k, bs, R)" by (cases key)
  with Cons.prems have "(k, bs, R) \<in> set (plan_keys pre u p)" by simp
  from fetch_key_small [OF wf fine adm rep now this] obtain fvs em where
    "cmd_hgetall cmds s k = Inr fvs" "parse_fields fvs None = Inr em" "d_parse_fields fvs None = Inr em"
    "small_key (int bs) em" by blast
  with Cons show ?case by (auto simp: key)
qed simp

lemma lua_index_all2:
  assumes "list_all2 R xs ys" and "lua_index xs i = Some x" and "lua_index ys i = Some y"
  shows "R x y"
  using assms list_all2_nthD [OF assms(1), of "nat (i - 1)"]
  by (auto simp: lua_index_def nth_opt_def split: if_splits)

text \<open>The script on doubles is the script on integers.\<close>

lemma d_check_and_record_eq:
  assumes wf: "plan_wf p" and fine: "plan_fine p" and codec: "codec_ok codec"
    and adm: "admitted (plan_admits p) H" and rep: "sender_rep hash deadline clock serves pre u p H s"
    and now: "clock s < 2 ^ 52"
  shows "d_check_and_record cmds codec (map (sender_key pre u) (bucket_sizes p)) (to_text codec (check_request_json n None p)) s
    = check_and_record cmds codec (map (sender_key pre u) (bucket_sizes p)) (to_text codec (check_request_json n None p)) s"
proof -
  let ?rq = "\<lparr>rq_recipient_count = uint n, rq_now_override = None, rq_bucket_sizes = map uint (bucket_sizes p),
      rq_windows = map lua_window_of (windows p), rq_retention_secs = map uint (retention_secs p)\<rparr>"
  note arrays = plan_keys_arrays [OF wf, of pre u]
  have clock: "int (clock s) < 2 ^ 52"
    using now by (metis of_nat_less_iff of_nat_numeral of_nat_power)
  obtain us where "cmd_time cmds s = Inr [show_nat (clock s), us]" using time_law by blast
  then have time: "lua_now cmds s None = Inr (int (clock s))" by (simp add: decimal_simps)
  have n: "uint n < 2 ^ 32" using uint_bounded [of n] by simp
  note small = plan_numbers_small [OF wf fine]
  have sizes: "x \<le> 32768" if "x \<in> set (map uint (bucket_sizes p))" for x using that small(1) by auto
  have rets: "x \<le> 31 * 86400" if "x \<in> set (map uint (retention_secs p))" for x using that small(2) by auto
  note few = small(3)
  have window: "d_window (lua_window_of w) = lua_window_of w \<and> 0 \<le> uint (span_secs w) \<and> uint (span_secs w) < 2 ^ 53"
    if w: "w \<in> set (windows p)" for w
  proof -
    have "int (unat (span_secs w)) \<le> int (31 * 86400)"
      using plan_fine_window(4) [OF fine w] by (simp only: of_nat_le_iff)
    moreover have "uint (limit w) < 2 ^ 32" using uint_bounded [of "limit w"] by simp
    moreover have "int (key_index w) < int 32769"
      using plan_wf_window(1) [OF wf w] few by (simp only: of_nat_less_iff)
    ultimately show ?thesis by (simp add: d_window_def lua_window_of_def)
  qed
  have request: "d_request ?rq = ?rq"
  proof -
    have "map double (map uint (bucket_sizes p)) = map uint (bucket_sizes p)"
      "map double (map uint (retention_secs p)) = map uint (retention_secs p)"
      by (rule map_idI, use sizes rets in force)+
    moreover have "map d_window (map lua_window_of (windows p)) = map lua_window_of (windows p)"
      using window by simp
    ultimately show ?thesis using n by (simp add: d_request_def)
  qed
  obtain ems where ems: "fetch_buckets cmds s (map (sender_key pre u) (bucket_sizes p)) (map uint (bucket_sizes p)) = Inr ems"
    "d_fetch_buckets cmds s (map (sender_key pre u) (bucket_sizes p)) (map uint (bucket_sizes p)) = Inr ems"
    "list_all2 small_key (map uint (bucket_sizes p)) ems"
    using d_fetch_all [OF wf fine adm rep now order_refl] unfolding arrays by blast
  have check: "d_check_windows (int (clock s)) (uint n) (map uint (bucket_sizes p)) ems (map lua_window_of (windows p))
      = check_windows (int (clock s)) (uint n) (map uint (bucket_sizes p)) ems (map lua_window_of (windows p))"
    by (rule d_check_windows_eq [OF lua_index_all2 [OF ems(3)]]) (use n clock window in auto)
  have recorded: "d_record_keys cmds (int (clock s)) (uint n) keys (map uint (bucket_sizes p)) (map uint (retention_secs p)) ems s
      = record_keys cmds (int (clock s)) (uint n) keys (map uint (bucket_sizes p)) (map uint (retention_secs p)) ems s" for keys
    by (rule d_record_keys_eq [OF ems(3)]) (use clock rets in force)+
  show ?thesis
    using time clock request ems(1,2) check recorded
    by (simp add: d_check_and_record_def check_and_record_def check_request_reads [OF codec wf fine] decode_check_request
        del: lua_now.simps split: sum.split bool.split)
qed

end

end
