(* ===== verification/Config.thy ===== *)
theory Config
  imports Plan
begin

text \<open>
  The loading half of \<open>src/config.rs\<close>: the raw config, its defaults, \<open>Config::load\<close> and the
  choice of a plan for a sender (\<open>plan_for\<close>). Files, the TOML parser, the redis URL parser with
  its \<open>ConnectionInfo\<close> and the regex engine are outside the repository: they are the operations
  of \<open>platform\<close>, a parameter of the definitions.
\<close>

section \<open>Paths\<close>

text \<open>
  \<open>PathBuf\<close> equality compares components: repeated slashes, a trailing slash and a \<open>.\<close> other
  than a leading one make no difference.
\<close>

datatype path_component = RootDir | CurDir | ParentDir | Normal string

fun split_on :: "char \<Rightarrow> string \<Rightarrow> string list" where
  "split_on c [] = [[]]"
| "split_on c (x # xs) =
     (if x = c then [] # split_on c xs
      else (case split_on c xs of [] \<Rightarrow> [[x]] | seg # segs \<Rightarrow> (x # seg) # segs))"

fun later_components :: "string list \<Rightarrow> path_component list" where
  "later_components [] = []"
| "later_components (seg # segs) =
     (if seg = [] \<or> seg = ''.'' then later_components segs
      else (if seg = ''..'' then ParentDir else Normal seg) # later_components segs)"

definition path_components :: "path \<Rightarrow> path_component list" where
  "path_components p =
     (if p \<noteq> [] \<and> hd p = CHR ''/'' then RootDir # later_components (split_on (CHR ''/'') p)
      else (case split_on (CHR ''/'') p of
              [] \<Rightarrow> []
            | seg # segs \<Rightarrow> if seg = ''.'' then CurDir # later_components segs
                           else later_components (seg # segs)))"

definition path_eq :: "path \<Rightarrow> path \<Rightarrow> bool" where
  "path_eq p q \<longleftrightarrow> path_components p = path_components q"

fun path_opt_eq :: "path option \<Rightarrow> path option \<Rightarrow> bool" where
  "path_opt_eq None None = True"
| "path_opt_eq (Some p) (Some q) = path_eq p q"
| "path_opt_eq _ _ = False"

lemma path_eq_refl [simp]: "path_eq p p"
  by (simp add: path_eq_def)

lemma path_opt_eq_refl [simp]: "path_opt_eq p p"
  by (cases p) auto

lemma path_eq_trans: "path_eq p q \<Longrightarrow> path_eq q r \<Longrightarrow> path_eq p r"
  by (simp add: path_eq_def)

lemma path_opt_eq_trans: "path_opt_eq p q \<Longrightarrow> path_opt_eq q r \<Longrightarrow> path_opt_eq p r"
  by (cases p; cases q; cases r) (auto intro: path_eq_trans)

lemma path_opt_eq_None: "path_opt_eq p q \<Longrightarrow> p = None \<longleftrightarrow> q = None"
  by (cases p; cases q) auto

section \<open>The config file\<close>

datatype failure_action = Defer | Permit

datatype raw_sasl_limit_rule =
    RawUsername (raw_username: string) "window list option" "bool option"
  | RawRegex (raw_regex: string) "window list option" "bool option"
  | RawDefault "window list option" "bool option"

record raw_redis_config =
  raw_url :: string
  raw_db :: int
  raw_password_file :: "path option"
  raw_key_prefix :: string

record raw_server_config =
  raw_socket :: path
  raw_on_redis_error :: failure_action
  raw_warn_on_unauthenticated :: bool
  raw_control_socket :: "path option"

record raw_config =
  raw_redis :: raw_redis_config
  raw_server :: raw_server_config
  raw_sasl_limits :: "raw_sasl_limit_rule list"

text \<open>A parsed document: an optional member of a table may be absent.\<close>

record config_doc =
  doc_url :: string
  doc_db :: "int option"
  doc_password_file :: "path option"
  doc_key_prefix :: "string option"
  doc_socket :: path
  doc_on_redis_error :: "failure_action option"
  doc_warn_on_unauthenticated :: "bool option"
  doc_control_socket :: "path option"
  doc_sasl :: "raw_sasl_limit_rule list"

definition default_key_prefix :: string where
  "default_key_prefix = ''postfix-ratelimitd''"

definition default_db :: int where
  "default_db = 0"

definition default_redis_error_action :: failure_action where
  "default_redis_error_action = Defer"

definition default_warn_on_unauthenticated :: bool where
  "default_warn_on_unauthenticated = True"

definition or_default :: "'a \<Rightarrow> 'a option \<Rightarrow> 'a" where
  "or_default d x = (case x of None \<Rightarrow> d | Some v \<Rightarrow> v)"

text \<open>The \<open>serde(default)\<close> attributes of the raw structures.\<close>

definition raw_config_of :: "config_doc \<Rightarrow> raw_config" where
  "raw_config_of d = \<lparr>
     raw_redis = \<lparr>raw_url = doc_url d, raw_db = or_default default_db (doc_db d),
       raw_password_file = doc_password_file d,
       raw_key_prefix = or_default default_key_prefix (doc_key_prefix d)\<rparr>,
     raw_server = \<lparr>raw_socket = doc_socket d,
       raw_on_redis_error = or_default default_redis_error_action (doc_on_redis_error d),
       raw_warn_on_unauthenticated =
         or_default default_warn_on_unauthenticated (doc_warn_on_unauthenticated d),
       raw_control_socket = doc_control_socket d\<rparr>,
     raw_sasl_limits = doc_sasl d\<rparr>"

section \<open>The validated config\<close>

datatype 're sasl_matcher = Username string | Regex 're

record 're sasl_limit_rule =
  matcher :: "'re sasl_matcher"
  plan :: check_plan

record ('ci, 're) config =
  redis_connection_info :: 'ci
  redis_key_prefix :: string
  on_redis_error :: failure_action
  warn_on_unauthenticated :: bool
  socket :: path
  control_socket :: "path option"
  sasl_limits :: "'re sasl_limit_rule list"
  default_plan :: check_plan

record ('ci, 'rs, 're, 'e) platform =
  read_to_string :: "path \<Rightarrow> 'e + string"
  toml_from_str :: "string \<Rightarrow> 'e + config_doc"
  into_connection_info :: "string \<Rightarrow> 'e + 'ci"
  redis_settings :: "'ci \<Rightarrow> 'rs"
  set_redis_settings :: "'rs \<Rightarrow> 'ci \<Rightarrow> 'ci"
  set_db :: "int \<Rightarrow> 'rs \<Rightarrow> 'rs"
  password :: "'rs \<Rightarrow> string option"
  set_password :: "string \<Rightarrow> 'rs \<Rightarrow> 'rs"
  regex_new :: "string \<Rightarrow> 'e + 're"
  is_match :: "'re \<Rightarrow> string \<Rightarrow> bool"

text \<open>\<open>trim_end_matches(['\\n', '\\r'])\<close>.\<close>

definition trim_line_end :: "string \<Rightarrow> string" where
  "trim_line_end s = rev (dropWhile (\<lambda>c. c = CHR 0x0A \<or> c = CHR 0x0D) (rev s))"

definition rule_matches :: "('ci, 'rs, 're, 'e) platform \<Rightarrow> 're sasl_limit_rule \<Rightarrow> string \<Rightarrow> bool" where
  "rule_matches P rule sasl_username =
     (case matcher rule of
        Username username \<Rightarrow> username = sasl_username
      | Regex re \<Rightarrow> is_match P re sasl_username)"

definition plan_for :: "('ci, 'rs, 're, 'e) platform \<Rightarrow> ('ci, 're) config \<Rightarrow> string \<Rightarrow> check_plan" where
  "plan_for P c sasl_username =
     (case find (\<lambda>rule. rule_matches P rule sasl_username) (sasl_limits c) of
        None \<Rightarrow> default_plan c
      | Some rule \<Rightarrow> plan rule)"

section \<open>Loading\<close>

text \<open>The connection settings: the database number, and the password from at most one place.\<close>

definition resolve_connection :: "('ci, 'rs, 're, 'e) platform \<Rightarrow> raw_redis_config \<Rightarrow>
    'e config_error + 'ci" where
  "resolve_connection P r =
     (case into_connection_info P (raw_url r) of
        Inl e \<Rightarrow> Inl (BadRedisUrl (raw_url r) e)
      | Inr info \<Rightarrow>
          let settings = set_db P (raw_db r) (redis_settings P info)
          in case raw_password_file r of
               None \<Rightarrow> Inr (set_redis_settings P settings info)
             | Some path \<Rightarrow>
                 if password P settings \<noteq> None then Inl AmbiguousPassword
                 else (case read_to_string P path of
                         Inl e \<Rightarrow> Inl (ReadPasswordFile path e)
                       | Inr text \<Rightarrow>
                           Inr (set_redis_settings P (set_password P (trim_line_end text) settings) info)))"

fun is_default :: "raw_sasl_limit_rule \<Rightarrow> bool" where
  "is_default (RawDefault _ _) = True"
| "is_default _ = False"

text \<open>The loop over the enumerated rules; the accumulators are the rules so far and the default.\<close>

fun load_rules :: "('ci, 'rs, 're, 'e) platform \<Rightarrow> nat \<Rightarrow> raw_sasl_limit_rule list \<Rightarrow>
    're sasl_limit_rule list \<Rightarrow> check_plan option \<Rightarrow>
    'e config_error + ('re sasl_limit_rule list \<times> check_plan option)" where
  "load_rules P index [] rules dp = Inr (rules, dp)"
| "load_rules P index (RawUsername username ws u # raws) rules dp =
     (if username = [] then Inl (EmptyUsername index)
      else (case build_plan index ws u of
              Inl e \<Rightarrow> Inl e
            | Inr p \<Rightarrow>
                load_rules P (Suc index) raws (rules @ [\<lparr>matcher = Username username, plan = p\<rparr>]) dp))"
| "load_rules P index (RawRegex regex ws u # raws) rules dp =
     (case build_plan index ws u of
        Inl e \<Rightarrow> Inl e
      | Inr p \<Rightarrow>
          (case regex_new P regex of
             Inl e \<Rightarrow> Inl (BadRegex index e)
           | Inr re \<Rightarrow>
               load_rules P (Suc index) raws (rules @ [\<lparr>matcher = Regex re, plan = p\<rparr>]) dp))"
| "load_rules P index (RawDefault ws u # raws) rules dp =
     (case build_plan index ws u of
        Inl e \<Rightarrow> Inl e
      | Inr p \<Rightarrow> load_rules P (Suc index) raws rules (Some p))"

text \<open>\<open>Config::load\<close>. The result \<open>None\<close> is the panic of the final \<open>expect\<close>.\<close>

definition config_load :: "('ci, 'rs, 're, 'e) platform \<Rightarrow> path \<Rightarrow>
    ('e config_error + ('ci, 're) config) option" where
  "config_load P path =
     (case read_to_string P path of
        Inl e \<Rightarrow> Some (Inl (ReadError path e))
      | Inr text \<Rightarrow>
     (case toml_from_str P text of
        Inl e \<Rightarrow> Some (Inl (ParseError path e))
      | Inr doc \<Rightarrow>
     let raw = raw_config_of doc; server = raw_server raw in
     (case resolve_connection P (raw_redis raw) of
        Inl e \<Rightarrow> Some (Inl e)
      | Inr info \<Rightarrow>
     let default_count = length (filter is_default (raw_sasl_limits raw)) in
     if default_count \<noteq> 1 then Some (Inl (DefaultCount default_count))
     else
     (case load_rules P 0 (raw_sasl_limits raw) [] None of
        Inl e \<Rightarrow> Some (Inl e)
      | Inr (rules, dp) \<Rightarrow>
     if path_opt_eq (raw_control_socket server) (Some (raw_socket server))
     then Some (Inl ControlSocketSameAsSocket)
     else
     (case dp of
        None \<Rightarrow> None
      | Some p \<Rightarrow> Some (Inr \<lparr>
          redis_connection_info = info,
          redis_key_prefix = raw_key_prefix (raw_redis raw),
          on_redis_error = raw_on_redis_error server,
          warn_on_unauthenticated = raw_warn_on_unauthenticated server,
          socket = raw_socket server,
          control_socket = raw_control_socket server,
          sasl_limits = rules,
          default_plan = p\<rparr>))))))"

section \<open>What a loaded config guarantees\<close>

lemma build_plan_ok: "build_plan i ws u = Inr p \<Longrightarrow> plan_wf p \<and> plan_fine p"
  using CheckPlan_new_wf CheckPlan_new_fine [of "[]"] CheckPlan_new_fine
  by (auto simp: build_plan_Inr) (metis CheckPlan_new_Nil CheckPlan_new_wf)

text \<open>The rule as its entry in the file reads: which names it is for, and its plan.\<close>

fun raw_applies :: "('ci, 'rs, 're, 'e) platform \<Rightarrow> string \<Rightarrow> raw_sasl_limit_rule \<Rightarrow> bool" where
  "raw_applies P u (RawUsername n _ _) \<longleftrightarrow> n = u"
| "raw_applies P u (RawRegex r _ _) \<longleftrightarrow> (\<exists>re. regex_new P r = Inr re \<and> is_match P re u)"
| "raw_applies P u (RawDefault _ _) \<longleftrightarrow> True"

fun raw_windows :: "raw_sasl_limit_rule \<Rightarrow> window list option" where
  "raw_windows (RawUsername _ ws _) = ws"
| "raw_windows (RawRegex _ ws _) = ws"
| "raw_windows (RawDefault ws _) = ws"

fun raw_unrestricted :: "raw_sasl_limit_rule \<Rightarrow> bool option" where
  "raw_unrestricted (RawUsername _ _ u) = u"
| "raw_unrestricted (RawRegex _ _ u) = u"
| "raw_unrestricted (RawDefault _ u) = u"

definition raw_plan :: "raw_sasl_limit_rule \<Rightarrow> check_plan" where
  "raw_plan r = CheckPlan_new (or_default [] (raw_windows r))"

definition windows_valid :: "window list option \<Rightarrow> bool option \<Rightarrow> bool" where
  "windows_valid ws u \<longleftrightarrow>
     ws = None \<and> u = Some True \<or> (\<exists>v. ws = Some v \<and> u = None \<and> v \<noteq> [] \<and> (\<forall>w \<in> set v. window_ok w))"

fun raw_name_ok :: "('ci, 'rs, 're, 'e) platform \<Rightarrow> raw_sasl_limit_rule \<Rightarrow> bool" where
  "raw_name_ok P (RawUsername n _ _) \<longleftrightarrow> n \<noteq> []"
| "raw_name_ok P (RawRegex r _ _) \<longleftrightarrow> (\<exists>re. regex_new P r = Inr re)"
| "raw_name_ok P (RawDefault _ _) \<longleftrightarrow> True"

definition rule_valid :: "('ci, 'rs, 're, 'e) platform \<Rightarrow> raw_sasl_limit_rule \<Rightarrow> bool" where
  "rule_valid P r \<longleftrightarrow> raw_name_ok P r \<and> windows_valid (raw_windows r) (raw_unrestricted r)"

fun error_index :: "'e config_error \<Rightarrow> nat option" where
  "error_index (BadRegex i e) = Some i"
| "error_index (EmptyUsername i) = Some i"
| "error_index (NoWindows i) = Some i"
| "error_index (WindowsWithUnrestricted i) = Some i"
| "error_index (RedundantUnrestrictedFalse i) = Some i"
| "error_index (WindowTooShort i d) = Some i"
| "error_index (WindowTooLong i d) = Some i"
| "error_index _ = None"

lemma build_plan_valid:
  "build_plan i ws u = Inr p \<longleftrightarrow> windows_valid ws u \<and> p = CheckPlan_new (or_default [] ws)"
  unfolding build_plan_Inr windows_valid_def or_default_def by (cases ws) auto

lemma build_plan_invalid: "build_plan i ws u = Inl e \<Longrightarrow> \<not> windows_valid ws u"
  using build_plan_valid [of i ws u] by (metis sum.distinct(1))

lemma validate_each_index: "validate_each i ws = Inl e \<Longrightarrow> error_index e = Some i"
  by (induction ws) (auto split: if_splits)

lemma build_plan_index: "build_plan i ws u = Inl e \<Longrightarrow> error_index e = Some i"
  by (cases "(i, ws, u)" rule: build_plan.cases)
    (auto simp: case_sum_eq_Inl validate_windows_def dest: validate_each_index split: if_splits sum.splits)

lemma load_rules_error:
  fixes P :: "('ci, 'rs, 're, 'e) platform"
  shows "load_rules P i raws rules dp = Inl e \<Longrightarrow>
    \<exists>j < length raws. error_index e = Some (i + j) \<and> \<not> rule_valid P (raws ! j) \<and> (\<forall>k < j. rule_valid P (raws ! k))"
  (is "_ \<Longrightarrow> ?first i raws")
proof (induction P i raws rules dp rule: load_rules.induct)
  case (1 P i rules dp)
  then show ?case by simp
next
  case (2 P i username ws u raws rules dp)
  show ?case
  proof (cases "username = [] \<or> (\<exists>e :: 'e config_error. build_plan i ws u = Inl e)")
    case True
    then have "error_index e = Some i \<and> \<not> rule_valid P (RawUsername username ws u)"
      using 2(2) by (cases "username = []") (auto simp: rule_valid_def dest: build_plan_index build_plan_invalid)
    then show ?thesis by (intro exI [of _ 0]) simp
  next
    case False
    then obtain p where p: "username \<noteq> []" "build_plan i ws u = (Inr p :: 'e config_error + check_plan)"
      by (cases "build_plan i ws u :: 'e config_error + check_plan") auto
    then have "rule_valid P (RawUsername username ws u)"
      by (simp add: rule_valid_def build_plan_valid)
    moreover obtain j where "j < length raws" "error_index e = Some (Suc i + j)"
      "\<not> rule_valid P (raws ! j)" "\<forall>k < j. rule_valid P (raws ! k)"
      using 2(1) [OF p] 2(2) p by auto
    ultimately show ?thesis by (intro exI [of _ "Suc j"]) (auto simp: less_Suc_eq_0_disj)
  qed
next
  case (3 P i regex ws u raws rules dp)
  show ?case
  proof (cases "(\<exists>e :: 'e config_error. build_plan i ws u = Inl e) \<or> (\<exists>e. regex_new P regex = Inl e)")
    case True
    then have "error_index e = Some i \<and> \<not> rule_valid P (RawRegex regex ws u)"
      using 3(2) by (cases "build_plan i ws u :: 'e config_error + check_plan")
        (auto simp: rule_valid_def dest: build_plan_index build_plan_invalid)
    then show ?thesis by (intro exI [of _ 0]) simp
  next
    case False
    then obtain p re where p: "build_plan i ws u = (Inr p :: 'e config_error + check_plan)" "regex_new P regex = Inr re"
      by (cases "build_plan i ws u :: 'e config_error + check_plan"; cases "regex_new P regex") auto
    then have "rule_valid P (RawRegex regex ws u)"
      by (simp add: rule_valid_def build_plan_valid)
    moreover obtain j where "j < length raws" "error_index e = Some (Suc i + j)"
      "\<not> rule_valid P (raws ! j)" "\<forall>k < j. rule_valid P (raws ! k)"
      using 3(1) [OF p] 3(2) p by auto
    ultimately show ?thesis by (intro exI [of _ "Suc j"]) (auto simp: less_Suc_eq_0_disj)
  qed
next
  case (4 P i ws u raws rules dp)
  show ?case
  proof (cases "build_plan i ws u :: 'e config_error + check_plan")
    case (Inl a)
    then have "error_index e = Some i \<and> \<not> rule_valid P (RawDefault ws u)"
      using 4(2) by (auto simp: rule_valid_def dest: build_plan_index build_plan_invalid)
    then show ?thesis by (intro exI [of _ 0]) simp
  next
    case (Inr p)
    then have "rule_valid P (RawDefault ws u)"
      by (simp add: rule_valid_def build_plan_valid)
    moreover obtain j where "j < length raws" "error_index e = Some (Suc i + j)"
      "\<not> rule_valid P (raws ! j)" "\<forall>k < j. rule_valid P (raws ! k)"
      using 4(1) [OF Inr] 4(2) Inr by auto
    ultimately show ?thesis by (intro exI [of _ "Suc j"]) (auto simp: less_Suc_eq_0_disj)
  qed
qed

text \<open>The rules that a valid list becomes.\<close>

fun loaded :: "('ci, 'rs, 're, 'e) platform \<Rightarrow> raw_sasl_limit_rule \<Rightarrow> 're sasl_limit_rule option" where
  "loaded P (RawUsername n ws u) =
     Some \<lparr>matcher = Username n, plan = raw_plan (RawUsername n ws u)\<rparr>"
| "loaded P (RawRegex r ws u) =
     (case regex_new P r of Inl _ \<Rightarrow> None
      | Inr re \<Rightarrow> Some \<lparr>matcher = Regex re, plan = raw_plan (RawRegex r ws u)\<rparr>)"
| "loaded P (RawDefault ws u) = None"

definition last_default :: "check_plan option \<Rightarrow> raw_sasl_limit_rule list \<Rightarrow> check_plan option" where
  "last_default dp raws =
     (if filter is_default raws = [] then dp else Some (raw_plan (last (filter is_default raws))))"

lemma load_rules_valid:
  fixes P :: "('ci, 'rs, 're, 'e) platform"
  shows "\<forall>r \<in> set raws. rule_valid P r \<Longrightarrow>
    load_rules P i raws rules dp = Inr (rules @ List.map_filter (loaded P) raws, last_default dp raws)"
proof (induction P i raws rules dp rule: load_rules.induct)
  case (1 P i rules dp)
  then show ?case by (simp add: last_default_def List.map_filter_simps)
next
  case (2 P i username ws u raws rules dp)
  have "username \<noteq> []" and p: "build_plan i ws u = (Inr (raw_plan (RawUsername username ws u)) :: 'e config_error + check_plan)"
    using "2.prems" by (auto simp: rule_valid_def build_plan_valid raw_plan_def)
  then show ?case using "2.IH" [OF _ p] "2.prems"
    by (simp add: last_default_def List.map_filter_simps)
next
  case (3 P i regex ws u raws rules dp)
  obtain re where re: "regex_new P regex = Inr re"
    and p: "build_plan i ws u = (Inr (raw_plan (RawRegex regex ws u)) :: 'e config_error + check_plan)"
    using "3.prems" by (auto simp: rule_valid_def build_plan_valid raw_plan_def)
  then show ?case using "3.IH" [OF p re] "3.prems"
    by (simp add: last_default_def List.map_filter_simps)
next
  case (4 P i ws u raws rules dp)
  have p: "build_plan i ws u = (Inr (raw_plan (RawDefault ws u)) :: 'e config_error + check_plan)"
    using "4.prems" by (auto simp: rule_valid_def build_plan_valid raw_plan_def)
  then show ?case using "4.IH" [OF p] "4.prems"
    by (simp add: last_default_def List.map_filter_simps)
qed

lemma load_rules_Inr:
  fixes P :: "('ci, 'rs, 're, 'e) platform"
  shows "load_rules P i raws rules dp = Inr (rs, d) \<longleftrightarrow>
     (\<forall>r \<in> set raws. rule_valid P r) \<and> rs = rules @ List.map_filter (loaded P) raws \<and> d = last_default dp raws"
proof
  assume ok: "load_rules P i raws rules dp = Inr (rs, d)"
  have "\<forall>r \<in> set raws. rule_valid P r" using ok
  proof (induction P i raws rules dp rule: load_rules.induct)
    case (1 P i rules dp)
    then show ?case by simp
  next
    case (2 P i username ws u raws rules dp)
    then obtain p where p: "username \<noteq> []" "build_plan i ws u = (Inr p :: 'e config_error + check_plan)"
      and rest: "load_rules P (Suc i) raws (rules @ [\<lparr>matcher = Username username, plan = p\<rparr>]) dp = Inr (rs, d)"
      by (auto simp: case_sum_eq_Inr split: if_splits)
    from "2.IH" [OF p rest] p show ?case by (simp add: rule_valid_def build_plan_valid)
  next
    case (3 P i regex ws u raws rules dp)
    then obtain p re where p: "build_plan i ws u = (Inr p :: 'e config_error + check_plan)" "regex_new P regex = Inr re"
      and rest: "load_rules P (Suc i) raws (rules @ [\<lparr>matcher = Regex re, plan = p\<rparr>]) dp = Inr (rs, d)"
      by (cases "regex_new P regex") (auto simp: case_sum_eq_Inr)
    from "3.IH" [OF p rest] p show ?case by (simp add: rule_valid_def build_plan_valid)
  next
    case (4 P i ws u raws rules dp)
    then obtain p where p: "build_plan i ws u = (Inr p :: 'e config_error + check_plan)"
      and rest: "load_rules P (Suc i) raws rules (Some p) = Inr (rs, d)"
      by (auto simp: case_sum_eq_Inr)
    from "4.IH" [OF p rest] p show ?case by (simp add: rule_valid_def build_plan_valid)
  qed
  with ok load_rules_valid [OF this, of i rules dp]
  show "(\<forall>r \<in> set raws. rule_valid P r) \<and> rs = rules @ List.map_filter (loaded P) raws \<and> d = last_default dp raws"
    by simp
next
  assume "(\<forall>r \<in> set raws. rule_valid P r) \<and> rs = rules @ List.map_filter (loaded P) raws \<and> d = last_default dp raws"
  then show "load_rules P i raws rules dp = Inr (rs, d)" using load_rules_valid [of raws P i rules dp] by simp
qed

lemma one_default:
  assumes "length (filter is_default raws) = 1"
  obtains d where "filter is_default raws = [d]" and "last_default dp raws = Some (raw_plan d)"
  using assms by (auto simp: last_default_def length_Suc_conv)

lemma last_default_one: "length (filter is_default raws) = Suc 0 \<Longrightarrow> last_default dp raws \<noteq> None"
  by (auto simp: last_default_def)

lemma config_load_no_panic: "config_load P path \<noteq> None"
  by (auto simp: config_load_def raw_config_of_def Let_def load_rules_Inr
      dest: last_default_one [where dp = None] split: sum.split prod.split option.split)

definition config_of :: "config_doc \<Rightarrow> 'ci \<Rightarrow> 're sasl_limit_rule list \<Rightarrow> check_plan \<Rightarrow> ('ci, 're) config" where
  "config_of doc info rules p = \<lparr>
     redis_connection_info = info,
     redis_key_prefix = or_default default_key_prefix (doc_key_prefix doc),
     on_redis_error = or_default Defer (doc_on_redis_error doc),
     warn_on_unauthenticated = or_default True (doc_warn_on_unauthenticated doc),
     socket = doc_socket doc,
     control_socket = doc_control_socket doc,
     sasl_limits = rules,
     default_plan = p\<rparr>"

text \<open>A document that passes the checks on the rules and the sockets.\<close>

definition doc_valid :: "('ci, 'rs, 're, 'e) platform \<Rightarrow> config_doc \<Rightarrow> bool" where
  "doc_valid P doc \<longleftrightarrow> length (filter is_default (doc_sasl doc)) = 1 \<and>
     (\<forall>r \<in> set (doc_sasl doc). rule_valid P r) \<and>
     \<not> path_opt_eq (doc_control_socket doc) (Some (doc_socket doc))"

lemma config_load_parsed:
  fixes P :: "('ci, 'rs, 're, 'e) platform"
  assumes "read_to_string P path = Inr text" and "toml_from_str P text = Inr doc"
    and "resolve_connection P (raw_redis (raw_config_of doc)) = Inr info"
  shows "config_load P path = Some (Inr c) \<longleftrightarrow> doc_valid P doc \<and>
    (\<exists>d. filter is_default (doc_sasl doc) = [d] \<and>
      c = config_of doc info (List.map_filter (loaded P) (doc_sasl doc)) (raw_plan d))"
proof (cases "length (filter is_default (doc_sasl doc)) = 1")
  case False
  then show ?thesis using assms
    by (auto simp: config_load_def raw_config_of_def Let_def doc_valid_def)
next
  case True
  then obtain d where d: "filter is_default (doc_sasl doc) = [d]"
    "last_default None (doc_sasl doc) = Some (raw_plan d)" by (rule one_default)
  have rules: "load_rules P 0 (doc_sasl doc) [] None = Inr (rs, q) \<longleftrightarrow> (\<forall>r \<in> set (doc_sasl doc). rule_valid P r)
    \<and> rs = List.map_filter (loaded P) (doc_sasl doc) \<and> q = Some (raw_plan d)" for rs q
    using load_rules_Inr [of P 0 "doc_sasl doc" "[]" None rs q] d(2) by auto
  show ?thesis
  proof (cases "load_rules P 0 (doc_sasl doc) [] None")
    case (Inl e)
    then have "\<not> (\<forall>r \<in> set (doc_sasl doc). rule_valid P r)" using rules by force
    then show ?thesis using Inl assms True
      by (auto simp: config_load_def raw_config_of_def Let_def doc_valid_def)
  next
    case (Inr rq)
    then have ok: "\<forall>r \<in> set (doc_sasl doc). rule_valid P r"
      and rq: "rq = (List.map_filter (loaded P) (doc_sasl doc), Some (raw_plan d))"
      using rules [of "fst rq" "snd rq"] by (auto simp: prod_eq_iff)
    show ?thesis using Inr assms True d(1) ok
      by (auto simp: config_load_def raw_config_of_def Let_def doc_valid_def rq config_of_def
          default_redis_error_action_def default_warn_on_unauthenticated_def)
  qed
qed

lemma config_load_Inr:
  fixes P :: "('ci, 'rs, 're, 'e) platform"
  assumes "config_load P path = Some (Inr c)"
  obtains body doc info d where "read_to_string P path = Inr body" and "toml_from_str P body = Inr doc"
    and "resolve_connection P (raw_redis (raw_config_of doc)) = Inr info"
    and "doc_valid P doc" and "filter is_default (doc_sasl doc) = [d]"
    and "c = config_of doc info (List.map_filter (loaded P) (doc_sasl doc)) (raw_plan d)"
proof -
  from assms obtain body doc info where
    parsed: "read_to_string P path = Inr body" "toml_from_str P body = Inr doc"
      "resolve_connection P (raw_redis (raw_config_of doc)) = Inr info"
    by (auto simp: config_load_def Let_def split: sum.splits)
  with assms config_load_parsed [OF parsed] that show thesis by blast
qed

text \<open>Every plan of a loaded config is fit for the script.\<close>

lemma raw_plan_ok: "rule_valid P r \<Longrightarrow> plan_wf (raw_plan r) \<and> plan_fine (raw_plan r)"
proof -
  assume "rule_valid P r"
  then have "build_plan 0 (raw_windows r) (raw_unrestricted r) = (Inr (raw_plan r) :: 'a config_error + check_plan)"
    by (simp add: rule_valid_def build_plan_valid raw_plan_def)
  then show ?thesis by (rule build_plan_ok)
qed

lemma loaded_plan: "loaded P r = Some rule \<Longrightarrow> plan rule = raw_plan r"
  by (cases r) (auto split: sum.splits)

lemma loaded_matches:
  "raw_name_ok P r \<Longrightarrow> loaded P r = None \<longleftrightarrow> is_default r"
  "loaded P r = Some rule \<Longrightarrow> rule_matches P rule u \<longleftrightarrow> raw_applies P u r"
  by (cases r; auto simp: rule_matches_def split: sum.splits)+

lemma find_map_filter_loaded:
  "\<forall>r \<in> set raws. rule_valid P r \<Longrightarrow>
    map_option plan (find (\<lambda>rule. rule_matches P rule u) (List.map_filter (loaded P) raws))
    = map_option raw_plan (find (raw_applies P u) (filter (\<lambda>r. \<not> is_default r) raws))"
proof (induction raws)
  case Nil
  then show ?case by simp
next
  case (Cons r raws)
  then have r: "loaded P r = None \<longleftrightarrow> is_default r"
    using loaded_matches(1) [of P r] by (simp add: rule_valid_def)
  show ?case
  proof (cases "loaded P r")
    case None
    then show ?thesis using Cons r by simp
  next
    case (Some rule)
    then show ?thesis using Cons r loaded_plan [OF Some] loaded_matches(2) [OF Some] by simp
  qed
qed

lemma find_append: "find P (xs @ ys) = (case find P xs of None \<Rightarrow> find P ys | Some x \<Rightarrow> Some x)"
  by (induction xs) auto

lemma filter_single: "filter Q xs = [d] \<Longrightarrow> d \<in> set xs \<and> Q d"
  by (auto simp: filter_eq_Cons_iff)

lemma find_Some_mem: "find Q xs = Some x \<Longrightarrow> x \<in> set xs \<and> Q x"
  by (auto simp: find_Some_iff)

lemma default_applies: "is_default d \<Longrightarrow> raw_applies P u d"
  by (cases d) auto

lemma plan_for_first_match:
  fixes P :: "('ci, 'rs, 're, 'e) platform"
  assumes "doc_valid P doc" and "filter is_default (doc_sasl doc) = [d]"
    and "c = config_of doc info (List.map_filter (loaded P) (doc_sasl doc)) (raw_plan d)"
  shows "find (raw_applies P u) (filter (\<lambda>r. \<not> is_default r) (doc_sasl doc) @ filter is_default (doc_sasl doc)) = Some r
    \<Longrightarrow> plan_for P c u = raw_plan r"
proof -
  have "is_default d" using filter_single [OF assms(2)] by simp
  then have d: "raw_applies P u d" by (rule default_applies)
  have "map_option plan (find (\<lambda>rule. rule_matches P rule u) (sasl_limits c))
      = map_option raw_plan (find (raw_applies P u) (filter (\<lambda>r. \<not> is_default r) (doc_sasl doc)))"
    using find_map_filter_loaded [of "doc_sasl doc" P u] assms(1,3)
    by (simp add: doc_valid_def config_of_def)
  moreover assume "find (raw_applies P u)
    (filter (\<lambda>r. \<not> is_default r) (doc_sasl doc) @ filter is_default (doc_sasl doc)) = Some r"
  ultimately show "plan_for P c u = raw_plan r"
    using assms(2,3) d
    by (auto simp: plan_for_def find_append config_of_def split: option.splits)
qed

lemma config_plans_ok:
  assumes "config_load P path = Some (Inr c)"
  shows "plan_wf (plan_for P c u) \<and> plan_fine (plan_for P c u)"
proof -
  obtain doc info d where doc: "doc_valid P doc" "filter is_default (doc_sasl doc) = [d]"
    "c = config_of doc info (List.map_filter (loaded P) (doc_sasl doc)) (raw_plan d)"
    using config_load_Inr [OF assms] by metis
  let ?rs = "filter (\<lambda>r. \<not> is_default r) (doc_sasl doc) @ filter is_default (doc_sasl doc)"
  have d: "d \<in> set (doc_sasl doc)" "is_default d"
    using filter_single [OF doc(2)] by auto
  then have "raw_applies P u d" by (simp add: default_applies)
  then obtain r where r: "find (raw_applies P u) ?rs = Some r"
    using d by (cases "find (raw_applies P u) ?rs") (auto simp: find_None_iff)
  have "r \<in> set (doc_sasl doc)" using find_Some_mem [OF r] by auto
  with doc(1) have "rule_valid P r" by (simp add: doc_valid_def)
  with plan_for_first_match [OF doc r] raw_plan_ok show ?thesis by metis
qed

end
