(* ===== verification/Protocol.thy ===== *)
theory Protocol
  imports Config
begin

text \<open>
  \<open>src/protocol.rs\<close>: reading one Postfix policy request, its attributes, and writing the
  answer. The buffered reader belongs to tokio: \<open>read_line\<close> under a \<open>take\<close> limit is a
  parameter, with the documented behaviour as the laws of the locale \<open>line_reader\<close>.
\<close>

section \<open>Reading lines\<close>

datatype io_error = InvalidData | UnexpectedEof | Other_IO string

text \<open>\<open>read_line n r\<close> reads at most \<open>n\<close> bytes, up to and including the first newline.\<close>

type_synonym 'r line_source = "nat \<Rightarrow> 'r \<Rightarrow> (io_error + string) \<times> 'r"

fun first_line :: "string \<Rightarrow> string" where
  "first_line [] = []"
| "first_line (c # cs) = (if c = CHR 0x0A then [c] else c # first_line cs)"

text \<open>
  \<open>pending\<close> is what is still to come until the peer closes; \<open>healthy\<close> says that it comes
  without an I/O error and as text. A line never exceeds the limit, healthy or not.
\<close>

locale line_reader =
  fixes read_line :: "'r line_source" and pending :: "'r \<Rightarrow> string" and healthy :: "'r \<Rightarrow> bool"
  assumes bounded: "read_line n r = (Inr line, r') \<Longrightarrow> length line \<le> n"
    and reads: "healthy r \<Longrightarrow>
      \<exists>r'. read_line n r = (Inr (first_line (take n (pending r))), r') \<and> healthy r'
        \<and> pending r' = drop (length (first_line (take n (pending r)))) (pending r)"

lemma first_line_prefix: "\<exists>rest. s = first_line s @ rest"
  by (induction s) auto

lemma length_first_line: "length (first_line s) \<le> length s"
  by (induction s) auto

text \<open>A stream whose bytes are all known.\<close>

definition buffer_read_line :: "string line_source" where
  "buffer_read_line n s = (let line = first_line (take n s) in (Inr line, drop (length line) s))"

interpretation buffer: line_reader buffer_read_line "\<lambda>s. s" "\<lambda>_. True"
proof
  fix n and r r' line :: string
  assume "buffer_read_line n r = (Inr line, r')"
  then have "line = first_line (take n r)" by (simp add: buffer_read_line_def Let_def)
  then show "length line \<le> n" using length_first_line [of "take n r"] by simp
qed (simp add: buffer_read_line_def Let_def)

section \<open>Text operations\<close>

text \<open>\<open>str::split_once\<close> with a character.\<close>

fun split_once :: "char \<Rightarrow> string \<Rightarrow> (string \<times> string) option" where
  "split_once c [] = None"
| "split_once c (x # xs) =
     (if x = c then Some ([], xs) else map_option (\<lambda>(k, v). (x # k, v)) (split_once c xs))"

text \<open>\<open>str::trim\<close> removes Unicode white space at both ends: its UTF-8 encodings.\<close>

definition WHITE_SPACE :: "string list" where
  "WHITE_SPACE =
     [[CHR 0x09], [CHR 0x0A], [CHR 0x0B], [CHR 0x0C], [CHR 0x0D], [CHR 0x20],
      [CHR 0xC2, CHR 0x85], [CHR 0xC2, CHR 0xA0], [CHR 0xE1, CHR 0x9A, CHR 0x80],
      [CHR 0xE2, CHR 0x80, CHR 0x80], [CHR 0xE2, CHR 0x80, CHR 0x81], [CHR 0xE2, CHR 0x80, CHR 0x82],
      [CHR 0xE2, CHR 0x80, CHR 0x83], [CHR 0xE2, CHR 0x80, CHR 0x84], [CHR 0xE2, CHR 0x80, CHR 0x85],
      [CHR 0xE2, CHR 0x80, CHR 0x86], [CHR 0xE2, CHR 0x80, CHR 0x87], [CHR 0xE2, CHR 0x80, CHR 0x88],
      [CHR 0xE2, CHR 0x80, CHR 0x89], [CHR 0xE2, CHR 0x80, CHR 0x8A], [CHR 0xE2, CHR 0x80, CHR 0xA8],
      [CHR 0xE2, CHR 0x80, CHR 0xA9], [CHR 0xE2, CHR 0x80, CHR 0xAF], [CHR 0xE2, CHR 0x81, CHR 0x9F],
      [CHR 0xE3, CHR 0x80, CHR 0x80]]"

definition leading :: "string list \<Rightarrow> string \<Rightarrow> string option" where
  "leading ws s = find (\<lambda>w. w \<noteq> [] \<and> take (length w) s = w) ws"

lemma leading_Some: "leading ws s = Some w \<Longrightarrow> w \<noteq> [] \<and> w \<in> set ws \<and> (\<exists>t. s = w @ t)"
  unfolding leading_def by (metis (mono_tags, lifting) append_take_drop_id find_Some_iff nth_mem)

function trim_start :: "string list \<Rightarrow> string \<Rightarrow> string" where
  "trim_start ws s = (case leading ws s of None \<Rightarrow> s | Some w \<Rightarrow> trim_start ws (drop (length w) s))"
  by auto
termination
  by (relation "measure (\<lambda>(ws, s). length s)") (auto dest!: leading_Some)

declare trim_start.simps [simp del]

definition trim :: "string \<Rightarrow> string" where
  "trim s = rev (trim_start (map rev WHITE_SPACE) (rev (trim_start WHITE_SPACE s)))"

section \<open>Requests\<close>

definition MAX_REQUEST_BYTES :: nat where
  "MAX_REQUEST_BYTES = 64 * 1024"

record request =
  attributes :: "string \<rightharpoonup> string"

definition add_attribute :: "string \<Rightarrow> (string \<rightharpoonup> string) \<Rightarrow> (string \<rightharpoonup> string)" where
  "add_attribute trimmed attrs =
     (case split_once (CHR ''='') trimmed of
        None \<Rightarrow> attrs
      | Some (key, value) \<Rightarrow> attrs(key \<mapsto> value))"

text \<open>
  The loop of \<open>Request::read_from\<close> with the remaining limit of the \<open>take\<close> adapter. \<open>None\<close>
  would be a loop that never ends.
\<close>

partial_function (option) read_loop :: "'r line_source \<Rightarrow> (string \<rightharpoonup> string) \<Rightarrow> nat \<Rightarrow> 'r \<Rightarrow>
    ((io_error + request option) \<times> 'r) option" where
  "read_loop read_line attrs lim r =
     (case read_line lim r of
        (Inl e, r') \<Rightarrow> Some (Inl e, r')
      | (Inr line, r') \<Rightarrow>
          let left = lim - length line
          in if line = [] then Some (if left = 0 then Inl InvalidData else Inr None, r')
             else if last line \<noteq> CHR 0x0A
             then Some (Inl (if left = 0 then InvalidData else UnexpectedEof), r')
             else
               let trimmed = trim_line_end line
               in if trimmed = [] then Some (Inr (Some \<lparr>attributes = attrs\<rparr>), r')
                  else read_loop read_line (add_attribute trimmed attrs) left r')"

definition read_from :: "'r line_source \<Rightarrow> 'r \<Rightarrow> ((io_error + request option) \<times> 'r) option" where
  "read_from read_line r = read_loop read_line Map.empty MAX_REQUEST_BYTES r"

definition sasl_username :: "request \<Rightarrow> string option" where
  "sasl_username req =
     (case map_option trim (attributes req ''sasl_username'') of
        None \<Rightarrow> None
      | Some s \<Rightarrow> if s = [] then None else Some s)"

definition recipient_count :: "request \<Rightarrow> u32 option" where
  "recipient_count req = Option.bind (attributes req ''recipient_count'') parse_u32"

definition protocol_state :: "request \<Rightarrow> string option" where
  "protocol_state req = attributes req ''protocol_state''"

text \<open>The attribute counts only in a build with the integration-tests feature.\<close>

definition now_override :: "bool \<Rightarrow> request \<Rightarrow> u64 option" where
  "now_override integration_tests req =
     (if integration_tests then Option.bind (attributes req ''now_override'') parse_u64 else None)"

definition write_action :: "string \<Rightarrow> string" where
  "write_action action = ''action='' @ action @ [CHR 0x0A, CHR 0x0A]"

section \<open>Lemmas\<close>

lemma trim_start_no_prefix: "leading ws (trim_start ws s) = None"
proof (induction ws s rule: trim_start.induct)
  case (1 ws s)
  then show ?case by (subst trim_start.simps) (auto split: option.split)
qed

lemma trim_start_suffix: "\<exists>p. s = p @ trim_start ws s"
proof (induction ws s rule: trim_start.induct)
  case (1 ws s)
  show ?case
  proof (cases "leading ws s")
    case None
    then show ?thesis by (subst trim_start.simps) simp
  next
    case (Some w)
    then obtain t where t: "s = w @ t" using leading_Some by blast
    with "1.IH" [OF Some] obtain p where "t = p @ trim_start ws t" by auto
    then have "s = (w @ p) @ trim_start ws s"
      using Some t by (subst trim_start.simps) simp
    then show ?thesis by blast
  qed
qed

text \<open>What is left is a middle part of the text that no white space ends, and none starts.\<close>

lemma leading_append:
  assumes "leading ws (s @ t) = None"
  shows "leading ws s = None"
proof (rule ccontr)
  assume "leading ws s \<noteq> None"
  then obtain w where "w \<noteq> []" "w \<in> set ws" "\<exists>r. s = w @ r" using leading_Some by blast
  then show False using assms by (auto simp: leading_def find_None_iff)
qed

lemma trim_clean:
  obtains p q where "s = p @ trim s @ q" and "leading WHITE_SPACE (trim s) = None"
    and "leading (map rev WHITE_SPACE) (rev (trim s)) = None"
proof -
  let ?a = "trim_start WHITE_SPACE s" and ?r = "map rev WHITE_SPACE"
  obtain p where p: "s = p @ ?a" using trim_start_suffix by blast
  obtain q where "rev ?a = q @ trim_start ?r (rev ?a)" using trim_start_suffix by blast
  then have "rev (rev ?a) = rev (q @ trim_start ?r (rev ?a))" by (rule arg_cong)
  then have a: "?a = trim s @ rev q" by (simp add: trim_def)
  moreover have "leading WHITE_SPACE (trim s) = None"
    using leading_append [of WHITE_SPACE "trim s" "rev q"] trim_start_no_prefix [of WHITE_SPACE s] a by simp
  moreover have "leading ?r (rev (trim s)) = None"
    using trim_start_no_prefix [of ?r "rev ?a"] by (simp add: trim_def)
  ultimately show thesis using that [of p "rev q"] p by simp
qed

lemma trim_line_end_prefix:
  obtains r where "s = trim_line_end s @ r" and "set r \<subseteq> {CHR 0x0A, CHR 0x0D}"
    and "trim_line_end s = [] \<or> last (trim_line_end s) \<notin> {CHR 0x0A, CHR 0x0D}"
proof -
  let ?Q = "\<lambda>c. c = CHR 0x0A \<or> c = CHR 0x0D"
  have s: "s = trim_line_end s @ rev (takeWhile ?Q (rev s))"
    unfolding trim_line_end_def by (metis rev_append rev_rev_ident takeWhile_dropWhile_id)
  have r: "set (rev (takeWhile ?Q (rev s))) \<subseteq> {CHR 0x0A, CHR 0x0D}"
    by (auto dest: set_takeWhileD)
  have "dropWhile ?Q (rev s) \<noteq> [] \<Longrightarrow> \<not> ?Q (hd (dropWhile ?Q (rev s)))" by (rule hd_dropWhile)
  then have "trim_line_end s = [] \<or> last (trim_line_end s) \<notin> {CHR 0x0A, CHR 0x0D}"
    by (auto simp: trim_line_end_def last_rev)
  with s r that show thesis by blast
qed

lemma split_once_Some: "split_once c s = Some (k, v) \<longleftrightarrow> s = k @ c # v \<and> c \<notin> set k"
proof (induction s arbitrary: k)
  case Nil
  then show ?case by simp
next
  case (Cons x xs)
  then show ?case by (cases k) auto
qed

lemma sasl_username_nonempty: "sasl_username req = Some u \<Longrightarrow> u \<noteq> []"
  by (auto simp: sasl_username_def split: option.splits if_splits)

lemma first_line_whole: "CHR 0x0A \<notin> set s \<Longrightarrow> first_line s = s"
  by (induction s) auto

lemma first_line_newline: "CHR 0x0A \<notin> set l \<Longrightarrow> first_line (l @ CHR 0x0A # s) = l @ [CHR 0x0A]"
  by (induction l) auto

lemma trim_line_end_newline [simp]: "trim_line_end (l @ [CHR 0x0A]) = trim_line_end l"
  by (simp add: trim_line_end_def)

lemma trim_line_end_plain:
  "l = [] \<or> last l \<notin> {CHR 0x0A, CHR 0x0D} \<Longrightarrow> trim_line_end l = l"
  by (cases l rule: rev_cases) (auto simp: trim_line_end_def)

subsection \<open>Whole requests\<close>

text \<open>How Postfix writes a request: one \<open>name=value\<close> line per attribute and an empty line.\<close>

definition attribute_line :: "string \<times> string \<Rightarrow> string" where
  "attribute_line = (\<lambda>(k, v). k @ CHR ''='' # v)"

definition encode_request :: "(string \<times> string) list \<Rightarrow> string" where
  "encode_request kvs = concat (map (\<lambda>kv. attribute_line kv @ [CHR 0x0A]) kvs) @ [CHR 0x0A]"

definition attribute_ok :: "string \<times> string \<Rightarrow> bool" where
  "attribute_ok = (\<lambda>(k, v). CHR ''='' \<notin> set k \<and> CHR 0x0A \<notin> set k \<and> CHR 0x0A \<notin> set v \<and>
     (v = [] \<or> last v \<noteq> CHR 0x0D))"

text \<open>No line of the text that a newline ends is empty.\<close>

inductive blank_free :: "string \<Rightarrow> bool" where
  last_part: "CHR 0x0A \<notin> set s \<Longrightarrow> blank_free s"
| full_line: "CHR 0x0A \<notin> set l \<Longrightarrow> trim_line_end l \<noteq> [] \<Longrightarrow> blank_free s \<Longrightarrow> blank_free (l @ CHR 0x0A # s)"

lemma attribute_line_ok:
  assumes "attribute_ok kv"
  shows "CHR 0x0A \<notin> set (attribute_line kv)" and "trim_line_end (attribute_line kv) = attribute_line kv"
    and "attribute_line kv \<noteq> []" and "add_attribute (attribute_line kv) attrs = attrs(fst kv \<mapsto> snd kv)"
proof -
  obtain k v where kv: "kv = (k, v)" by (cases kv)
  show "CHR 0x0A \<notin> set (attribute_line kv)" "attribute_line kv \<noteq> []"
    using assms by (auto simp: kv attribute_ok_def attribute_line_def)
  have "last (attribute_line kv) = (if v = [] then CHR ''='' else last v)"
    by (simp add: kv attribute_line_def)
  moreover have "last v \<noteq> CHR 0x0A" if "v \<noteq> []"
    using assms last_in_set [OF that] by (auto simp: kv attribute_ok_def)
  ultimately show "trim_line_end (attribute_line kv) = attribute_line kv"
    using assms by (intro trim_line_end_plain) (auto simp: kv attribute_ok_def)
  have "split_once (CHR ''='') (attribute_line kv) = Some (k, v)"
    using assms by (simp add: split_once_Some kv attribute_ok_def attribute_line_def)
  then show "add_attribute (attribute_line kv) attrs = attrs(fst kv \<mapsto> snd kv)"
    by (simp add: add_attribute_def kv)
qed

subsection \<open>Reading ends\<close>

context line_reader
begin

lemma read_loop_total: "\<exists>res r'. read_loop read_line attrs lim r = Some (res, r')"
proof (induction lim arbitrary: attrs r rule: less_induct)
  case (less lim)
  obtain res r' where read: "read_line lim r = (res, r')" by (cases "read_line lim r")
  show ?case
  proof (cases res)
    case (Inl e)
    then show ?thesis using read by (subst read_loop.simps) simp
  next
    case (Inr line)
    with read have "length line \<le> lim" using bounded by blast
    then have "line \<noteq> [] \<Longrightarrow> lim - length line < lim" by (cases line) auto
    from less.IH [OF this] show ?thesis
      using read Inr by (subst read_loop.simps) (auto simp: Let_def)
  qed
qed

lemma read_loop_consumed:
  "healthy r \<Longrightarrow> read_loop read_line attrs lim r = Some (res, r') \<Longrightarrow>
    healthy r' \<and> (\<exists>used. length used \<le> lim \<and> pending r = used @ pending r')"
proof (induction lim arbitrary: attrs r rule: less_induct)
  case (less lim)
  let ?line = "first_line (take lim (pending r))"
  from reads [OF less.prems(1), of lim] obtain r1 where
    r1: "read_line lim r = (Inr ?line, r1)" "healthy r1" "pending r1 = drop (length ?line) (pending r)"
    by blast
  have line: "length ?line \<le> lim" using bounded r1(1) by blast
  obtain t where "take lim (pending r) = ?line @ t" using first_line_prefix by blast
  then have pre: "pending r = ?line @ pending r1"
    using r1(3) by (metis append.assoc append_take_drop_id append_eq_conv_conj)
  show ?case
  proof (cases "?line = [] \<or> last ?line \<noteq> CHR 0x0A \<or> trim_line_end ?line = []")
    case True
    then have "r' = r1" using less.prems(2) r1(1)
      by (subst (asm) read_loop.simps) (auto simp: Let_def split: if_splits)
    then show ?thesis using pre line r1(2) by blast
  next
    case False
    then have "read_loop read_line (add_attribute (trim_line_end ?line) attrs) (lim - length ?line) r1
        = Some (res, r')"
      using less.prems(2) r1(1) by (subst (asm) read_loop.simps) (auto simp: Let_def)
    moreover have "lim - length ?line < lim" using False line by (cases ?line) auto
    ultimately obtain used where "healthy r'" "length used \<le> lim - length ?line" "pending r1 = used @ pending r'"
      using less.IH r1(2) by blast
    then show ?thesis using pre line
      by (intro conjI exI [of _ "?line @ used"]) auto
  qed
qed

text \<open>One turn of the loop on a full line.\<close>

lemma read_loop_line:
  assumes "healthy r" and "take lim (pending r) = l @ CHR 0x0A # s" and "CHR 0x0A \<notin> set l"
  obtains r1 where "healthy r1" and "pending r1 = drop (Suc (length l)) (pending r)"
    and "take (lim - Suc (length l)) (pending r1) = s"
    and "read_loop read_line attrs lim r =
      (if trim_line_end l = [] then Some (Inr (Some \<lparr>attributes = attrs\<rparr>), r1)
       else read_loop read_line (add_attribute (trim_line_end l) attrs) (lim - Suc (length l)) r1)"
proof -
  have line: "first_line (take lim (pending r)) = l @ [CHR 0x0A]"
    using assms(2,3) first_line_newline by simp
  with reads [OF assms(1), of lim] obtain r1 where
    r1: "read_line lim r = (Inr (l @ [CHR 0x0A]), r1)" "healthy r1"
      "pending r1 = drop (Suc (length l)) (pending r)" by auto
  have "take (lim - Suc (length l)) (pending r1) = drop (Suc (length l)) (take lim (pending r))"
    by (simp add: r1(3) drop_take)
  then have "take (lim - Suc (length l)) (pending r1) = s" by (simp add: assms(2))
  with r1 that show thesis by (subst (asm) read_loop.simps) (simp add: Let_def)
qed

lemma read_loop_encoded:
  "healthy r \<Longrightarrow> pending r = encode_request kvs @ rest \<Longrightarrow> length (encode_request kvs) \<le> lim \<Longrightarrow>
    \<forall>kv \<in> set kvs. attribute_ok kv \<Longrightarrow>
    \<exists>r'. read_loop read_line attrs lim r = Some (Inr (Some \<lparr>attributes = attrs ++ map_of (rev kvs)\<rparr>), r')
      \<and> healthy r' \<and> pending r' = rest"
proof (induction kvs arbitrary: attrs lim r)
  case Nil
  then have "take lim (pending r) = [] @ CHR 0x0A # take (lim - 1) rest"
    by (simp add: encode_request_def take_Cons split: nat.split)
  from read_loop_line [OF Nil.prems(1) this, of attrs] Nil.prems(2) show ?case
    by (auto simp: encode_request_def trim_line_end_def)
next
  case (Cons kv kvs)
  let ?l = "attribute_line kv"
  have ok: "attribute_ok kv" using Cons.prems(4) by simp
  have enc: "encode_request (kv # kvs) = ?l @ CHR 0x0A # encode_request kvs"
    by (simp add: encode_request_def)
  define left where "left = lim - Suc (length ?l)"
  have lim: "lim = length ?l + Suc left" using Cons.prems(3) by (simp add: enc left_def)
  have "take lim (pending r) = ?l @ CHR 0x0A # take left (encode_request kvs @ rest)"
    using Cons.prems(2) by (simp add: enc lim)
  from read_loop_line [OF Cons.prems(1) this attribute_line_ok(1) [OF ok], of attrs]
  obtain r1 where r1: "healthy r1" "pending r1 = drop (Suc (length ?l)) (pending r)"
    "read_loop read_line attrs lim r
      = read_loop read_line (attrs(fst kv \<mapsto> snd kv)) (lim - Suc (length ?l)) r1"
    using attribute_line_ok(2-4) [OF ok] by auto
  have "pending r1 = encode_request kvs @ rest" using r1(2) Cons.prems(2) enc by simp
  moreover have "length (encode_request kvs) \<le> lim - Suc (length ?l)" using Cons.prems(3) enc by simp
  ultimately obtain r' where
    r': "read_loop read_line (attrs(fst kv \<mapsto> snd kv)) (lim - Suc (length ?l)) r1
      = Some (Inr (Some \<lparr>attributes = attrs(fst kv \<mapsto> snd kv) ++ map_of (rev kvs)\<rparr>), r')"
    "healthy r'" "pending r' = rest"
    using Cons.IH [OF r1(1)] Cons.prems(4) by (meson list.set_intros(2))
  have "attrs ++ map_of (rev (kv # kvs)) = attrs(fst kv \<mapsto> snd kv) ++ map_of (rev kvs)"
    by (cases kv) simp
  then show ?case using r1(3) r' by metis
qed

lemma read_loop_blank_free:
  "blank_free body \<Longrightarrow> healthy r \<Longrightarrow> body = take lim (pending r) \<Longrightarrow>
    \<exists>r'. read_loop read_line attrs lim r = Some
      (if lim \<le> length (pending r) then Inl InvalidData
       else if pending r = [] \<or> last (pending r) = CHR 0x0A then Inr None
       else Inl UnexpectedEof, r')"
proof (induction body arbitrary: attrs lim r rule: blank_free.induct)
  case (last_part s)
  then have line: "first_line (take lim (pending r)) = s" by (simp add: first_line_whole)
  then obtain r1 where r1: "read_line lim r = (Inr s, r1)"
    using reads [OF last_part(2), of lim] by auto
  show ?case
  proof (cases "s = []")
    case True
    then show ?thesis using r1 last_part(3) by (subst read_loop.simps) (auto simp: Let_def)
  next
    case False
    then have "last s \<in> set s" by simp
    then have "last s \<noteq> CHR 0x0A" using last_part(1) by metis
    then have "\<not> lim \<le> length (pending r) \<Longrightarrow> last (pending r) \<noteq> CHR 0x0A"
      using last_part(3) by simp
    then show ?thesis using r1 last_part(3) False \<open>last s \<noteq> CHR 0x0A\<close>
      by (subst read_loop.simps) (auto simp: Let_def min_def)
  qed
next
  case (full_line l s)
  from read_loop_line [OF full_line.prems(1) full_line.prems(2) [symmetric] full_line.hyps(1), of attrs]
    full_line.hyps(2)
  obtain r1 where r1: "healthy r1" "pending r1 = drop (Suc (length l)) (pending r)"
    "take (lim - Suc (length l)) (pending r1) = s"
    "read_loop read_line attrs lim r
      = read_loop read_line (add_attribute (trim_line_end l) attrs) (lim - Suc (length l)) r1"
    by auto
  have len: "Suc (length l) \<le> lim" "Suc (length l) \<le> length (pending r)"
    using arg_cong [OF full_line.prems(2), of length] by auto
  have pre: "take (Suc (length l)) (pending r) = l @ [CHR 0x0A]"
    using arg_cong [OF full_line.prems(2), of "take (Suc (length l))"] len by (simp add: min_def)
  then have whole: "pending r = (l @ [CHR 0x0A]) @ pending r1"
    using r1(2) by (metis append_take_drop_id)
  have "last (pending r) = (if pending r1 = [] then CHR 0x0A else last (pending r1))" "pending r \<noteq> []"
    by (simp_all add: whole)
  moreover have "lim \<le> length (pending r) \<longleftrightarrow> lim - Suc (length l) \<le> length (pending r1)"
    using len r1(2) by auto
  ultimately have same: "(if lim \<le> length (pending r) then Inl InvalidData
       else if pending r = [] \<or> last (pending r) = CHR 0x0A then Inr None else Inl UnexpectedEof)
    = (if lim - Suc (length l) \<le> length (pending r1) then Inl InvalidData
       else if pending r1 = [] \<or> last (pending r1) = CHR 0x0A then Inr (None :: request option)
       else Inl UnexpectedEof)"
    by (simp only: if_cancel if_True if_False split: if_splits) auto
  show ?case unfolding same r1(4) by (rule full_line.IH [OF r1(1) r1(3) [symmetric]])
qed

end

end
