(* ===== verification/Daemon.thy ===== *)
theory Daemon
  imports Protocol Limiter
begin

text \<open>
  The request path of \<open>src/bin/postfix-ratelimitd.rs\<close>: the counters and their periodic report,
  throttled logging, the decision on one request (\<open>handle_request\<close>), one turn of a policy
  connection (\<open>handle_connection\<close>) and the accounting of the connection limit in the accept
  loop. A counter is an \<open>AtomicU64\<close>: its \<open>fetch_add\<close> wraps around.
\<close>

section \<open>Answers\<close>

definition ACTION_DUNNO :: string where
  "ACTION_DUNNO = ''dunno''"

definition ACTION_SERVICE_UNAVAILABLE :: string where
  "ACTION_SERVICE_UNAVAILABLE = ''defer_if_permit Service temporarily unavailable''"

definition ACTION_RATE_LIMITED :: string where
  "ACTION_RATE_LIMITED = ''defer_if_permit Recipient rate limit exceeded, retry later''"

definition ACTION_MISCONFIGURED :: string where
  "ACTION_MISCONFIGURED =
     ''defer_if_permit Rate limit service misconfigured or broken, check ''
     @ ''smtpd_data_restrictions/smtpd_end_of_data_restrictions wiring - see ''
     @ ''the README''"

definition EXPECTED_PROTOCOL_STATES :: "string list" where
  "EXPECTED_PROTOCOL_STATES = [''DATA'', ''END-OF-MESSAGE'']"

lemma actions_differ [simp]:
  "ACTION_DUNNO \<noteq> ACTION_SERVICE_UNAVAILABLE" "ACTION_DUNNO \<noteq> ACTION_RATE_LIMITED"
  "ACTION_DUNNO \<noteq> ACTION_MISCONFIGURED" "ACTION_SERVICE_UNAVAILABLE \<noteq> ACTION_DUNNO"
  "ACTION_RATE_LIMITED \<noteq> ACTION_DUNNO" "ACTION_MISCONFIGURED \<noteq> ACTION_DUNNO"
  "ACTION_RATE_LIMITED \<noteq> ACTION_SERVICE_UNAVAILABLE" "ACTION_SERVICE_UNAVAILABLE \<noteq> ACTION_RATE_LIMITED"
  "ACTION_RATE_LIMITED \<noteq> ACTION_MISCONFIGURED" "ACTION_MISCONFIGURED \<noteq> ACTION_RATE_LIMITED"
  by (simp_all add: ACTION_DUNNO_def ACTION_SERVICE_UNAVAILABLE_def ACTION_RATE_LIMITED_def
      ACTION_MISCONFIGURED_def)

section \<open>Counters and logging\<close>

record stats =
  accepted :: u64
  rejected :: u64
  failed_deferred :: u64
  failed_permitted :: u64
  unauthenticated :: u64
  malformed :: u64
  misconfigured :: u64
  connections_accepted :: u64
  connections_rejected :: u64
  accept_errors :: u64

definition zero_stats :: stats where
  "zero_stats = \<lparr>accepted = 0, rejected = 0, failed_deferred = 0, failed_permitted = 0,
     unauthenticated = 0, malformed = 0, misconfigured = 0, connections_accepted = 0,
     connections_rejected = 0, accept_errors = 0\<rparr>"

text \<open>The lines that the daemon logs, with the values they carry.\<close>

datatype (discs_sels) log_line =
    Unexpected_Protocol_State "string option"
  | No_Sasl_Username
  | No_Recipient_Count string
  | Accepted_Message string u32
  | Rejected_Message string u32
  | Valkey_Error string redis_error
  | Suppressing string
  | Request_Read_Error io_error
  | Response_Write_Error string
  | Accept_Error
  | Control_Accept_Error
  | At_Connection_Limit
  | Control_At_Connection_Limit
  | Stats_Line u64 "u64 list" nat

definition STATS_INTERVAL :: duration where
  "STATS_INTERVAL = from_mins 1"

definition LOG_SUPPRESSION_LIMIT :: u64 where
  "LOG_SUPPRESSION_LIMIT = 5"

definition report_stats :: "nat \<Rightarrow> stats \<Rightarrow> log_line list \<times> stats" where
  "report_stats active st =
     ([Stats_Line (as_secs STATS_INTERVAL)
         [accepted st, rejected st, failed_deferred st, failed_permitted st, unauthenticated st,
          malformed st, connections_accepted st, connections_rejected st, accept_errors st]
         active],
      st\<lparr>accepted := 0, rejected := 0, failed_deferred := 0, failed_permitted := 0,
        unauthenticated := 0, malformed := 0, connections_accepted := 0, connections_rejected := 0,
        accept_errors := 0, misconfigured := 0\<rparr>)"

text \<open>The counter after the call and the lines it logs; \<open>log_line\<close> is what the closure logs.\<close>

definition log_throttled :: "u64 \<Rightarrow> string \<Rightarrow> log_line \<Rightarrow> u64 \<times> log_line list" where
  "log_throttled counter kind line =
     (counter + 1,
      if counter < LOG_SUPPRESSION_LIMIT then [line]
      else if counter = LOG_SUPPRESSION_LIMIT then [Suppressing kind]
      else [])"

section \<open>Deciding on a request\<close>

record 'cn limiter =
  connection_manager :: 'cn
  limiter_key_prefix :: string

definition WIRING :: string where
  "WIRING = ''smtpd_data_restrictions/smtpd_end_of_data_restrictions wiring''"

text \<open>
  The feature flag of the build, the libraries, the commands of a connection and the fate of
  the script invocation are parameters. The result is the action, the log lines, the counters
  and the server.
\<close>

definition handle_request :: "bool \<Rightarrow> ('ci, 'rs, 're, 'e) platform \<Rightarrow> ('cn \<Rightarrow> 's server_cmds) \<Rightarrow>
    'txt json_text \<Rightarrow> delivery \<Rightarrow> request \<Rightarrow> ('ci, 're) config \<Rightarrow> 'cn limiter \<Rightarrow> stats \<Rightarrow> 's \<Rightarrow>
    string \<times> log_line list \<times> stats \<times> 's" where
  "handle_request tests P V codec net req c lm st s =
     (if (case protocol_state req of None \<Rightarrow> False | Some state \<Rightarrow> state \<notin> set EXPECTED_PROTOCOL_STATES)
      then (case log_throttled (misconfigured st) WIRING (Unexpected_Protocol_State (protocol_state req)) of
              (k, ls) \<Rightarrow> (ACTION_MISCONFIGURED, ls, st\<lparr>misconfigured := k\<rparr>, s))
      else
     (case sasl_username req of
        None \<Rightarrow>
          if warn_on_unauthenticated c
          then (case log_throttled (unauthenticated st) ''unauthenticated request'' No_Sasl_Username of
                  (k, ls) \<Rightarrow> (ACTION_DUNNO, ls, st\<lparr>unauthenticated := k\<rparr>, s))
          else (ACTION_DUNNO, [], st\<lparr>unauthenticated := unauthenticated st + 1\<rparr>, s)
      | Some user \<Rightarrow>
     (case recipient_count req of
        None \<Rightarrow>
          (case log_throttled (misconfigured st) WIRING (No_Recipient_Count user) of
             (k, ls) \<Rightarrow> (ACTION_MISCONFIGURED, ls, st\<lparr>misconfigured := k\<rparr>, s))
      | Some n \<Rightarrow>
     (case check_sasl (V (connection_manager lm)) codec net (limiter_key_prefix lm) user n
             (plan_for P c user) (now_override tests req) s of
        (Inr True, s') \<Rightarrow>
          (ACTION_DUNNO, [Accepted_Message user n], st\<lparr>accepted := accepted st + 1\<rparr>, s')
      | (Inr False, s') \<Rightarrow>
          (ACTION_RATE_LIMITED, [Rejected_Message user n], st\<lparr>rejected := rejected st + 1\<rparr>, s')
      | (Inl err, s') \<Rightarrow>
          (case on_redis_error c of
             Defer \<Rightarrow>
               (case log_throttled (failed_deferred st) ''valkey error checking rate limit'' (Valkey_Error user err) of
                  (k, ls) \<Rightarrow> (ACTION_SERVICE_UNAVAILABLE, ls, st\<lparr>failed_deferred := k\<rparr>, s'))
           | Permit \<Rightarrow>
               (case log_throttled (failed_permitted st) ''valkey error checking rate limit'' (Valkey_Error user err) of
                  (k, ls) \<Rightarrow> (ACTION_DUNNO, ls, st\<lparr>failed_permitted := k\<rparr>, s')))))))"

section \<open>One turn of a policy connection\<close>

record ('ci, 're, 'cn) runtime_state =
  config_of_state :: "('ci, 're) config"
  limiter_of_state :: "'cn limiter"

text \<open>
  What a turn is exposed to: whether the shutdown token fires while the connection waits for a
  request, the fate of the script invocation, and whether the response can be written.
\<close>

record turn_env =
  cancelled :: bool
  network :: delivery
  write_error :: "string option"

text \<open>How a turn leaves the connection, and what it wrote to it.\<close>

datatype 'r turn = Closed string | Continues 'r string

text \<open>One pass through the loop of \<open>handle_connection\<close>; \<open>None\<close> is a read that never returns.\<close>

definition connection_turn :: "bool \<Rightarrow> ('ci, 'rs, 're, 'e) platform \<Rightarrow> ('cn \<Rightarrow> 's server_cmds) \<Rightarrow>
    'txt json_text \<Rightarrow> 'r line_source \<Rightarrow> turn_env \<Rightarrow> ('ci, 're, 'cn) runtime_state \<Rightarrow> 'r \<Rightarrow> stats \<Rightarrow> 's \<Rightarrow>
    ('r turn \<times> log_line list \<times> stats \<times> 's) option" where
  "connection_turn tests P V codec read_line env current r st s =
     (if cancelled env then Some (Closed [], [], st, s)
      else
     (case read_from read_line r of
        None \<Rightarrow> None
      | Some (Inl err, r') \<Rightarrow>
          Some (Closed [], [Request_Read_Error err], st\<lparr>malformed := malformed st + 1\<rparr>, s)
      | Some (Inr None, r') \<Rightarrow> Some (Closed [], [], st, s)
      | Some (Inr (Some req), r') \<Rightarrow>
          (case handle_request tests P V codec (network env) req (config_of_state current)
                  (limiter_of_state current) st s of
             (action, ls, st', s') \<Rightarrow>
               (case write_error env of
                  Some err \<Rightarrow> Some (Closed [], ls @ [Response_Write_Error err], st', s')
                | None \<Rightarrow> Some (Continues r' (write_action action), ls, st', s')))))"

section \<open>The connection limit\<close>

definition MAX_CONNECTIONS :: nat where
  "MAX_CONNECTIONS = 512"

datatype connection_kind = Policy | Control

text \<open>
  The accept loop after \<open>accept\<close> returned a stream: the slot is taken first and given back
  when the limit was reached. The last result says whether a handler is spawned.
\<close>

definition admit_connection :: "connection_kind \<Rightarrow> nat \<Rightarrow> stats \<Rightarrow> nat \<times> stats \<times> log_line list \<times> bool" where
  "admit_connection kind active st =
     (let previous = active; taken = active + 1
      in if MAX_CONNECTIONS \<le> previous
         then (case kind of
                 Policy \<Rightarrow>
                   (case log_throttled (connections_rejected st) ''concurrent connection limit rejection''
                           At_Connection_Limit of
                      (k, ls) \<Rightarrow> (taken - 1, st\<lparr>connections_rejected := k\<rparr>, ls, False))
               | Control \<Rightarrow> (taken - 1, st, [Control_At_Connection_Limit], False))
         else (case kind of
                 Policy \<Rightarrow>
                   (taken, st\<lparr>connections_accepted := connections_accepted st + 1\<rparr>, [], True)
               | Control \<Rightarrow> (taken, st, [], True)))"

text \<open>A failed \<open>accept\<close>: only the policy listener's failures are counted.\<close>

definition accept_failed :: "connection_kind \<Rightarrow> stats \<Rightarrow> stats \<times> log_line list" where
  "accept_failed kind st =
     (case kind of
        Policy \<Rightarrow> (st\<lparr>accept_errors := accept_errors st + 1\<rparr>, [Accept_Error])
      | Control \<Rightarrow> (st, [Control_Accept_Error]))"

text \<open>Dropping a \<open>ConnectionGuard\<close>.\<close>

definition release_connection :: "nat \<Rightarrow> nat" where
  "release_connection active = active - 1"

section \<open>Lemmas\<close>

text \<open>A request that gets as far as the limiter.\<close>

definition checkable :: "request \<Rightarrow> (string \<times> u32) option" where
  "checkable req =
     (if (case protocol_state req of None \<Rightarrow> False | Some state \<Rightarrow> state \<notin> set EXPECTED_PROTOCOL_STATES)
      then None
      else (case (sasl_username req, recipient_count req) of
              (Some user, Some n) \<Rightarrow> Some (user, n)
            | _ \<Rightarrow> None))"

lemma handle_request_unchecked:
  assumes "checkable req = None" and "handle_request tests P V codec net req c lm st s = (action, ls, st', s')"
  shows "s' = s"
  using assms
  by (auto simp: handle_request_def checkable_def log_throttled_def split: if_splits option.splits)

lemma handle_request_checked:
  assumes "checkable req = Some (user, n)"
    and "handle_request tests P V codec net req c lm st s = (action, ls, st', s')"
  shows "\<exists>r. check_sasl (V (connection_manager lm)) codec net (limiter_key_prefix lm) user n
      (plan_for P c user) (now_override tests req) s = (r, s')
    \<and> action = (case r of Inr True \<Rightarrow> ACTION_DUNNO | Inr False \<Rightarrow> ACTION_RATE_LIMITED
        | Inl e \<Rightarrow> (case on_redis_error c of Defer \<Rightarrow> ACTION_SERVICE_UNAVAILABLE | Permit \<Rightarrow> ACTION_DUNNO))"
  using assms
  by (auto simp: handle_request_def checkable_def log_throttled_def
      split: if_splits option.splits prod.splits sum.splits bool.splits failure_action.splits)

text \<open>The counters of the request outcomes, together.\<close>

definition outcomes :: "stats \<Rightarrow> u64" where
  "outcomes st = accepted st + rejected st + failed_deferred st + failed_permitted st
     + unauthenticated st + misconfigured st"

lemma handle_request_outcomes:
  assumes "handle_request tests P V codec net req c lm st s = (action, ls, st', s')"
  shows "outcomes st' = outcomes st + 1"
  using assms
  by (auto simp: handle_request_def log_throttled_def outcomes_def
      split: if_splits option.splits prod.splits sum.splits bool.splits failure_action.splits)

text \<open>\<open>n\<close> calls in a row, from the counter \<open>k\<close>.\<close>

fun throttled_run :: "nat \<Rightarrow> u64 \<Rightarrow> string \<Rightarrow> log_line \<Rightarrow> u64 \<times> log_line list" where
  "throttled_run 0 k kind line = (k, [])"
| "throttled_run (Suc n) k kind line =
     (case log_throttled k kind line of
        (k', ls) \<Rightarrow> (case throttled_run n k' kind line of (k'', ls') \<Rightarrow> (k'', ls @ ls')))"

lemma throttled_run_lines:
  "unat k + n < 2 ^ 64 \<Longrightarrow> throttled_run n k kind line =
    (k + of_nat n, replicate (min n (5 - unat k)) line
      @ (if unat k \<le> 5 \<and> 5 < unat k + n then [Suppressing kind] else []))"
proof (induction n arbitrary: k)
  case 0
  then show ?case by simp
next
  case (Suc n)
  have k: "unat (k + 1) = unat k + 1" using Suc.prems by (simp add: unat_word_ariths)
  have cmp: "k < 5 \<longleftrightarrow> unat k < 5" "k = 5 \<longleftrightarrow> unat k = 5"
    by (simp_all add: word_less_nat_alt word_unat_eq_iff)
  have "5 - unat k = Suc (4 - unat k)" if "unat k < 5" using that by simp
  then show ?case using Suc.IH [of "k + 1"] Suc.prems k
    by (auto simp: log_throttled_def LOG_SUPPRESSION_LIMIT_def cmp)
qed

end
