(* ===== verification/Control_Socket.thy ===== *)
theory Control_Socket
  imports Daemon Limiter_Correct "HOL-Library.AList"
begin

text \<open>
  The admin control socket, \<open>src/control/mod.rs\<close> and \<open>src/control/rpc.rs\<close>: JSON-RPC requests
  on newline-terminated lines, answered by \<open>ping\<close> and by the status of a sender's windows. The
  JSON-RPC envelope comes from the crate json_rpc_types and the JSON text from serde_json:
  both are the operations of \<open>rpc_lib\<close>, a parameter. Arithmetic is the release build's, in
  which \<open>u64\<close> and \<open>u32\<close> wrap around.
\<close>

section \<open>The envelope\<close>

datatype error_code = Rpc_Parse_Error | Invalid_Request | Method_Not_Found | Invalid_Params | Internal_Error

record 'id rpc_request =
  rpc_method :: string
  rpc_params :: "json option"
  rpc_id :: "'id option"

type_synonym rpc_error = "error_code \<times> string"

record 'id rpc_response =
  payload :: "rpc_error + json"
  response_id :: "'id option"

text \<open>
  The text of the parser's errors, the two directions of the envelope's coding, the coding of a
  numeric id, the quoting of \<open>Debug\<close> and the pretty printer.
\<close>

record 'id rpc_lib =
  value_of_line :: "string \<Rightarrow> string + json"
  request_of_value :: "json \<Rightarrow> string + 'id rpc_request"
  response_text :: "'id rpc_response \<Rightarrow> string"
  request_text :: "'id rpc_request \<Rightarrow> string"
  response_of_text :: "string \<Rightarrow> string + 'id rpc_response"
  params_error :: "json \<Rightarrow> string"
  id_num :: "u64 \<Rightarrow> 'id"
  debug_quote :: "string \<Rightarrow> string"

definition success :: "'id option \<Rightarrow> json \<Rightarrow> 'id rpc_response" where
  "success i j = \<lparr>payload = Inr j, response_id = i\<rparr>"

definition failure :: "'id option \<Rightarrow> error_code \<Rightarrow> string \<Rightarrow> 'id rpc_response" where
  "failure i code message = \<lparr>payload = Inl (code, message), response_id = i\<rparr>"

text \<open>A method name is held in a buffer of 32 bytes; a longer one panics (\<open>None\<close>).\<close>

definition METHOD_NAME_BYTES :: nat where
  "METHOD_NAME_BYTES = 32"

definition new_request :: "'id rpc_lib \<Rightarrow> string \<Rightarrow> json \<Rightarrow> u64 \<Rightarrow> 'id rpc_request option" where
  "new_request L meth params i =
     (if length meth \<le> METHOD_NAME_BYTES
      then Some \<lparr>rpc_method = meth, rpc_params = Some params, rpc_id = Some (id_num L i)\<rparr>
      else None)"

section \<open>Methods\<close>

definition PING_METHOD :: string where "PING_METHOD = ''ping''"
definition LIMITS_SASL_METHOD :: string where "LIMITS_SASL_METHOD = ''limits.sasl''"

definition new_ping_request :: "'id rpc_lib \<Rightarrow> u64 \<Rightarrow> 'id rpc_request option" where
  "new_ping_request L i = new_request L PING_METHOD JNull i"

definition limits_sasl_params_json :: "string \<Rightarrow> json" where
  "limits_sasl_params_json username = JObj [(''username'', JStr username)]"

text \<open>The derived \<open>Deserialize\<close> takes an object, with unknown members ignored, or an array.\<close>

fun limits_sasl_params :: "json \<Rightarrow> string option" where
  "limits_sasl_params (JObj kvs) =
     (case jget ''username'' (JObj kvs) of Some (JStr u) \<Rightarrow> Some u | _ \<Rightarrow> None)"
| "limits_sasl_params (JArr [JStr u]) = Some u"
| "limits_sasl_params _ = None"

definition new_limits_sasl_request :: "'id rpc_lib \<Rightarrow> string \<Rightarrow> u64 \<Rightarrow> 'id rpc_request option" where
  "new_limits_sasl_request L username i =
     new_request L LIMITS_SASL_METHOD (limits_sasl_params_json username) i"

record window_status =
  ws_span_secs :: u64
  ws_limit :: u32
  ws_current_total :: u32

datatype status_response = Unrestricted bool | Limited u64 "window_status list"

definition window_status_json :: "window_status \<Rightarrow> json" where
  "window_status_json w = JObj [(''span_secs'', JInt (uint (ws_span_secs w))),
     (''limit'', JInt (uint (ws_limit w))), (''current_total'', JInt (uint (ws_current_total w)))]"

fun status_json :: "status_response \<Rightarrow> json" where
  "status_json (Unrestricted b) = JObj [(''unrestricted'', JBool b)]"
| "status_json (Limited computed_at ws) =
     JObj [(''computed_at'', JInt (uint computed_at)), (''windows'', JArr (map window_status_json ws))]"

section \<open>The status of a sender\<close>

text \<open>The reply of HGETALL as a \<open>HashMap<u64, u32>\<close>; \<open>None\<close> is a conversion error.\<close>

fun hash_map_of_reply :: "string list \<Rightarrow> (u64 \<times> u32) list \<Rightarrow> (u64 \<times> u32) list option" where
  "hash_map_of_reply [] acc = Some acc"
| "hash_map_of_reply [f] acc = None"
| "hash_map_of_reply (f # v # rest) acc =
     (case (parse_u64 f, parse_u32 v) of
        (Some i, Some n) \<Rightarrow> hash_map_of_reply rest (AList.update i n acc)
      | _ \<Rightarrow> None)"

fun read_buckets :: "'s server_cmds \<Rightarrow> 's \<Rightarrow> string \<Rightarrow> string \<Rightarrow> u64 list \<Rightarrow>
    redis_error + (u64 \<times> u32) list list" where
  "read_buckets V s key_prefix ident [] = Inr []"
| "read_buckets V s key_prefix ident (bs # sizes) =
     (case cmd_hgetall V s (bucket_key key_prefix ident bs) of
        Inl e \<Rightarrow> Inl (Command_Error e)
      | Inr reply \<Rightarrow>
          (case hash_map_of_reply reply [] of
             None \<Rightarrow> Inl Unexpected_Return_Type
           | Some fmap \<Rightarrow>
               (case read_buckets V s key_prefix ident sizes of
                  Inl e \<Rightarrow> Inl e
                | Inr rest \<Rightarrow> Inr (fmap # rest))))"

definition saturating_sub :: "u64 \<Rightarrow> u64 \<Rightarrow> u64" where
  "saturating_sub a b = (if a < b then 0 else a - b)"

definition status_total :: "u64 \<Rightarrow> u64 \<Rightarrow> (u64 \<times> u32) list \<Rightarrow> u32" where
  "status_total bucket_sz oldest fmap =
     sum_list (map snd (filter (\<lambda>(i, n). (i + 1) * bucket_sz > oldest) fmap))"

text \<open>Out-of-range indexing panics: \<open>None\<close>.\<close>

fun status_windows :: "u64 \<Rightarrow> u64 list \<Rightarrow> (u64 \<times> u32) list list \<Rightarrow> planned_window list \<Rightarrow>
    window_status list option" where
  "status_windows now sizes bks [] = Some []"
| "status_windows now sizes bks (w # ws) =
     (case (nth_opt sizes (key_index w), nth_opt bks (key_index w)) of
        (Some bs, Some fmap) \<Rightarrow>
          map_option ((#) \<lparr>ws_span_secs = span_secs w, ws_limit = limit w,
              ws_current_total = status_total bs (saturating_sub now (span_secs w)) fmap\<rparr>)
            (status_windows now sizes bks ws)
      | _ \<Rightarrow> None)"

definition compute_sasl_status :: "'s server_cmds \<Rightarrow> string \<Rightarrow> check_plan \<Rightarrow> string \<Rightarrow> 's \<Rightarrow>
    (redis_error + status_response) option" where
  "compute_sasl_status V key_prefix p username s =
     (if bucket_sizes p = [] then Some (Inr (Unrestricted True))
      else
     (case cmd_time V s of
        Inl e \<Rightarrow> Some (Inl (Command_Error e))
      | Inr [] \<Rightarrow> None
      | Inr (secs # _) \<Rightarrow>
     (case parse_u64 secs of
        None \<Rightarrow> Some (Inl Unexpected_Return_Type)
      | Some now \<Rightarrow>
     (case read_buckets V s key_prefix (identity SASL_IDENTITY_KIND username) (bucket_sizes p) of
        Inl e \<Rightarrow> Some (Inl e)
      | Inr bks \<Rightarrow>
          map_option (\<lambda>ws. Inr (Limited now ws)) (status_windows now (bucket_sizes p) bks (windows p))))))"

section \<open>Dispatch\<close>

definition dispatch :: "'id rpc_lib \<Rightarrow> ('ci, 'rs, 're, 'e) platform \<Rightarrow> ('cn \<Rightarrow> 's server_cmds) \<Rightarrow>
    ('ci, 're, 'cn) runtime_state \<Rightarrow> 'id rpc_request \<Rightarrow> 's \<Rightarrow> 'id rpc_response option" where
  "dispatch L P V state req s =
     (if rpc_method req = PING_METHOD then Some (success (rpc_id req) (JStr ''pong''))
      else if rpc_method req = LIMITS_SASL_METHOD
      then
        let value = (case rpc_params req of None \<Rightarrow> JNull | Some j \<Rightarrow> j)
        in case limits_sasl_params value of
             None \<Rightarrow> Some (failure (rpc_id req) Invalid_Params (''invalid params: '' @ params_error L value))
           | Some username \<Rightarrow>
               let plan = plan_for P (config_of_state state) username;
                   lm = limiter_of_state state
               in map_option
                    (\<lambda>r. case r of
                       Inr status \<Rightarrow> success (rpc_id req) (status_json status)
                     | Inl err \<Rightarrow> failure (rpc_id req) Internal_Error ''error checking status'')
                    (compute_sasl_status (V (connection_manager lm)) (limiter_key_prefix lm) plan username s)
      else Some (failure (rpc_id req) Method_Not_Found (''unknown method '' @ debug_quote L (rpc_method req))))"

definition handle_line :: "'id rpc_lib \<Rightarrow> ('ci, 'rs, 're, 'e) platform \<Rightarrow> ('cn \<Rightarrow> 's server_cmds) \<Rightarrow>
    ('ci, 're, 'cn) runtime_state \<Rightarrow> string \<Rightarrow> 's \<Rightarrow> 'id rpc_response option" where
  "handle_line L P V state line s =
     (case value_of_line L line of
        Inl err \<Rightarrow> Some (failure None Rpc_Parse_Error (''invalid JSON: '' @ err))
      | Inr value \<Rightarrow>
          (case request_of_value L value of
             Inl err \<Rightarrow> Some (failure None Invalid_Request (''invalid request: '' @ err))
           | Inr request \<Rightarrow> dispatch L P V state request s))"

section \<open>One turn of a control connection\<close>

definition MAX_CONTROL_REQUEST_BYTES :: nat where
  "MAX_CONTROL_REQUEST_BYTES = 64 * 1024"

definition write_response :: "'id rpc_lib \<Rightarrow> 'id rpc_response \<Rightarrow> string" where
  "write_response L response = response_text L response @ [CHR 0x0A]"

text \<open>
  The turn's result: \<open>Closed\<close> with a last reply, which may be empty, or \<open>Continues\<close>. A failing
  write ends the connection. \<open>None\<close> is a panic.
\<close>

definition control_turn :: "'id rpc_lib \<Rightarrow> ('ci, 'rs, 're, 'e) platform \<Rightarrow> ('cn \<Rightarrow> 's server_cmds) \<Rightarrow>
    'r line_source \<Rightarrow> bool \<Rightarrow> bool \<Rightarrow> ('ci, 're, 'cn) runtime_state \<Rightarrow> 'r \<Rightarrow> 's \<Rightarrow> 'r turn option" where
  "control_turn L P V read_line is_cancelled write_fails state r s =
     (if is_cancelled then Some (Closed [])
      else
     (case read_line MAX_CONTROL_REQUEST_BYTES r of
        (Inl err, r') \<Rightarrow> Some (Closed [])
      | (Inr line, r') \<Rightarrow>
          if line = [] then Some (Closed [])
          else if last line \<noteq> CHR 0x0A
          then
            let message =
                  (if MAX_CONTROL_REQUEST_BYTES - length line = 0 then ''control request exceeded max size''
                   else ''connection closed mid-request'')
            in Some (Closed (if write_fails then [] else write_response L (failure None Invalid_Request message)))
          else
            map_option
              (\<lambda>response. if write_fails then Closed [] else Continues r' (write_response L response))
              (handle_line L P V state (trim_line_end line) s)))"

section \<open>Framing of a control connection\<close>

context line_reader
begin

text \<open>A newline within the cap delimits a request; only its bytes are consumed.\<close>

lemma control_turn_line:
  assumes "healthy r" and "pending r = body @ CHR 0x0A # rest" and "CHR 0x0A \<notin> set body"
    and "length body < MAX_CONTROL_REQUEST_BYTES"
    and "handle_line L P V state (trim_line_end body) s = Some response"
  shows "\<exists>r'. control_turn L P V read_line False False state r s = Some (Continues r' (write_response L response))
    \<and> healthy r' \<and> pending r' = rest"
proof -
  have "take MAX_CONTROL_REQUEST_BYTES (pending r)
      = body @ CHR 0x0A # take (MAX_CONTROL_REQUEST_BYTES - Suc (length body)) rest"
    using assms(2,4) by (simp add: take_Cons' Suc_diff_Suc)
  then have "first_line (take MAX_CONTROL_REQUEST_BYTES (pending r)) = body @ [CHR 0x0A]"
    using first_line_newline [OF assms(3)] by simp
  with reads [OF assms(1), of MAX_CONTROL_REQUEST_BYTES] assms(2) obtain r' where
    "read_line MAX_CONTROL_REQUEST_BYTES r = (Inr (body @ [CHR 0x0A]), r')" "healthy r'" "pending r' = rest"
    by auto
  moreover have "trim_line_end (body @ [CHR 0x0A]) = trim_line_end body" by (simp add: trim_line_end_def)
  ultimately show ?thesis using assms(5) by (auto simp: control_turn_def)
qed

text \<open>Without one the connection ends, with an error reply unless the peer closed between lines.\<close>

lemma control_turn_unfinished:
  assumes "healthy r" and "CHR 0x0A \<notin> set (take MAX_CONTROL_REQUEST_BYTES (pending r))"
  shows "control_turn L P V read_line False False state r s = Some (Closed
    (if pending r = [] then []
     else write_response L (failure None Invalid_Request
       (if MAX_CONTROL_REQUEST_BYTES \<le> length (pending r) then ''control request exceeded max size''
        else ''connection closed mid-request''))))"
proof -
  let ?line = "take MAX_CONTROL_REQUEST_BYTES (pending r)"
  obtain r' where r': "read_line MAX_CONTROL_REQUEST_BYTES r = (Inr ?line, r')"
    using reads [OF assms(1), of MAX_CONTROL_REQUEST_BYTES] first_line_whole [OF assms(2)] by auto
  have "?line = [] \<longleftrightarrow> pending r = []" by (simp add: MAX_CONTROL_REQUEST_BYTES_def)
  moreover have "?line \<noteq> [] \<Longrightarrow> last ?line \<noteq> CHR 0x0A" using assms(2) last_in_set by metis
  moreover have "MAX_CONTROL_REQUEST_BYTES - length ?line = 0 \<longleftrightarrow> MAX_CONTROL_REQUEST_BYTES \<le> length (pending r)"
    by auto
  ultimately show ?thesis by (auto simp: control_turn_def r' Let_def)
qed

end

section \<open>The status agrees with enforcement\<close>

lemma update_absent: "k \<notin> fst ` set ps \<Longrightarrow> AList.update k v ps = ps @ [(k, v)]"
  by (induction ps) auto

lemma of_nat_u64_inj: "a < 2 ^ 64 \<Longrightarrow> b < 2 ^ 64 \<Longrightarrow> (of_nat a :: u64) = of_nat b \<longleftrightarrow> a = b"
  by (simp add: word_unat_eq_iff unat_of_nat)

lemma hash_map_of_reply_decimal:
  "distinct bl \<Longrightarrow> \<forall>b \<in> set bl. b < 2 ^ 64 \<and> c b < 2 ^ 32 \<Longrightarrow>
    \<forall>b \<in> set bl. of_nat b \<notin> fst ` set acc \<Longrightarrow>
    hash_map_of_reply (flat_pairs (map (\<lambda>b. (show_nat b, show_nat (c b))) bl)) acc
      = Some (acc @ map (\<lambda>b. (of_nat b, of_nat (c b))) bl)"
proof (induction bl arbitrary: acc)
  case Nil
  then show ?case by simp
next
  case (Cons b bl)
  have "parse_u64 (show_nat b) = Some (of_nat b)" "parse_u32 (show_nat (c b)) = Some (of_nat (c b))"
    using Cons.prems(2) by (simp_all add: parse_u64_def parse_u32_def decimal_simps)
  moreover have "of_nat d \<noteq> (of_nat b :: u64)" if "d \<in> set bl" for d
    using Cons.prems(1,2) that of_nat_u64_inj [of d b] by auto
  ultimately show ?case
    using Cons.IH [of "acc @ [(of_nat b, of_nat (c b))]"] Cons.prems by (auto simp: update_absent)
qed

text \<open>The comparison on words, for bucket ids and times that leave room in 64 bits.\<close>

lemma status_cutoff:
  fixes bs span :: u64
  assumes "(b + 1) * unat bs < 2 ^ 64" and "now < 2 ^ 64" and "0 < unat bs"
  shows "saturating_sub (of_nat now) span < (of_nat b + 1) * bs \<longleftrightarrow> now < (b + 1) * unat bs + unat span"
proof -
  have "(b + 1) * 1 \<le> (b + 1) * unat bs" using assms(3) by (intro mult_le_mono2) simp
  then have "b + 1 < 2 ^ 64" using assms(1) by (metis le_less_trans mult_1_right)
  then have b1: "unat (of_nat b + 1 :: u64) = b + 1" by (simp add: unat_word_ariths unat_of_nat)
  have prod: "unat ((of_nat b + 1) * bs) = (b + 1) * unat bs"
    using assms(1) unfolding unat_word_ariths(2) b1 by simp
  have now: "unat (of_nat now :: u64) = now" using assms(2) by (simp add: unat_of_nat)
  have sub: "unat (saturating_sub (of_nat now) span) = now - unat span"
    using now by (auto simp: saturating_sub_def word_less_nat_alt unat_sub word_le_nat_alt)
  show ?thesis
    unfolding word_less_nat_alt prod sub using assms(3) by auto
qed

lemma status_total_decimal:
  assumes "\<forall>b \<in> set bl. (b + 1) * unat bs < 2 ^ 64" and "now < 2 ^ 64" and "0 < unat bs"
  shows "status_total bs (saturating_sub (of_nat now) span) (map (\<lambda>b. (of_nat b, of_nat (c b))) bl)
    = of_nat (sum_list (map c (filter (\<lambda>b. now < (b + 1) * unat bs + unat span) bl)))"
  using assms(1)
proof (induction bl)
  case Nil
  then show ?case by (simp add: status_total_def)
next
  case (Cons b bl)
  then show ?case using status_cutoff [of b bs now span] assms(2,3)
    by (simp add: status_total_def)
qed

text \<open>A live bucket holds no more than the limit of the window that keeps it.\<close>

lemma live_bucket_bounded:
  assumes adm: "admitted (plan_admits p) H" and live: "live_bucket (unat bs) (unat R) H b"
    and w: "w \<in> set (windows p)" "bucket_sizes p ! key_index w = bs" "span_secs w = R"
  shows "logged H (\<lambda>t. t div unat bs = b) < 2 ^ 32"
proof -
  from live obtain H' t n where H: "H = H' @ [(t, n)]"
    by (cases H rule: rev_cases) (auto simp: live_bucket_def)
  have "window_admits (unat bs) (unat R) (unat (limit w)) H' t n"
    using adm plan_admits_window [OF _ w(1)] w(2,3) by (auto simp: H)
  moreover have "logged H (\<lambda>t. t div unat bs = b) \<le> n + logged H' (\<lambda>t'. t < bucket_end (unat bs) t' + unat R)"
  proof -
    have "logged H' (\<lambda>t. t div unat bs = b) \<le> logged H' (\<lambda>t'. t < bucket_end (unat bs) t' + unat R)"
      using live by (intro logged_mono) (auto simp: live_bucket_def H bucket_end_def)
    then show ?thesis by (simp add: H)
  qed
  moreover have "unat (limit w) < 2 ^ 32"
    using unsigned_less [of "limit w", where ?'a = nat] by simp
  ultimately show ?thesis by (simp add: window_admits_def)
qed

text \<open>After its last message a window holds no more than its limit, buckets counted whole.\<close>

lemma window_total_bounded:
  assumes adm: "admitted (plan_admits p) H" and "\<forall>(t, n) \<in> set H. t \<le> now" and w: "w \<in> set (windows p)"
  shows "logged H (\<lambda>t. now < bucket_end (unat (bucket_sizes p ! key_index w)) t + unat (span_secs w))
    \<le> unat (limit w)"
proof (cases H rule: rev_cases)
  case Nil
  then show ?thesis by simp
next
  case (snoc H' e)
  obtain t n where e: "e = (t, n)" by (cases e)
  let ?P = "\<lambda>u t'. u < bucket_end (unat (bucket_sizes p ! key_index w)) t' + unat (span_secs w)"
  have "t \<le> now" using assms(2) snoc e by auto
  then have "logged H (?P now) \<le> logged H' (?P t) + n"
    using logged_mono [of H' "?P now" "?P t"] by (auto simp: snoc e)
  moreover have "window_admits (unat (bucket_sizes p ! key_index w)) (unat (span_secs w)) (unat (limit w)) H' t n"
    using adm plan_admits_window [OF _ w] by (auto simp: snoc e)
  ultimately show ?thesis by (simp add: window_admits_def)
qed

lemma read_buckets_all:
  "(\<And>bs. bs \<in> set sizes \<Longrightarrow> \<exists>reply fmap. cmd_hgetall V s (bucket_key pre ident bs) = Inr reply
      \<and> hash_map_of_reply reply [] = Some fmap \<and> Q bs fmap) \<Longrightarrow>
    \<exists>bks. read_buckets V s pre ident sizes = Inr bks \<and> list_all2 Q sizes bks"
proof (induction sizes)
  case Nil
  then show ?case by simp
next
  case (Cons bs sizes)
  obtain bks where "read_buckets V s pre ident sizes = Inr bks" "list_all2 Q sizes bks"
    using Cons.IH Cons.prems by (meson list.set_intros(2))
  moreover obtain reply fmap where "cmd_hgetall V s (bucket_key pre ident bs) = Inr reply"
    "hash_map_of_reply reply [] = Some fmap" "Q bs fmap"
    using Cons.prems [of bs] by auto
  ultimately show ?case by simp
qed

lemma status_windows_all:
  "(\<And>w. w \<in> set ws \<Longrightarrow> key_index w < length sizes \<and> key_index w < length bks
      \<and> status_total (sizes ! key_index w) (saturating_sub now (span_secs w)) (bks ! key_index w) = total_of w) \<Longrightarrow>
    status_windows now sizes bks ws
      = Some (map (\<lambda>w. \<lparr>ws_span_secs = span_secs w, ws_limit = limit w, ws_current_total = total_of w\<rparr>) ws)"
  by (induction ws) auto

definition status_of_log :: "check_plan \<Rightarrow> log \<Rightarrow> nat \<Rightarrow> planned_window \<Rightarrow> window_status" where
  "status_of_log p H now w = \<lparr>ws_span_secs = span_secs w, ws_limit = limit w,
     ws_current_total = of_nat
       (logged H (\<lambda>t. now < bucket_end (unat (bucket_sizes p ! key_index w)) t + unat (span_secs w)))\<rparr>"

lemma dispatch_reply:
  assumes "dispatch L P V state req s = Some response"
  shows "response_id response = rpc_id req"
    and "rpc_method req = PING_METHOD \<Longrightarrow> payload response = Inr (JStr ''pong'')"
    and "rpc_method req \<notin> {PING_METHOD, LIMITS_SASL_METHOD} \<Longrightarrow>
      \<exists>m. payload response = Inl (Method_Not_Found, m)"
proof -
  have "response_id (case r of Inr x \<Rightarrow> success i (f x) | Inl e \<Rightarrow> failure i c m) = i"
    for r and i :: "'a option" and f :: "status_response \<Rightarrow> json" and c m
    by (cases r) (simp_all add: success_def failure_def)
  then show "response_id response = rpc_id req" using assms
    by (auto simp: dispatch_def success_def [of _ "JStr _"] failure_def [of _ "Invalid_Params"]
        failure_def [of _ "Method_Not_Found"] Let_def split: if_splits option.splits)
qed (use assms in \<open>auto simp: dispatch_def success_def failure_def\<close>)

text \<open>What the control socket reads of one key.\<close>

definition key_fields :: "('s \<Rightarrow> string \<Rightarrow> (string \<rightharpoonup> string)) \<Rightarrow> 's \<Rightarrow> string \<Rightarrow> log \<Rightarrow> nat \<Rightarrow> u64 \<Rightarrow>
    (u64 \<times> u32) list \<Rightarrow> bool" where
  "key_fields hash s k H now bs fmap \<longleftrightarrow>
     (\<exists>bl. fmap = map (\<lambda>b. (of_nat b, of_nat (logged H (\<lambda>t. t div unat bs = b)))) bl \<and> distinct bl \<and>
       dom (hash s k) = show_nat ` set bl \<and> (\<forall>b \<in> set bl. (b + 1) * unat bs < 2 ^ 64))"

context hash_server
begin

lemma key_fields_read:
  assumes wf: "plan_wf p" and fine: "plan_fine p" and adm: "admitted (plan_admits p) H"
    and rep: "sender_rep hash deadline clock serves pre u p H s" and small: "clock s < 2 ^ 63"
    and bs: "bs \<in> set (bucket_sizes p)"
  shows "\<exists>reply fmap. cmd_hgetall cmds s (sender_key pre u bs) = Inr reply
      \<and> hash_map_of_reply reply [] = Some fmap \<and> key_fields hash s (sender_key pre u bs) H (clock s) bs fmap"
proof -
  obtain i where i: "i < length (bucket_sizes p)" "bucket_sizes p ! i = bs"
    using bs by (metis in_set_conv_nth)
  let ?k = "sender_key pre u bs" and ?R = "retention_secs p ! i"
  let ?c = "\<lambda>b. logged H (\<lambda>t. t div unat bs = b)"
  have "(?k, unat bs, unat ?R) \<in> set (plan_keys pre u p)"
    using plan_keys_nth [OF wf i(1), of pre u] plan_keys_arrays(4) [OF wf, of pre u] i nth_mem by metis
  with rep have key: "key_rep hash deadline clock serves H s (?k, unat bs, unat ?R)"
    by (simp add: sender_rep_def)
  obtain w where w: "w \<in> set (windows p)" "bucket_sizes p ! key_index w = bs" "span_secs w = ?R"
    using wf i unfolding plan_wf_def by metis
  have pos: "0 < unat bs" and le: "unat bs \<le> 32768"
    using wf bs plan_fine_window(3) [OF fine w(1)] w(2) by (auto simp: plan_wf_def)
  obtain bl where bl: "cmd_hgetall cmds s ?k = Inr (flat_pairs (map (\<lambda>b. (show_nat b, show_nat (?c b))) bl))"
    "distinct bl" "dom (hash s ?k) = show_nat ` set bl"
    and live: "\<And>b. b \<in> set bl \<Longrightarrow> live_bucket (unat bs) (unat ?R) H b"
    using hgetall_key [OF key] by blast
  have room: "(b + 1) * unat bs < 2 ^ 64" if "b \<in> set bl" for b
  proof -
    have "b \<le> fst (last H) div unat bs" "H \<noteq> []" using live [OF that] by (auto simp: live_bucket_def)
    moreover have "\<forall>e \<in> set H. fst e \<le> clock s" using rep by (auto simp: sender_rep_def)
    then have "fst (last H) \<le> clock s" using \<open>H \<noteq> []\<close> last_in_set by blast
    ultimately have "b * unat bs \<le> clock s" by (meson div_times_less_eq_dividend le_trans mult_le_mono1)
    then show ?thesis using small le by simp
  qed
  have "b < 2 ^ 64 \<and> ?c b < 2 ^ 32" if "b \<in> set bl" for b
  proof
    have "(b + 1) * 1 \<le> (b + 1) * unat bs" using pos by (intro mult_le_mono2) simp
    then show "b < 2 ^ 64" using room [OF that] by (metis Suc_eq_plus1 Suc_lessD le_less_trans mult_1_right)
    show "?c b < 2 ^ 32" by (rule live_bucket_bounded [OF adm live [OF that] w])
  qed
  then have "hash_map_of_reply (flat_pairs (map (\<lambda>b. (show_nat b, show_nat (?c b))) bl)) []
      = Some (map (\<lambda>b. (of_nat b, of_nat (?c b))) bl)"
    using hash_map_of_reply_decimal [OF bl(2), of ?c "[]"] by simp
  moreover have "key_fields hash s ?k H (clock s) bs (map (\<lambda>b. (of_nat b, of_nat (?c b))) bl)"
    using bl(2,3) room by (auto simp: key_fields_def)
  ultimately show ?thesis using bl(1) by blast
qed

lemma status_total_window:
  assumes wf: "plan_wf p" and rep: "sender_rep hash deadline clock serves pre u p H s"
    and small: "clock s < 2 ^ 63" and w: "w \<in> set (windows p)"
    and fmap: "key_fields hash s (sender_key pre u (bucket_sizes p ! key_index w)) H (clock s)
      (bucket_sizes p ! key_index w) fmap"
  shows "status_total (bucket_sizes p ! key_index w) (saturating_sub (of_nat (clock s)) (span_secs w)) fmap
    = ws_current_total (status_of_log p H (clock s) w)"
proof -
  let ?i = "key_index w" and ?bs = "bucket_sizes p ! key_index w"
  note i = plan_wf_window [OF wf w]
  have "(sender_key pre u ?bs, unat ?bs, unat (retention_secs p ! ?i)) \<in> set (plan_keys pre u p)"
    using plan_keys_nth [OF wf i(1), of pre u] plan_keys_arrays(4) [OF wf, of pre u] i(1) nth_mem by metis
  with rep have key: "key_rep hash deadline clock serves H s
      (sender_key pre u ?bs, unat ?bs, unat (retention_secs p ! ?i))" by (simp add: sender_rep_def)
  from fmap obtain bl where bl:
    "fmap = map (\<lambda>b. (of_nat b, of_nat (logged H (\<lambda>t. t div unat ?bs = b)))) bl" "distinct bl"
    "dom (hash s (sender_key pre u ?bs)) = show_nat ` set bl" "\<forall>b \<in> set bl. (b + 1) * unat ?bs < 2 ^ 64"
    by (auto simp: key_fields_def)
  have "0 < unat ?bs" using wf i(1) nth_mem by (auto simp: plan_wf_def)
  then have "status_total ?bs (saturating_sub (of_nat (clock s)) (span_secs w)) fmap
      = of_nat (sum_list (map (\<lambda>b. logged H (\<lambda>t. t div unat ?bs = b))
          (filter (\<lambda>b. clock s < (b + 1) * unat ?bs + unat (span_secs w)) bl)))"
    unfolding bl(1) using bl(4) small by (intro status_total_decimal) auto
  also have "\<dots> = of_nat (logged H
      (\<lambda>t. t div unat ?bs \<in> set (filter (\<lambda>b. clock s < (b + 1) * unat ?bs + unat (span_secs w)) bl)))"
    using bl(2) by (subst logged_buckets) simp_all
  finally show ?thesis
    unfolding window_buckets_logged [OF key i(2) bl(3)] status_of_log_def by simp
qed

lemma compute_sasl_status_correct:
  assumes wf: "plan_wf p" and fine: "plan_fine p" and adm: "admitted (plan_admits p) H"
    and rep: "sender_rep hash deadline clock serves pre u p H s" and small: "clock s < 2 ^ 63"
    and limited: "bucket_sizes p \<noteq> []"
  shows "compute_sasl_status cmds pre p u s =
    Some (Inr (Limited (of_nat (clock s)) (map (status_of_log p H (clock s)) (windows p))))"
proof -
  let ?ident = "identity SASL_IDENTITY_KIND u"
  obtain us where time: "cmd_time cmds s = Inr [show_nat (clock s), us]" using time_law by blast
  have now: "parse_u64 (show_nat (clock s)) = Some (of_nat (clock s))"
    using small by (simp add: parse_u64_def decimal_simps)
  from read_buckets_all [where Q = "\<lambda>bs. key_fields hash s (sender_key pre u bs) H (clock s) bs",
      OF key_fields_read [OF wf fine adm rep small]]
  obtain bks where bks: "read_buckets cmds s pre ?ident (bucket_sizes p) = Inr bks"
    "list_all2 (\<lambda>bs. key_fields hash s (sender_key pre u bs) H (clock s) bs) (bucket_sizes p) bks" by blast
  have "status_windows (of_nat (clock s)) (bucket_sizes p) bks (windows p)
    = Some (map (status_of_log p H (clock s)) (windows p))"
  proof -
    have "key_index w < length (bucket_sizes p) \<and> key_index w < length bks \<and>
        status_total (bucket_sizes p ! key_index w) (saturating_sub (of_nat (clock s)) (span_secs w))
          (bks ! key_index w) = ws_current_total (status_of_log p H (clock s) w)"
      if "w \<in> set (windows p)" for w
      using plan_wf_window(1) [OF wf that] list_all2_nthD [OF bks(2)] list_all2_lengthD [OF bks(2)]
        status_total_window [OF wf rep small that] by simp
    from status_windows_all [OF this] show ?thesis by (simp add: status_of_log_def)
  qed
  then show ?thesis using limited time now bks(1) by (simp add: compute_sasl_status_def)
qed

end

text \<open>The reported totals tell which message the limiter would accept at the same moment.\<close>

lemma status_predicts:
  assumes adm: "admitted (plan_admits p) H" and past: "\<forall>(t, n) \<in> set H. t \<le> now"
  shows "plan_admits p H now n \<longleftrightarrow>
    (\<forall>w \<in> set (windows p). n + unat (ws_current_total (status_of_log p H now w)) \<le> unat (limit w))"
proof -
  have "unat (ws_current_total (status_of_log p H now w))
      = logged H (\<lambda>t. now < bucket_end (unat (bucket_sizes p ! key_index w)) t + unat (span_secs w))"
    if "w \<in> set (windows p)" for w
  proof -
    have "unat (limit w) < 2 ^ 32" using unsigned_less [of "limit w", where ?'a = nat] by simp
    with window_total_bounded [OF adm past that] show ?thesis by (simp add: status_of_log_def unat_of_nat)
  qed
  then show ?thesis by (simp add: plan_admits_def window_admits_def)
qed

end
