(* ===== verification/Ctl.thy ===== *)
theory Ctl
  imports Control_Socket
begin

text \<open>
  The command line client, \<open>src/bin/postfix-ratelimitctl.rs\<close>: finding the control socket,
  exchanging one line with the daemon, and printing the reply. The command line parser, the
  socket and the formatting of durations and times belong to libraries; \<open>peer\<close> and \<open>formats\<close>
  are parameters. A failure is the line written to stderr; every one exits with failure.
\<close>

section \<open>The environment\<close>

definition QUERY_TIMEOUT :: duration where "QUERY_TIMEOUT = from_secs 5"

text \<open>
  The daemon's side of a connection: connecting, setting the timeout for the reply, writing, and
  the line read back. Waiting longer than the timeout is a failure to read.
\<close>

record peer =
  peer_connect :: "path \<Rightarrow> string option"
  peer_set_timeout :: "duration \<Rightarrow> string option"
  peer_write :: "string \<Rightarrow> string option"
  peer_read_line :: "string + string"

text \<open>Not every time can be formatted: \<open>println!\<close> panics when a formatter reports an error.\<close>

record formats =
  format_span :: "u64 \<Rightarrow> string"
  format_time :: "u64 \<Rightarrow> string option"
  format_percent :: "u32 \<Rightarrow> u32 \<Rightarrow> string"
  pretty_json :: "json \<Rightarrow> string"

datatype 'e ctl_error =
    Config_Not_Loaded path "'e config_error"
  | Control_Socket_Not_Configured
  | Connect_Error path string
  | Timeout_Error string
  | Send_Error string
  | Reply_Error string
  | Malformed_Response string
  | Query_Failed string error_code string
  | Malformed_Result string

datatype ctl_command = Ping | Limits_Sasl string

record cli =
  cli_socket :: "path option"
  cli_config :: path
  cli_raw_response :: bool
  cli_command :: ctl_command

section \<open>Operations\<close>

text \<open>Throughout, the result \<open>None\<close> is a panic.\<close>

definition resolve_control_socket :: "('ci, 'rs, 're, 'e) platform \<Rightarrow> path option \<Rightarrow> path \<Rightarrow>
    ('e ctl_error + path) option" where
  "resolve_control_socket P sock config_path =
     (case sock of
        Some p \<Rightarrow> Some (Inr p)
      | None \<Rightarrow>
          (case config_load P config_path of
             None \<Rightarrow> None
           | Some (Inl e) \<Rightarrow> Some (Inl (Config_Not_Loaded config_path e))
           | Some (Inr c) \<Rightarrow>
               (case control_socket c of
                  None \<Rightarrow> Some (Inl Control_Socket_Not_Configured)
                | Some p \<Rightarrow> Some (Inr p))))"

definition send_request :: "'id rpc_lib \<Rightarrow> peer \<Rightarrow> path \<Rightarrow> 'id rpc_request \<Rightarrow> 'e ctl_error + 'id rpc_response" where
  "send_request L N sock req =
     (case peer_connect N sock of
        Some e \<Rightarrow> Inl (Connect_Error sock e)
      | None \<Rightarrow>
     (case peer_set_timeout N QUERY_TIMEOUT of
        Some e \<Rightarrow> Inl (Timeout_Error e)
      | None \<Rightarrow>
     (case peer_write N (request_text L req @ [CHR 0x0A]) of
        Some e \<Rightarrow> Inl (Send_Error e)
      | None \<Rightarrow>
     (case peer_read_line N of
        Inl e \<Rightarrow> Inl (Reply_Error e)
      | Inr reply \<Rightarrow>
     (case response_of_text L reply of
        Inl e \<Rightarrow> Inl (Malformed_Response e)
      | Inr response \<Rightarrow> Inr response)))))"

definition print_raw_response :: "formats \<Rightarrow> json \<Rightarrow> string list" where
  "print_raw_response F result = [pretty_json F result]"

text \<open>
  \<open>decode\<close> is the typed reading of the result, \<open>print_value\<close> what is printed for it, where
  \<open>None\<close> is a panic.
\<close>

definition run_query_command :: "'id rpc_lib \<Rightarrow> peer \<Rightarrow> formats \<Rightarrow> path \<Rightarrow> 'id rpc_request \<Rightarrow> string \<Rightarrow> bool \<Rightarrow>
    (json \<Rightarrow> 'v option) \<Rightarrow> ('v \<Rightarrow> string list option) \<Rightarrow> ('e ctl_error + string list) option" where
  "run_query_command L N F sock req verb raw_response decode print_value =
     (case send_request L N sock req of
        Inl e \<Rightarrow> Some (Inl e)
      | Inr response \<Rightarrow>
     (case payload response of
        Inl (code, message) \<Rightarrow> Some (Inl (Query_Failed verb code message))
      | Inr result \<Rightarrow>
     (case decode result of
        None \<Rightarrow> Some (Inl (Malformed_Result verb))
      | Some v \<Rightarrow> if raw_response then Some (Inr (print_raw_response F result)) else map_option Inr (print_value v))))"

fun decode_string :: "json \<Rightarrow> string option" where
  "decode_string (JStr s) = Some s"
| "decode_string _ = None"

text \<open>
  The derived readers of \<open>WindowStatus\<close>, which also takes an array, and of the untagged
  \<open>StatusResponse\<close>, whose variants take objects only.
\<close>

definition decode_uint :: "nat \<Rightarrow> json \<Rightarrow> nat option" where
  "decode_uint bound j =
     (case jint j of None \<Rightarrow> None | Some i \<Rightarrow> if 0 \<le> i \<and> i < int bound then Some (nat i) else None)"

fun decode_fields :: "json option \<Rightarrow> json option \<Rightarrow> json option \<Rightarrow> window_status option" where
  "decode_fields (Some a) (Some b) (Some c) =
     (case (decode_uint (2 ^ 64) a, decode_uint (2 ^ 32) b, decode_uint (2 ^ 32) c) of
        (Some s, Some l, Some t) \<Rightarrow>
          Some \<lparr>ws_span_secs = of_nat s, ws_limit = of_nat l, ws_current_total = of_nat t\<rparr>
      | _ \<Rightarrow> None)"
| "decode_fields _ _ _ = None"

fun decode_window_status :: "json \<Rightarrow> window_status option" where
  "decode_window_status (JObj kvs) =
     decode_fields (jget ''span_secs'' (JObj kvs)) (jget ''limit'' (JObj kvs)) (jget ''current_total'' (JObj kvs))"
| "decode_window_status (JArr [a, b, c]) = decode_fields (Some a) (Some b) (Some c)"
| "decode_window_status _ = None"

definition decode_unrestricted :: "json option \<Rightarrow> status_response option" where
  "decode_unrestricted j = (case j of Some (JBool b) \<Rightarrow> Some (Unrestricted b) | _ \<Rightarrow> None)"

definition decode_limited :: "json option \<Rightarrow> json option \<Rightarrow> status_response option" where
  "decode_limited t ws =
     (case (Option.bind t (decode_uint (2 ^ 64)),
            Option.bind (Option.bind ws jarr) (\<lambda>js. all_some (map decode_window_status js))) of
        (Some now, Some v) \<Rightarrow> Some (Limited (of_nat now) v)
      | _ \<Rightarrow> None)"

fun decode_status :: "json \<Rightarrow> status_response option" where
  "decode_status (JObj kvs) =
     (case decode_unrestricted (jget ''unrestricted'' (JObj kvs)) of
        Some r \<Rightarrow> Some r
      | None \<Rightarrow> decode_limited (jget ''computed_at'' (JObj kvs)) (jget ''windows'' (JObj kvs)))"
| "decode_status _ = None"

definition print_window :: "formats \<Rightarrow> window_status \<Rightarrow> string" where
  "print_window F w =
     (if ws_limit w = 0
      then ''  '' @ format_span F (ws_span_secs w) @ '': '' @ show_nat (unat (ws_current_total w)) @ ''/0''
      else ''  '' @ format_span F (ws_span_secs w) @ '': '' @ show_nat (unat (ws_current_total w)) @ ''/''
        @ show_nat (unat (ws_limit w)) @ '' ('' @ format_percent F (ws_current_total w) (ws_limit w) @ ''%)'')"

text \<open>\<open>UNIX_EPOCH + Duration::from_secs(s)\<close>, which panics outside of the range of the system's clock.\<close>

definition after_epoch :: "u64 \<Rightarrow> u64 option" where
  "after_epoch s = (if unat s < 2 ^ 63 then Some s else None)"

fun print_status :: "formats \<Rightarrow> string \<Rightarrow> status_response \<Rightarrow> string list option" where
  "print_status F username (Unrestricted _) = Some [username @ '': unrestricted (no rate limit)'']"
| "print_status F username (Limited computed_at ws) =
     map_option (\<lambda>time. (username @ '': windows as of '' @ time) # map (print_window F) ws)
       (Option.bind (after_epoch computed_at) (format_time F))"

text \<open>Building a request panics only for an over-long method name.\<close>

definition run_ping_command :: "'id rpc_lib \<Rightarrow> peer \<Rightarrow> formats \<Rightarrow> path \<Rightarrow> bool \<Rightarrow> ('e ctl_error + string list) option" where
  "run_ping_command L N F sock raw_response =
     Option.bind (new_ping_request L 1)
       (\<lambda>req. run_query_command L N F sock req ''ping'' raw_response decode_string
                (\<lambda>reply. Some [''control socket is up: '' @ reply]))"

definition run_status_command :: "'id rpc_lib \<Rightarrow> peer \<Rightarrow> formats \<Rightarrow> path \<Rightarrow> string \<Rightarrow> bool \<Rightarrow>
    ('e ctl_error + string list) option" where
  "run_status_command L N F sock username raw_response =
     Option.bind (new_limits_sasl_request L username 1)
       (\<lambda>req. run_query_command L N F sock req ''status query'' raw_response decode_status
                (print_status F username))"

definition run_cli :: "('ci, 'rs, 're, 'e) platform \<Rightarrow> 'id rpc_lib \<Rightarrow> peer \<Rightarrow> formats \<Rightarrow> cli \<Rightarrow>
    ('e ctl_error + string list) option" where
  "run_cli P L N F c =
     (case resolve_control_socket P (cli_socket c) (cli_config c) of
        None \<Rightarrow> None
      | Some (Inl e) \<Rightarrow> Some (Inl e)
      | Some (Inr sock) \<Rightarrow>
          (case cli_command c of
             Ping \<Rightarrow> run_ping_command L N F sock (cli_raw_response c)
           | Limits_Sasl username \<Rightarrow> run_status_command L N F sock username (cli_raw_response c)))"

text \<open>\<open>main\<close>: the exit code, the lines on stdout and the failure on stderr.\<close>

definition ctl_main :: "('ci, 'rs, 're, 'e) platform \<Rightarrow> 'id rpc_lib \<Rightarrow> peer \<Rightarrow> formats \<Rightarrow> cli \<Rightarrow>
    (exit_code \<times> string list \<times> 'e ctl_error option) option" where
  "ctl_main P L N F c =
     map_option
       (\<lambda>r. case r of Inr lines \<Rightarrow> (Exit_Success, lines, None) | Inl e \<Rightarrow> (Exit_Failure, [], Some e))
       (run_cli P L N F c)"

section \<open>Lemmas\<close>

text \<open>The client panics only on a reply whose time it cannot print.\<close>

lemma run_query_panics:
  assumes "run_query_command L N F sock req verb raw decode print_value = (None :: ('e ctl_error + string list) option)"
  obtains response result v where "send_request L N sock req = (Inr response :: 'e ctl_error + 'id rpc_response)"
    and "payload response = Inr result" and "decode result = Some v" and "print_value v = None" and "\<not> raw"
  using assms by (auto simp: run_query_command_def split: sum.splits prod.splits option.splits if_splits)

lemma decode_uint_word [simp]:
  "decode_uint 18446744073709551616 (JInt (uint (w :: u64))) = Some (unat w)"
  "decode_uint 4294967296 (JInt (uint (v :: u32))) = Some (unat v)"
  using unsigned_less [of w, where ?'a = int] unsigned_less [of v, where ?'a = int]
  by (simp_all add: decode_uint_def)

lemma decode_window_status_json [simp]: "decode_window_status (window_status_json w) = Some w"
  by (cases w) (simp add: window_status_json_def)

lemma decode_status_json: "decode_status (status_json r) = Some r"
proof (cases r)
  case (Unrestricted b)
  then show ?thesis by (simp add: decode_unrestricted_def)
next
  case (Limited now ws)
  have "all_some (map decode_window_status (map window_status_json ws)) = Some ws"
    by (induction ws) auto
  then show ?thesis using Limited by (simp add: decode_unrestricted_def decode_limited_def)
qed

lemma limits_sasl_params_json: "limits_sasl_params (limits_sasl_params_json u) = Some u"
  by (simp add: limits_sasl_params_json_def)

lemma method_names_fit:
  "new_ping_request L i = Some \<lparr>rpc_method = PING_METHOD, rpc_params = Some JNull, rpc_id = Some (id_num L i)\<rparr>"
  "new_limits_sasl_request L u i = Some \<lparr>rpc_method = LIMITS_SASL_METHOD,
     rpc_params = Some (limits_sasl_params_json u), rpc_id = Some (id_num L i)\<rparr>"
  by (simp_all add: new_ping_request_def new_limits_sasl_request_def new_request_def
      PING_METHOD_def LIMITS_SASL_METHOD_def METHOD_NAME_BYTES_def)

end
