(* ===== verification/Json_Text.thy ===== *)
theory Json_Text
  imports Json
begin

text \<open>
  JSON as text. The program leaves the coding to \<open>serde_json\<close> and \<open>cjson\<close>, which stay parameters
  of the model; this is one codec that satisfies what is assumed of them, on which the properties
  are applied. It writes the compact form and reads it back, escapes as RFC 8259 wants it, and
  knows no fractions.
\<close>

section \<open>Strings\<close>

definition hex_char :: "nat \<Rightarrow> char" where
  "hex_char d = (if d < 10 then char_of (48 + d) else char_of (87 + d))"

definition hex_val :: "char \<Rightarrow> nat option" where
  "hex_val c = (let n = of_char c in
     if 48 \<le> n \<and> n \<le> 57 then Some (n - 48) else if 97 \<le> n \<and> n \<le> 102 then Some (n - 87) else None)"

definition escape_char :: "char \<Rightarrow> string" where
  "escape_char c =
     (if c = CHR 0x22 \<or> c = CHR 0x5C then [CHR 0x5C, c]
      else if (of_char c :: nat) < 32
      then [CHR 0x5C, CHR ''u'', CHR ''0'', CHR ''0'', hex_char (of_char c div 16), hex_char (of_char c mod 16)]
      else [c])"

definition print_string :: "string \<Rightarrow> string" where
  "print_string s = CHR 0x22 # concat (map escape_char s) @ [CHR 0x22]"

text \<open>The rest of a string whose opening quote was read; only ASCII is escaped by number.\<close>

fun read_string :: "string \<Rightarrow> (string \<times> string) option" where
  "read_string [] = None"
| "read_string (c # r) =
     (if c = CHR 0x22 then Some ([], r)
      else if c = CHR 0x5C
      then (case r of
              [] \<Rightarrow> None
            | e # r1 \<Rightarrow>
                if e = CHR 0x22 \<or> e = CHR 0x5C then map_option (apfst ((#) e)) (read_string r1)
                else if e = CHR ''u''
                then (case r1 of
                        a # b # x # y # r2 \<Rightarrow>
                          (case (hex_val x, hex_val y) of
                             (Some h, Some l) \<Rightarrow>
                               if a = CHR ''0'' \<and> b = CHR ''0''
                               then map_option (apfst ((#) (char_of (16 * h + l)))) (read_string r2)
                               else None
                           | _ \<Rightarrow> None)
                      | _ \<Rightarrow> None)
                else None)
      else map_option (apfst ((#) c)) (read_string r))"

lemma hex_roundtrip: "d < 16 \<Longrightarrow> hex_val (hex_char d) = Some d"
  by (auto simp: hex_val_def hex_char_def Let_def)

lemma read_escaped: "read_string (escape_char c @ r) = map_option (apfst ((#) c)) (read_string r)"
proof (cases "(of_char c :: nat) < 32 \<and> c \<noteq> CHR 0x22 \<and> c \<noteq> CHR 0x5C")
  case True
  have "(of_char c :: nat) < 32" using True by simp
  then have "of_char c div 16 < (16 :: nat)" "of_char c mod 16 < (16 :: nat)" by presburger+
  note h = this [THEN hex_roundtrip]
  have "char_of (16 * (of_char c div 16) + of_char c mod 16 :: nat) = c" by (simp only: mult_div_mod_eq char_of_char)
  then show ?thesis using True by (simp add: escape_char_def h)
qed (auto simp: escape_char_def)

lemma read_print_string: "read_string (concat (map escape_char s) @ CHR 0x22 # r) = Some (s, r)"
  by (induction s) (simp_all add: read_escaped)

section \<open>Values\<close>

fun join :: "string list \<Rightarrow> string" where
  "join [] = []"
| "join [x] = x"
| "join (x # xs) = x @ CHR '','' # join xs"

fun print_json :: "json \<Rightarrow> string" where
  "print_json JNull = ''null''"
| "print_json (JBool b) = (if b then ''true'' else ''false'')"
| "print_json (JInt i) = show_int i"
| "print_json (JFloat s) = s"
| "print_json (JStr s) = print_string s"
| "print_json (JArr js) = CHR ''['' # join (map print_json js) @ [CHR '']'']"
| "print_json (JObj kvs) =
     CHR ''{'' # join (map (\<lambda>kv. print_string (fst kv) @ CHR '':'' # print_json (snd kv)) kvs) @ [CHR ''}'']"

definition read_number :: "string \<Rightarrow> (json \<times> string) option" where
  "read_number s =
     (let is_digit = (\<lambda>c. char_digit c \<noteq> None);
          neg = (case s of c # r \<Rightarrow> c = CHR ''-'' | [] \<Rightarrow> False);
          u = (if neg then tl s else s)
      in map_option (\<lambda>n. (JInt (if neg then - int n else int n), dropWhile is_digit u)) (parse_digits (takeWhile is_digit u)))"

definition expect :: "string \<Rightarrow> 'a \<Rightarrow> string \<Rightarrow> ('a \<times> string) option" where
  "expect w v s = (if take (length w) s = w then Some (v, drop (length w) s) else None)"

text \<open>The first argument bounds the calls: every one of them reads at least one character.\<close>

fun read_value :: "nat \<Rightarrow> string \<Rightarrow> (json \<times> string) option"
  and read_elems :: "nat \<Rightarrow> string \<Rightarrow> (json list \<times> string) option"
  and read_members :: "nat \<Rightarrow> string \<Rightarrow> ((string \<times> json) list \<times> string) option" where
  "read_value 0 s = None"
| "read_value (Suc n) s =
     (case s of
        [] \<Rightarrow> None
      | c # r \<Rightarrow>
          if c = CHR 0x22 then map_option (apfst JStr) (read_string r)
          else if c = CHR ''['' then
            (if take 1 r = '']'' then Some (JArr [], tl r) else map_option (apfst JArr) (read_elems n r))
          else if c = CHR ''{'' then
            (if take 1 r = ''}'' then Some (JObj [], tl r) else map_option (apfst JObj) (read_members n r))
          else if c = CHR ''n'' then expect ''null'' JNull s
          else if c = CHR ''t'' then expect ''true'' (JBool True) s
          else if c = CHR ''f'' then expect ''false'' (JBool False) s
          else read_number s)"
| "read_elems 0 s = None"
| "read_elems (Suc n) s =
     (case read_value n s of
        Some (j, c # r) \<Rightarrow>
          if c = CHR '','' then map_option (apfst ((#) j)) (read_elems n r)
          else if c = CHR '']'' then Some ([j], r) else None
      | _ \<Rightarrow> None)"
| "read_members 0 s = None"
| "read_members (Suc n) s =
     (case s of
        [] \<Rightarrow> None
      | q # s1 \<Rightarrow>
          if q \<noteq> CHR 0x22 then None
          else
          (case read_string s1 of
             Some (k, d # s2) \<Rightarrow>
               if d \<noteq> CHR '':'' then None
               else
               (case read_value n s2 of
                  Some (j, c # r) \<Rightarrow>
                    if c = CHR '','' then map_option (apfst ((#) (k, j))) (read_members n r)
                    else if c = CHR ''}'' then Some ([(k, j)], r) else None
                | _ \<Rightarrow> None)
           | _ \<Rightarrow> None))"

definition read_json :: "string \<Rightarrow> json option" where
  "read_json s = (case read_value (Suc (length s)) s of Some (j, []) \<Rightarrow> Some j | _ \<Rightarrow> None)"

section \<open>Round trip\<close>

text \<open>What may follow a value: nothing that would continue a number.\<close>

definition ends_value :: "string \<Rightarrow> bool" where
  "ends_value r \<longleftrightarrow> (case r of [] \<Rightarrow> True | c # _ \<Rightarrow> char_digit c = None)"

lemma ends_value_simps [simp]:
  "ends_value []" "ends_value (CHR '','' # r)" "ends_value (CHR '']'' # r)" "ends_value (CHR ''}'' # r)"
  by (simp_all add: ends_value_def char_digit_def)

lemma show_nat_digits: "c \<in> set (show_nat n) \<Longrightarrow> char_digit c \<noteq> None"
  using show_nat_chars by (force simp: char_digit_digit_char)

lemma digits_then_rest:
  assumes "ends_value r"
  shows "takeWhile (\<lambda>c. char_digit c \<noteq> None) (show_nat n @ r) = show_nat n"
    and "dropWhile (\<lambda>c. char_digit c \<noteq> None) (show_nat n @ r) = r"
proof -
  have r: "takeWhile (\<lambda>c. char_digit c \<noteq> None) r = [] \<and> dropWhile (\<lambda>c. char_digit c \<noteq> None) r = r"
    using assms by (cases r) (auto simp: ends_value_def)
  have d: "\<forall>c \<in> set (show_nat n). char_digit c \<noteq> None" using show_nat_digits by blast
  show "takeWhile (\<lambda>c. char_digit c \<noteq> None) (show_nat n @ r) = show_nat n"
    using d r by (subst takeWhile_append2) auto
  show "dropWhile (\<lambda>c. char_digit c \<noteq> None) (show_nat n @ r) = r"
    using d r by (subst dropWhile_append2) auto
qed

lemma read_show_int:
  assumes "ends_value r"
  shows "read_number (show_int i @ r) = Some (JInt i, r)"
proof (cases "i < 0")
  case True
  then show ?thesis
    using digits_then_rest [OF assms] by (simp add: read_number_def show_int_def Let_def parse_digits_show_nat)
next
  case False
  obtain c cs where c: "show_nat (nat i) = c # cs" by (cases "show_nat (nat i)") auto
  then have "c \<noteq> CHR ''-''" using show_nat_hd by blast
  with False c show ?thesis
    using digits_then_rest [OF assms, of "nat i"] parse_digits_show_nat [of "nat i"]
    by (simp add: read_number_def show_int_def Let_def)
qed


text \<open>The first character tells the kind of a value, and no list ends where one begins.\<close>

lemma show_int_head:
  obtains c cs where "show_int i = c # cs" and "c = CHR ''-'' \<or> char_digit c \<noteq> None"
proof (cases "i < 0")
  case True
  then show thesis using that by (simp add: show_int_def)
next
  case False
  obtain c cs where "show_nat (nat i) = c # cs" by (cases "show_nat (nat i)") auto
  then show thesis using that False show_nat_digits [of c "nat i"] by (auto simp: show_int_def)
qed

lemma print_json_head: "json_fits P j \<Longrightarrow> \<exists>c cs. print_json j = c # cs \<and> c \<noteq> CHR '']''"
  by (cases j; (rule show_int_head)?) (auto simp: print_string_def char_digit_def)

lemma join_Cons: "join (x # xs) = (if xs = [] then x else x @ CHR '','' # join xs)"
  by (cases xs) auto

definition reads_back :: "json \<Rightarrow> bool" where
  "reads_back j \<longleftrightarrow> (\<forall>n r. length (print_json j) \<le> n \<longrightarrow> ends_value r \<longrightarrow> read_value n (print_json j @ r) = Some (j, r))"

lemma reads_backD: "reads_back j \<Longrightarrow> length (print_json j) \<le> n \<Longrightarrow> ends_value r \<Longrightarrow>
    read_value n (print_json j @ r) = Some (j, r)"
  by (simp add: reads_back_def)

lemma reads_back_Suc:
  assumes "\<And>m r. ends_value r \<Longrightarrow> read_value (Suc m) (print_json j @ r) = Some (j, r)" and "print_json j \<noteq> []"
  shows "reads_back j"
  unfolding reads_back_def
proof (intro allI impI)
  fix n r assume "length (print_json j) \<le> n" and r: "ends_value r"
  with assms(2) obtain m where "n = Suc m" by (cases n) auto
  then show "read_value n (print_json j @ r) = Some (j, r)" using assms(1) [OF r] by simp
qed

lemma read_elems_print:
  assumes "\<And>j. j \<in> set (j0 # js) \<Longrightarrow> reads_back j" and "length (join (map print_json (j0 # js))) < n"
  shows "read_elems n (join (map print_json (j0 # js)) @ CHR '']'' # r) = Some (j0 # js, r)"
  using assms
proof (induction js arbitrary: j0 n)
  case Nil
  then obtain m where m: "n = Suc m" by (cases n) auto
  have "read_value m (print_json j0 @ CHR '']'' # r) = Some (j0, CHR '']'' # r)"
    by (rule reads_backD) (use Nil m in auto)
  then show ?case by (simp add: m)
next
  case (Cons j js)
  obtain m where m: "n = Suc m" using Cons.prems(2) by (cases n) auto
  have "read_value m (print_json j0 @ CHR '','' # join (map print_json (j # js)) @ CHR '']'' # r)
      = Some (j0, CHR '','' # join (map print_json (j # js)) @ CHR '']'' # r)"
    by (rule reads_backD) (use Cons.prems m in \<open>auto simp: join_Cons split: if_splits\<close>)
  moreover have "read_elems m (join (map print_json (j # js)) @ CHR '']'' # r) = Some (j # js, r)"
    by (rule Cons.IH) (use Cons.prems m in auto)
  ultimately show ?case by (simp add: m)
qed

abbreviation print_member :: "string \<times> json \<Rightarrow> string" where
  "print_member kv \<equiv> print_string (fst kv) @ CHR '':'' # print_json (snd kv)"

lemma read_members_print:
  assumes "\<And>kv. kv \<in> set (m0 # ms) \<Longrightarrow> reads_back (snd kv)" and "length (join (map print_member (m0 # ms))) < n"
  shows "read_members n (join (map print_member (m0 # ms)) @ CHR ''}'' # r) = Some (m0 # ms, r)"
  using assms
proof (induction ms arbitrary: m0 n)
  case Nil
  obtain k j where kj: "m0 = (k, j)" by (cases m0)
  obtain m where m: "n = Suc m" using Nil.prems(2) by (cases n) auto
  have "read_value m (print_json j @ CHR ''}'' # r) = Some (j, CHR ''}'' # r)"
    by (rule reads_backD) (use Nil.prems m kj in auto)
  then show ?case by (simp add: m kj print_string_def read_print_string)
next
  case (Cons m1 ms)
  obtain k j where kj: "m0 = (k, j)" by (cases m0)
  obtain m where m: "n = Suc m" using Cons.prems(2) by (cases n) auto
  let ?rest = "join (map print_member (m1 # ms)) @ CHR ''}'' # r"
  have "reads_back j" using Cons.prems(1) [of m0] kj by simp
  then have "read_value m (print_json j @ CHR '','' # ?rest) = Some (j, CHR '','' # ?rest)"
    by (rule reads_backD) (use Cons.prems(2) m kj in \<open>auto simp: join_Cons split: if_splits\<close>)
  moreover have "read_members m ?rest = Some (m1 # ms, r)"
    by (rule Cons.IH) (use Cons.prems m in auto)
  ultimately show ?case by (simp add: m kj print_string_def read_print_string)
qed

lemma print_reads_back: "json_fits P j \<Longrightarrow> reads_back j"
proof (induction P j rule: json_fits.induct)
  case (3 P i)
  show ?case unfolding reads_back_def
  proof (intro allI impI)
    fix n r assume n: "length (print_json (JInt i)) \<le> n" and r: "ends_value r"
    obtain c cs where c: "show_int i = c # cs" "c = CHR ''-'' \<or> char_digit c \<noteq> None" by (rule show_int_head)
    with n obtain m where m: "n = Suc m" by (cases n) auto
    have "c \<notin> {CHR 0x22, CHR ''['', CHR ''{'', CHR ''n'', CHR ''t'', CHR ''f''}" using c(2) by (auto simp: char_digit_def)
    then show "read_value n (print_json (JInt i) @ r) = Some (JInt i, r)"
      using read_show_int [OF r, of i] c by (auto simp: m)
  qed
next
  case (6 P js)
  show ?case unfolding reads_back_def
  proof (intro allI impI)
    fix n r assume n: "length (print_json (JArr js)) \<le> n"
    then obtain m where m: "n = Suc m" by (cases n) auto
    show "read_value n (print_json (JArr js) @ r) = Some (JArr js, r)"
    proof (cases js)
      case Nil
      then show ?thesis by (simp add: m)
    next
      case (Cons j0 js')
      obtain c cs where c: "print_json j0 = c # cs" "c \<noteq> CHR '']''" using print_json_head 6(2) Cons by fastforce
      then have "take 1 (join (map print_json js) @ CHR '']'' # r) \<noteq> '']''" by (simp add: Cons join_Cons)
      moreover have "read_elems m (join (map print_json js) @ CHR '']'' # r) = Some (js, r)"
        unfolding Cons by (rule read_elems_print) (use 6 n m Cons in auto)
      ultimately show ?thesis by (simp add: m)
    qed
  qed
next
  case (7 P kvs)
  show ?case unfolding reads_back_def
  proof (intro allI impI)
    fix n r assume n: "length (print_json (JObj kvs)) \<le> n"
    then obtain m where m: "n = Suc m" by (cases n) auto
    show "read_value n (print_json (JObj kvs) @ r) = Some (JObj kvs, r)"
    proof (cases kvs)
      case Nil
      then show ?thesis by (simp add: m)
    next
      case (Cons kv kvs')
      then have "take 1 (join (map print_member kvs) @ CHR ''}'' # r) \<noteq> ''}''"
        by (simp add: join_Cons print_string_def)
      moreover have "read_members m (join (map print_member kvs) @ CHR ''}'' # r) = Some (kvs, r)"
        unfolding Cons by (rule read_members_print) (use 7 n m Cons in auto)
      ultimately show ?thesis by (simp add: m)
    qed
  qed
qed (rule reads_back_Suc; auto simp: expect_def print_string_def read_print_string)+

lemma read_print_json:
  assumes "json_fits P j"
  shows "read_json (print_json j) = Some j"
  using reads_backD [OF print_reads_back [OF assms], of "Suc (length (print_json j))" "[]"]
  by (simp add: read_json_def del: read_value.simps)

text \<open>No control character is written, so that a text is a line.\<close>

lemma print_string_printable: "c \<in> set (print_string s) \<Longrightarrow> 32 \<le> (of_char c :: nat)"
proof -
  have "32 \<le> (of_char c :: nat)" if "c \<in> set (escape_char d)" for c d
  proof (cases "(of_char d :: nat) < 32 \<and> d \<noteq> CHR 0x22 \<and> d \<noteq> CHR 0x5C")
    case True
    then have "(of_char d :: nat) < 32" by simp
    then have h: "of_char d div 16 < (16 :: nat)" "of_char d mod 16 < (16 :: nat)" by presburger+
    have "32 \<le> (of_char (hex_char k) :: nat)" if "k < 16" for k using that by (auto simp: hex_char_def)
    with True that h show ?thesis by (auto simp: escape_char_def)
  qed (use that in \<open>auto simp: escape_char_def split: if_splits\<close>)
  then show "c \<in> set (print_string s) \<Longrightarrow> 32 \<le> (of_char c :: nat)" by (auto simp: print_string_def)
qed

lemma show_int_printable: "c \<in> set (show_int i) \<Longrightarrow> 32 \<le> (of_char c :: nat)"
  using show_nat_digits [of c "nat i"] show_nat_digits [of c "nat (- i)"]
  by (auto simp: show_int_def char_digit_def split: if_splits)

lemma join_set: "c \<in> set (join xs) \<Longrightarrow> c = CHR '','' \<or> (\<exists>x \<in> set xs. c \<in> set x)"
  by (induction xs rule: join.induct) auto

lemma print_json_printable: "json_fits P j \<Longrightarrow> c \<in> set (print_json j) \<Longrightarrow> 32 \<le> (of_char c :: nat)"
proof (induction P j arbitrary: c rule: json_fits.induct)
  case (6 P js)
  then show ?case using join_set [of c "map print_json js"] by fastforce
next
  case (7 P kvs)
  then show ?case using join_set [of c "map print_member kvs"] print_string_printable by fastforce
qed (auto simp: print_string_printable show_int_printable split: if_splits)

section \<open>The codec\<close>

definition text_codec :: "string json_text" where
  "text_codec = \<lparr>to_text = print_json, of_text = read_json\<rparr>"

lemma text_codec_ok: "codec_ok text_codec"
  using read_print_json by (simp add: codec_ok_def text_codec_def)

end
