(* ===== verification/Rpc_Wire.thy ===== *)
theory Rpc_Wire
  imports Ctl Json_Text
begin

text \<open>
  The wire between postfix-ratelimitctl and the daemon. \<open>json_rpc\<close> has what both sides rely on in
  the crates json_rpc_types and serde_json, as their documentation and the tests of
  \<open>src/control/rpc.rs\<close> state it: a request or a response that one side prints is one line, which the
  other side reads back. With it a query goes from the client through a turn of the control
  connection to the client's output. One codec for JSON text satisfies the laws.
\<close>

section \<open>The laws of the envelope\<close>

text \<open>What the peer of a control connection reads after a turn; at the end of the stream, nothing.\<close>

definition line_read_from :: "'r turn option \<Rightarrow> string + string" where
  "line_read_from t =
     (case t of Some (Continues r reply) \<Rightarrow> Inr reply | Some (Closed reply) \<Rightarrow> Inr reply | None \<Rightarrow> Inr [])"

lemma line_read_from_simps [simp]: "line_read_from (Some (Continues r reply)) = Inr reply"
  by (simp add: line_read_from_def)

text \<open>Values that \<open>serde_json\<close> keeps exactly: integers of 64 bits, no fractions.\<close>

definition int64 :: "int \<Rightarrow> bool" where
  "int64 i \<longleftrightarrow> - (2 ^ 63) \<le> i \<and> i < 2 ^ 64"

abbreviation sendable :: "json \<Rightarrow> bool" where
  "sendable \<equiv> json_fits int64"

lemma int64_word [simp]: "int64 (uint (x :: u64))" "int64 (uint (y :: u32))"
proof -
  have w: "0 \<le> uint x" "uint x < 2 ^ 64" "0 \<le> uint y" "uint y < 2 ^ 32"
    using uint_bounded [of x] uint_bounded [of y] by simp_all
  show "int64 (uint x)" unfolding int64_def using w(2) by (intro conjI order_trans [OF _ w(1)]) simp_all
  show "int64 (uint y)" unfolding int64_def using w(4) by (intro conjI order_trans [OF _ w(3)]) simp_all
qed

text \<open>
  A null as \<open>params\<close> may be read as none, so it is not promised back, and neither is a null result.
  Reading a response tolerates the line end. A version other than 2.0 is refused, an absent one
  is 2.0.
\<close>

locale json_rpc =
  fixes L :: "'id rpc_lib"
  assumes request_reads: "length (rpc_method req) \<le> METHOD_NAME_BYTES \<Longrightarrow> rpc_id req = Some (id_num L i) \<Longrightarrow>
      rpc_params req = Some j \<Longrightarrow> sendable j \<Longrightarrow>
      \<exists>v p. value_of_line L (request_text L req) = Inr v \<and> request_of_value L v = Inr (req\<lparr>rpc_params := p\<rparr>)
        \<and> (j \<noteq> JNull \<longrightarrow> p = Some j)"
    and response_reads: "response_id resp = Some (id_num L i) \<Longrightarrow>
      (\<And>j. payload resp = Inr j \<Longrightarrow> sendable j \<and> j \<noteq> JNull) \<Longrightarrow>
      response_of_text L (response_text L resp @ [CHR 0x0A]) = Inr resp"
    and request_printable: "rpc_id req = Some (id_num L i) \<Longrightarrow> rpc_params req = Some j \<Longrightarrow> sendable j \<Longrightarrow>
      c \<in> set (request_text L req) \<Longrightarrow> 32 \<le> (of_char c :: nat)"
    and other_version: "jget ''jsonrpc'' v = Some w \<Longrightarrow> w \<noteq> JStr ''2.0'' \<Longrightarrow> \<exists>e. request_of_value L v = Inl e"
    and no_version: "''jsonrpc'' \<notin> fst ` set kvs \<Longrightarrow>
      request_of_value L (JObj kvs) = request_of_value L (JObj ((''jsonrpc'', JStr ''2.0'') # kvs))"
begin

lemma request_line:
  assumes "rpc_id req = Some (id_num L i)" and "rpc_params req = Some j" and "sendable j"
  shows "CHR 0x0A \<notin> set (request_text L req)" and "trim_line_end (request_text L req) = request_text L req"
proof -
  have p: "32 \<le> (of_char c :: nat)" if "c \<in> set (request_text L req)" for c
    using request_printable [OF assms that] .
  then show "CHR 0x0A \<notin> set (request_text L req)" by fastforce
  show "trim_line_end (request_text L req) = request_text L req"
  proof (cases "rev (request_text L req)")
    case (Cons c cs)
    then have "c \<in> set (request_text L req)" using set_rev [of "request_text L req"] by simp
    then have "c \<noteq> CHR 0x0A \<and> c \<noteq> CHR 0x0D" using p by fastforce
    then have "rev (dropWhile (\<lambda>c. c = CHR 0x0A \<or> c = CHR 0x0D) (rev (request_text L req))) = rev (rev (request_text L req))"
      using Cons by simp
    then show ?thesis by (simp add: trim_line_end_def)
  qed (simp add: trim_line_end_def)
qed

text \<open>What the daemon does with a request that a client printed.\<close>

lemma printed_request_dispatched:
  assumes fits: "length (rpc_method req) \<le> METHOD_NAME_BYTES" and req: "rpc_id req = Some (id_num L i)"
      "rpc_params req = Some j" "sendable j"
    and read: "line_reader read_line pending healthy" "healthy r" "pending r = request_text L req @ CHR 0x0A # rest"
      "length (request_text L req) < MAX_CONTROL_REQUEST_BYTES"
    and reply: "\<And>p. (j \<noteq> JNull \<Longrightarrow> p = Some j) \<Longrightarrow> dispatch L P V state (req\<lparr>rpc_params := p\<rparr>) s = Some response"
  shows "\<exists>r'. control_turn L P V read_line False False state r s = Some (Continues r' (write_response L response))
    \<and> healthy r' \<and> pending r' = rest"
proof (rule line_reader.control_turn_line [OF read(1-3) request_line(1) [OF req] read(4)])
  from request_reads [OF fits req] obtain v p where v: "value_of_line L (request_text L req) = Inr v"
    "request_of_value L v = Inr (req\<lparr>rpc_params := p\<rparr>)" "j \<noteq> JNull \<longrightarrow> p = Some j" by blast
  then show "handle_line L P V state (trim_line_end (request_text L req)) s = Some response"
    using reply [of p] by (simp add: handle_line_def request_line(2) [OF req])
qed

text \<open>The reply to a status query, and to a ping.\<close>

definition status_reply :: "u64 \<Rightarrow> redis_error + status_response \<Rightarrow> 'id rpc_response" where
  "status_reply i res = (case res of
     Inr status \<Rightarrow> success (Some (id_num L i)) (status_json status)
   | Inl e \<Rightarrow> failure (Some (id_num L i)) Internal_Error ''error checking status'')"

lemma status_query_answered:
  assumes req: "new_limits_sasl_request L u i = Some req"
    and read: "line_reader read_line pending healthy" "healthy r" "pending r = request_text L req @ CHR 0x0A # rest"
      "length (request_text L req) < MAX_CONTROL_REQUEST_BYTES"
    and status: "compute_sasl_status (V (connection_manager (limiter_of_state state)))
      (limiter_key_prefix (limiter_of_state state)) (plan_for P (config_of_state state) u) u s = Some res"
  shows "\<exists>r'. control_turn L P V read_line False False state r s = Some (Continues r' (write_response L (status_reply i res)))
    \<and> healthy r' \<and> pending r' = rest"
proof (rule printed_request_dispatched [OF _ _ _ _ read])
  have r: "req = \<lparr>rpc_method = LIMITS_SASL_METHOD, rpc_params = Some (limits_sasl_params_json u), rpc_id = Some (id_num L i)\<rparr>"
    using req method_names_fit(2) [of L u i] by simp
  then show "length (rpc_method req) \<le> METHOD_NAME_BYTES" "rpc_id req = Some (id_num L i)"
    "rpc_params req = Some (limits_sasl_params_json u)"
    by (simp_all add: LIMITS_SASL_METHOD_def METHOD_NAME_BYTES_def)
  show "sendable (limits_sasl_params_json u)" by (simp add: limits_sasl_params_json_def)
  fix p assume "limits_sasl_params_json u \<noteq> JNull \<Longrightarrow> p = Some (limits_sasl_params_json u)"
  then have "p = Some (limits_sasl_params_json u)" by (simp add: limits_sasl_params_json_def)
  then show "dispatch L P V state (req\<lparr>rpc_params := p\<rparr>) s = Some (status_reply i res)"
    using status by (simp add: dispatch_def r limits_sasl_params_json PING_METHOD_def LIMITS_SASL_METHOD_def
        status_reply_def split: sum.split)
qed

lemma ping_answered:
  assumes req: "new_ping_request L i = Some req"
    and read: "line_reader read_line pending healthy" "healthy r" "pending r = request_text L req @ CHR 0x0A # rest"
      "length (request_text L req) < MAX_CONTROL_REQUEST_BYTES"
  shows "\<exists>r'. control_turn L P V read_line False False state r s
      = Some (Continues r' (write_response L (success (Some (id_num L i)) (JStr ''pong''))))
    \<and> healthy r' \<and> pending r' = rest"
proof (rule printed_request_dispatched [OF _ _ _ _ read])
  have r: "req = \<lparr>rpc_method = PING_METHOD, rpc_params = Some JNull, rpc_id = Some (id_num L i)\<rparr>"
    using req method_names_fit(1) [of L i] by simp
  then show "length (rpc_method req) \<le> METHOD_NAME_BYTES" "rpc_id req = Some (id_num L i)" "rpc_params req = Some JNull"
    by (simp_all add: PING_METHOD_def METHOD_NAME_BYTES_def)
  show "dispatch L P V state (req\<lparr>rpc_params := p\<rparr>) s = Some (success (Some (id_num L i)) (JStr ''pong''))" for p
    by (simp add: dispatch_def r)
qed simp

text \<open>What the client does with the reply.\<close>

lemma status_json_sendable: "sendable (status_json st) \<and> status_json st \<noteq> JNull"
  by (cases st) (simp_all add: window_status_json_def)

lemma status_reply_printed:
  assumes up: "peer_connect N sock = None" "peer_set_timeout N QUERY_TIMEOUT = None"
    and req: "new_limits_sasl_request L u 1 = Some req" "peer_write N (request_text L req @ [CHR 0x0A]) = None"
    and reply: "peer_read_line N = Inr (write_response L (status_reply 1 res))"
  shows "run_status_command L N F sock u raw = (case res of
      Inr status \<Rightarrow> if raw then Some (Inr (print_raw_response F (status_json status))) else map_option Inr (print_status F u status)
    | Inl e \<Rightarrow> Some (Inl (Query_Failed ''status query'' Internal_Error ''error checking status'')))"
proof -
  have "response_of_text L (write_response L (status_reply 1 res)) = Inr (status_reply 1 res)"
    unfolding write_response_def
    by (rule response_reads [of _ 1])
      (auto simp: status_reply_def success_def failure_def status_json_sendable split: sum.splits)
  with assms show ?thesis
    by (simp add: run_status_command_def run_query_command_def send_request_def status_reply_def success_def
        failure_def decode_status_json split: sum.split)
qed

lemma ping_reply_printed:
  assumes up: "peer_connect N sock = None" "peer_set_timeout N QUERY_TIMEOUT = None"
    and req: "new_ping_request L 1 = Some req" "peer_write N (request_text L req @ [CHR 0x0A]) = None"
    and reply: "peer_read_line N = Inr (write_response L (success (Some (id_num L 1)) (JStr ''pong'')))"
  shows "run_ping_command L N F sock False = Some (Inr [''control socket is up: pong''])"
proof -
  have "response_of_text L (write_response L (success (Some (id_num L 1)) (JStr ''pong'')))
      = Inr (success (Some (id_num L 1)) (JStr ''pong''))"
    unfolding write_response_def by (rule response_reads [of _ 1]) (simp_all add: success_def)
  with assms show ?thesis
    by (simp add: run_ping_command_def run_query_command_def send_request_def success_def)
qed

text \<open>
  A query from the client through the daemon and back, on every branch: the connection holds what
  the client wrote, and the client reads what the turn wrote.
\<close>

theorem status_query_round:
  assumes read: "line_reader read_line pending healthy" "healthy r" "pending r = request_text L req @ [CHR 0x0A]"
      "length (request_text L req) < MAX_CONTROL_REQUEST_BYTES"
    and status: "compute_sasl_status (V (connection_manager (limiter_of_state state)))
      (limiter_key_prefix (limiter_of_state state)) (plan_for P (config_of_state state) u) u s = Some res"
    and up: "peer_connect N sock = None" "peer_set_timeout N QUERY_TIMEOUT = None"
    and req: "new_limits_sasl_request L u 1 = Some req" "peer_write N (request_text L req @ [CHR 0x0A]) = None"
    and reply: "peer_read_line N = line_read_from (control_turn L P V read_line False False state r s)"
  shows "run_status_command L N F sock u raw = (case res of
      Inr status \<Rightarrow> if raw then Some (Inr (print_raw_response F (status_json status))) else map_option Inr (print_status F u status)
    | Inl e \<Rightarrow> Some (Inl (Query_Failed ''status query'' Internal_Error ''error checking status'')))"
proof (rule status_reply_printed [OF up req])
  from status_query_answered [where rest = "[]" and V = V and P = P and state = state and s = s, OF req(1) read(1,2,3) read(4) status]
  show "peer_read_line N = Inr (write_response L (status_reply 1 res))" unfolding reply by auto
qed

text \<open>A request of another version is refused without an id.\<close>

lemma other_version_refused:
  assumes "value_of_line L line = Inr v" and "jget ''jsonrpc'' v = Some w" and "w \<noteq> JStr ''2.0''"
  shows "\<exists>e. handle_line L P V state line s = Some (failure None Invalid_Request (''invalid request: '' @ e))"
  using assms other_version [OF assms(2,3)] by (auto simp: handle_line_def)

end

section \<open>A codec\<close>

text \<open>The envelope over the text of Json_Text, with numbers as ids.\<close>

fun code_number :: "error_code \<Rightarrow> int" where
  "code_number Rpc_Parse_Error = - 32700"
| "code_number Invalid_Request = - 32600"
| "code_number Method_Not_Found = - 32601"
| "code_number Invalid_Params = - 32602"
| "code_number Internal_Error = - 32603"

definition code_of :: "int \<Rightarrow> error_code option" where
  "code_of i = find (\<lambda>c. code_number c = i) [Rpc_Parse_Error, Invalid_Request, Method_Not_Found, Invalid_Params, Internal_Error]"

lemma code_roundtrip [simp]: "code_of (code_number c) = Some c"
  by (cases c) (simp_all add: code_of_def)

definition id_json :: "u64 option \<Rightarrow> json" where
  "id_json i = (case i of None \<Rightarrow> JNull | Some n \<Rightarrow> JInt (uint n))"

definition id_of :: "json option \<Rightarrow> string + u64 option" where
  "id_of j = (case j of
     None \<Rightarrow> Inr None
   | Some JNull \<Rightarrow> Inr None
   | Some (JInt i) \<Rightarrow> if 0 \<le> i \<and> i < 2 ^ 64 then Inr (Some (of_int i)) else Inl ''id out of range''
   | Some _ \<Rightarrow> Inl ''unsupported id'')"

lemma id_roundtrip [simp]: "id_of (Some (id_json i)) = Inr i"
proof (cases i)
  case (Some n)
  have "0 \<le> uint n" "uint n < 2 ^ 64" using uint_bounded [of n] by simp_all
  then show ?thesis by (simp add: Some id_of_def id_json_def)
qed (simp add: id_of_def id_json_def)

definition version_ok :: "json \<Rightarrow> bool" where
  "version_ok v \<longleftrightarrow> jget ''jsonrpc'' v = None \<or> jget ''jsonrpc'' v = Some (JStr ''2.0'')"

definition request_json :: "u64 rpc_request \<Rightarrow> json" where
  "request_json req = JObj
     ([(''jsonrpc'', JStr ''2.0''), (''method'', JStr (rpc_method req))]
      @ (case rpc_params req of None \<Rightarrow> [] | Some j \<Rightarrow> [(''params'', j)])
      @ [(''id'', id_json (rpc_id req))])"

definition request_of_json :: "json \<Rightarrow> string + u64 rpc_request" where
  "request_of_json v =
     (if \<not> version_ok v then Inl ''unsupported version''
      else
     (case jget ''method'' v of
        Some (JStr m) \<Rightarrow>
          if METHOD_NAME_BYTES < length m then Inl ''method too long''
          else
         (case id_of (jget ''id'' v) of
            Inl e \<Rightarrow> Inl e
          | Inr i \<Rightarrow> Inr \<lparr>rpc_method = m,
              rpc_params = (if jget ''params'' v = Some JNull then None else jget ''params'' v), rpc_id = i\<rparr>)
      | _ \<Rightarrow> Inl ''missing method''))"

definition response_json :: "u64 rpc_response \<Rightarrow> json" where
  "response_json r = JObj [(''jsonrpc'', JStr ''2.0''),
     (case payload r of
        Inr j \<Rightarrow> (''result'', j)
      | Inl (c, m) \<Rightarrow> (''error'', JObj [(''code'', JInt (code_number c)), (''message'', JStr m)])),
     (''id'', id_json (response_id r))]"

definition rpc_error_of :: "json \<Rightarrow> rpc_error option" where
  "rpc_error_of e =
     (case (jget ''code'' e, jget ''message'' e) of
        (Some (JInt i), Some (JStr m)) \<Rightarrow> map_option (\<lambda>c. (c, m)) (code_of i)
      | _ \<Rightarrow> None)"

text \<open>A response has a result or an error, and not both.\<close>

definition response_of_json :: "json \<Rightarrow> string + u64 rpc_response" where
  "response_of_json v =
     (if \<not> version_ok v then Inl ''unsupported version''
      else
     (case id_of (jget ''id'' v) of
        Inl e \<Rightarrow> Inl e
      | Inr i \<Rightarrow>
     (case (jget ''result'' v, jget ''error'' v) of
        (Some j, None) \<Rightarrow> Inr \<lparr>payload = Inr j, response_id = i\<rparr>
      | (None, Some e) \<Rightarrow>
          (case rpc_error_of e of None \<Rightarrow> Inl ''malformed error'' | Some x \<Rightarrow> Inr \<lparr>payload = Inl x, response_id = i\<rparr>)
      | _ \<Rightarrow> Inl ''neither a result nor an error, or both'')))"

definition text_rpc :: "u64 rpc_lib" where
  "text_rpc = \<lparr>value_of_line = (\<lambda>l. case read_json l of None \<Rightarrow> Inl ''syntax error'' | Some v \<Rightarrow> Inr v),
     request_of_value = request_of_json, response_text = (\<lambda>r. print_json (response_json r)),
     request_text = (\<lambda>r. print_json (request_json r)),
     response_of_text = (\<lambda>t. case read_json (trim_line_end t) of None \<Rightarrow> Inl ''syntax error'' | Some v \<Rightarrow> response_of_json v),
     params_error = (\<lambda>_. ''missing field `username`''), id_num = (\<lambda>i. i), debug_quote = print_string\<rparr>"

lemma id_json_sendable [simp]: "sendable (id_json i)"
  by (cases i) (simp_all add: id_json_def)

lemma request_json_sendable: "(\<And>j. rpc_params req = Some j \<Longrightarrow> sendable j) \<Longrightarrow> sendable (request_json req)"
  by (cases "rpc_params req") (auto simp: request_json_def)

lemma request_json_read:
  assumes "length (rpc_method req) \<le> METHOD_NAME_BYTES"
  shows "request_of_json (request_json req)
    = Inr (req\<lparr>rpc_params := (if rpc_params req = Some JNull then None else rpc_params req)\<rparr>)"
  using assms by (cases req; cases "rpc_params req") (simp_all add: request_of_json_def request_json_def version_ok_def)

lemma response_json_sendable: "(\<And>j. payload r = Inr j \<Longrightarrow> sendable j) \<Longrightarrow> sendable (response_json r)"
proof -
  have "int64 (code_number c)" for c by (cases c) (simp_all add: int64_def)
  then show "(\<And>j. payload r = Inr j \<Longrightarrow> sendable j) \<Longrightarrow> sendable (response_json r)"
    by (auto simp: response_json_def split: sum.split)
qed

lemma response_json_read: "response_of_json (response_json r) = Inr r"
  by (cases r; cases "payload r")
    (auto simp: response_of_json_def response_json_def version_ok_def rpc_error_of_def)

lemma print_json_line:
  assumes "sendable j"
  shows "trim_line_end (print_json j) = print_json j" and "trim_line_end (print_json j @ [CHR 0x0A]) = print_json j"
proof -
  have "c \<noteq> CHR 0x0A \<and> c \<noteq> CHR 0x0D" if "c \<in> set (print_json j)" for c
    using print_json_printable [OF assms that] by fastforce
  then have "dropWhile (\<lambda>c. c = CHR 0x0A \<or> c = CHR 0x0D) (rev (print_json j)) = rev (print_json j)"
    by (cases "rev (print_json j)") (auto dest!: arg_cong [where f = set])
  then show "trim_line_end (print_json j) = print_json j" "trim_line_end (print_json j @ [CHR 0x0A]) = print_json j"
    by (simp_all add: trim_line_end_def)
qed

interpretation wire: json_rpc text_rpc
proof
  fix req :: "u64 rpc_request" and i j
  assume req: "rpc_id req = Some (id_num text_rpc i)" "rpc_params req = Some j" and j: "sendable j"
  have sendable: "sendable (request_json req)" by (rule request_json_sendable) (simp add: req j)
  show "32 \<le> (of_char c :: nat)" if "c \<in> set (request_text text_rpc req)" for c
    using that print_json_printable [OF sendable] by (simp add: text_rpc_def)
  assume "length (rpc_method req) \<le> METHOD_NAME_BYTES"
  from request_json_read [OF this] show "\<exists>v p. value_of_line text_rpc (request_text text_rpc req) = Inr v
      \<and> request_of_value text_rpc v = Inr (req\<lparr>rpc_params := p\<rparr>) \<and> (j \<noteq> JNull \<longrightarrow> p = Some j)"
    by (auto simp: text_rpc_def read_print_json [OF sendable] req)
next
  fix resp :: "u64 rpc_response" and i
  assume "\<And>j. payload resp = Inr j \<Longrightarrow> sendable j \<and> j \<noteq> JNull"
  then have "sendable (response_json resp)" by (intro response_json_sendable) blast
  then show "response_of_text text_rpc (response_text text_rpc resp @ [CHR 0x0A]) = Inr resp"
    by (simp add: text_rpc_def print_json_line read_print_json response_json_read)
next
  fix v w assume "jget ''jsonrpc'' v = Some w" "w \<noteq> JStr ''2.0''"
  then show "\<exists>e. request_of_value text_rpc v = Inl e"
    by (auto simp: text_rpc_def request_of_json_def version_ok_def)
next
  fix kvs :: "(string \<times> json) list" assume "''jsonrpc'' \<notin> fst ` set kvs"
  then have "map_of (rev kvs) ''jsonrpc'' = None" by (simp add: map_of_eq_None_iff)
  then have v: "version_ok (JObj kvs)" "version_ok (JObj ((''jsonrpc'', JStr ''2.0'') # kvs))"
    by (simp_all add: version_ok_def map_add_def)
  have key: "jget k (JObj ((''jsonrpc'', JStr ''2.0'') # kvs)) = jget k (JObj kvs)" if "k \<noteq> ''jsonrpc''" for k
    using that by (simp add: map_add_def split: option.splits)
  have "jget ''method'' (JObj ((''jsonrpc'', JStr ''2.0'') # kvs)) = jget ''method'' (JObj kvs)"
    "jget ''params'' (JObj ((''jsonrpc'', JStr ''2.0'') # kvs)) = jget ''params'' (JObj kvs)"
    "jget ''id'' (JObj ((''jsonrpc'', JStr ''2.0'') # kvs)) = jget ''id'' (JObj kvs)"
    by (rule key; simp)+
  then have "request_of_json (JObj kvs) = request_of_json (JObj ((''jsonrpc'', JStr ''2.0'') # kvs))"
    unfolding request_of_json_def by (simp only: v)
  then show "request_of_value text_rpc (JObj kvs) = request_of_value text_rpc (JObj ((''jsonrpc'', JStr ''2.0'') # kvs))"
    by (simp add: text_rpc_def)
qed

end
