(* ===== verification/Unit_Tests.thy ===== *)
theory Unit_Tests
  imports Rpc_Wire
begin

text \<open>
  The repository's unit tests, evaluated on the model: each test function is a definition of the
  same name that holds when all its assertions do. A TOML document is given as the document that
  the parser makes of it, so that the test of an unknown field is left out. A password file is a file at \<open>/tmp/pw\<close>. The tests of rpc.rs are about crates: they are
  evaluated on the codec of Rpc_Wire.
\<close>

section \<open>The loader of the tests\<close>

text \<open>The connection settings are the password; the two regexes of the tests are a suffix and a prefix.\<close>

definition contractor_regex :: string where
  "contractor_regex = ''@contractors'' @ [CHR 0x5C] @ ''.example'' @ [CHR 0x5C] @ ''.com$''"

definition test_platform :: "config_doc \<Rightarrow> string option \<Rightarrow> (string option, string option, string, unit) platform" where
  "test_platform doc pw = \<lparr>
     read_to_string = (\<lambda>path. if path = ''/tmp/pw'' then (case pw of None \<Rightarrow> Inl () | Some s \<Rightarrow> Inr s)
       else if path = ''/tmp/config'' then Inr ''config'' else Inl ()),
     toml_from_str = (\<lambda>_. Inr doc),
     into_connection_info = (\<lambda>url. if url = ''not a url'' then Inl ()
       else Inr (if url = ''redis://:embedded-pw@127.0.0.1:6379'' then Some ''embedded-pw'' else None)),
     redis_settings = (\<lambda>info. info), set_redis_settings = (\<lambda>rs _. rs), set_db = (\<lambda>_ rs. rs),
     password = (\<lambda>rs. rs), set_password = (\<lambda>s _. Some s),
     regex_new = Inr,
     is_match = (\<lambda>re s.
       re = contractor_regex \<and> drop (length s - 24) s = ''@contractors.example.com''
       \<or> re = ''^alice@'' \<and> take 6 s = ''alice@'')\<rparr>"

definition load_doc :: "config_doc \<Rightarrow> string option \<Rightarrow> (unit config_error + (string option, string) config) option" where
  "load_doc doc pw = config_load (test_platform doc pw) ''/tmp/config''"

text \<open>The result of a successful load, or what \<open>expect\<close> panics with.\<close>

definition loaded_ok :: "config_doc \<Rightarrow> string option \<Rightarrow> (string option, string) config option" where
  "loaded_ok doc pw = (case load_doc doc pw of Some (Inr c) \<Rightarrow> Some c | _ \<Rightarrow> None)"

definition load_error :: "config_doc \<Rightarrow> string option \<Rightarrow> unit config_error option" where
  "load_error doc pw = (case load_doc doc pw of Some (Inl e) \<Rightarrow> Some e | _ \<Rightarrow> None)"

definition test_window :: "u32 \<Rightarrow> duration \<Rightarrow> window" where
  "test_window n d = \<lparr>count = n, duration = d\<rparr>"

definition hourly :: "u32 \<Rightarrow> window list option" where
  "hourly n = Some [test_window n (from_hours 1)]"

definition test_doc :: "raw_sasl_limit_rule list \<Rightarrow> config_doc" where
  "test_doc rules = \<lparr>doc_url = ''redis://127.0.0.1:6379'', doc_db = Some 1, doc_password_file = None,
     doc_key_prefix = None, doc_socket = ''/tmp/policy'', doc_on_redis_error = None,
     doc_warn_on_unauthenticated = None, doc_control_socket = None, doc_sasl = rules\<rparr>"

definition default_config :: "window list \<Rightarrow> config_doc" where
  "default_config ws = test_doc [RawDefault (Some ws) None]"

definition test_plan_for :: "config_doc \<Rightarrow> string \<Rightarrow> check_plan option" where
  "test_plan_for doc u = map_option (\<lambda>c. plan_for (test_platform doc None) c u) (loaded_ok doc None)"

definition first_limit :: "config_doc \<Rightarrow> string \<Rightarrow> u32 option" where
  "first_limit doc u = Option.bind (test_plan_for doc u) (\<lambda>p. map_option limit (nth_opt (windows p) 0))"

section \<open>src/config.rs\<close>

definition zero_default_rules_is_rejected :: bool where
  "zero_default_rules_is_rejected \<longleftrightarrow>
     load_error (test_doc [RawUsername ''alice'' (hourly 1) None]) None = Some (DefaultCount 0)"

definition multiple_default_rules_is_rejected :: bool where
  "multiple_default_rules_is_rejected \<longleftrightarrow>
     load_error (test_doc [RawDefault (hourly 1) None, RawDefault (hourly 2) None]) None = Some (DefaultCount 2)"

definition default_rule_position_does_not_matter :: bool where
  "default_rule_position_does_not_matter \<longleftrightarrow>
     (let doc = test_doc [RawDefault (hourly 1) None, RawUsername ''alice'' (hourly 2) None]
      in first_limit doc ''alice'' = Some 2 \<and> first_limit doc ''bob'' = Some 1)"

fun too_short :: "'e config_error option \<Rightarrow> nat \<Rightarrow> bool" where
  "too_short (Some (WindowTooShort i _)) j \<longleftrightarrow> i = j"
| "too_short _ _ \<longleftrightarrow> False"

fun too_long :: "'e config_error option \<Rightarrow> nat \<Rightarrow> bool" where
  "too_long (Some (WindowTooLong i _)) j \<longleftrightarrow> i = j"
| "too_long _ _ \<longleftrightarrow> False"

definition subsecond_window_duration_is_rejected :: bool where
  "subsecond_window_duration_is_rejected \<longleftrightarrow>
     too_short (load_error (default_config [test_window 1 (Duration 0 500000000)]) None) 0"

definition zero_second_window_duration_is_rejected :: bool where
  "zero_second_window_duration_is_rejected \<longleftrightarrow>
     too_short (load_error (default_config [test_window 1 (from_secs 0)]) None) 0"

definition window_duration_under_60s_is_rejected :: bool where
  "window_duration_under_60s_is_rejected \<longleftrightarrow>
     too_short (load_error (default_config [test_window 1 (from_secs 59)]) None) 0"

definition empty_windows_is_rejected :: bool where
  "empty_windows_is_rejected \<longleftrightarrow> load_error (default_config []) None = Some (NoWindows 0)"

definition unrestricted_true_is_accepted_and_matches_everything :: bool where
  "unrestricted_true_is_accepted_and_matches_everything \<longleftrightarrow>
     map_option bucket_sizes (test_plan_for
       (test_doc [RawUsername ''alice'' None (Some True), RawDefault (hourly 1) None]) ''alice'') = Some []"

definition unrestricted_false_alongside_windows_is_rejected :: bool where
  "unrestricted_false_alongside_windows_is_rejected \<longleftrightarrow>
     load_error (test_doc [RawDefault (hourly 1) (Some False)]) None = Some (RedundantUnrestrictedFalse 0)"

definition unrestricted_false_alone_is_rejected_as_no_windows :: bool where
  "unrestricted_false_alone_is_rejected_as_no_windows \<longleftrightarrow>
     load_error (test_doc [RawDefault None (Some False)]) None = Some (NoWindows 0)"

definition windows_alongside_unrestricted_true_is_rejected :: bool where
  "windows_alongside_unrestricted_true_is_rejected \<longleftrightarrow>
     load_error (test_doc [RawDefault (hourly 1) (Some True)]) None = Some (WindowsWithUnrestricted 0)"

definition window_duration_of_exactly_60s_is_accepted :: bool where
  "window_duration_of_exactly_60s_is_accepted \<longleftrightarrow>
     loaded_ok (default_config [test_window 1 (from_secs 60)]) None \<noteq> None"

definition bucket_size_hits_target_count_at_min_window_duration :: bool where
  "bucket_size_hits_target_count_at_min_window_duration \<longleftrightarrow> bucket_size MIN_WINDOW_DURATION = MIN_BUCKET_SIZE"

definition bucket_size_at_max_window_duration_does_not_yet_reach_the_clamp :: bool where
  "bucket_size_at_max_window_duration_does_not_yet_reach_the_clamp \<longleftrightarrow>
     bucket_size MAX_WINDOW_DURATION = from_secs 32768"

text \<open>The loop over every second of the range, as a bounded quantifier.\<close>

definition bucket_size_never_exceeds_the_target_fraction_of_duration :: bool where
  "bucket_size_never_exceeds_the_target_fraction_of_duration \<longleftrightarrow>
     (\<forall>secs \<in> {as_secs MIN_WINDOW_DURATION .. as_secs MAX_WINDOW_DURATION}.
        as_secs (bucket_size (from_secs secs)) * BUCKET_TARGET_COUNT \<le> secs)"

definition window_duration_over_31_days_is_rejected :: bool where
  "window_duration_over_31_days_is_rejected \<longleftrightarrow>
     too_long (load_error (default_config [test_window 1 (from_hours (32 * 24))]) None) 0"

definition window_duration_of_exactly_31_days_is_accepted :: bool where
  "window_duration_of_exactly_31_days_is_accepted \<longleftrightarrow>
     loaded_ok (default_config [test_window 1 (from_hours (31 * 24))]) None \<noteq> None"

definition shared_bucket_size_retention_is_the_longer_windows_span :: bool where
  "shared_bucket_size_retention_is_the_longer_windows_span \<longleftrightarrow>
     (let short = from_hours 1; long = from_mins 70
      in bucket_size short = bucket_size long \<and>
         (case test_plan_for (default_config [test_window 1 (from_secs 3600), test_window 1 (from_secs 4200)]) ''anyone'' of
            None \<Rightarrow> False
          | Some p \<Rightarrow> bucket_sizes p = [as_secs (bucket_size short)] \<and>
              map_option span_secs (nth_opt (windows p) 0) = Some (as_secs short) \<and>
              map_option span_secs (nth_opt (windows p) 1) = Some (as_secs long) \<and>
              retention_secs p = [as_secs long]))"

definition windows_with_identical_span_keep_only_the_stricter_limit :: bool where
  "windows_with_identical_span_keep_only_the_stricter_limit \<longleftrightarrow>
     (case test_plan_for (default_config [test_window 100 (from_hours 1), test_window 20 (from_hours 1)]) ''anyone'' of
        None \<Rightarrow> False
      | Some p \<Rightarrow> length (windows p) = 1 \<and> map_option limit (nth_opt (windows p) 0) = Some 20)"

definition password_doc :: "string \<Rightarrow> path option \<Rightarrow> config_doc" where
  "password_doc url file = (test_doc [RawDefault (hourly 1) None])\<lparr>doc_url := url, doc_password_file := file\<rparr>"

definition password_in_url_and_password_file_together_is_rejected :: bool where
  "password_in_url_and_password_file_together_is_rejected \<longleftrightarrow>
     load_error (password_doc ''redis://:embedded-pw@127.0.0.1:6379'' (Some ''/tmp/pw'')) (Some ''secret'')
       = Some AmbiguousPassword"

definition missing_password_file_is_rejected :: bool where
  "missing_password_file_is_rejected \<longleftrightarrow>
     load_error (password_doc ''redis://127.0.0.1:6379'' (Some ''/nonexistent/path'')) None
       = Some (ReadPasswordFile ''/nonexistent/path'' ())"

definition bad_redis_url_is_rejected :: bool where
  "bad_redis_url_is_rejected \<longleftrightarrow>
     load_error (password_doc ''not a url'' None) None = Some (BadRedisUrl ''not a url'' ())"

definition password_in_url_alone_is_used :: bool where
  "password_in_url_alone_is_used \<longleftrightarrow>
     map_option redis_connection_info (loaded_ok (password_doc ''redis://:embedded-pw@127.0.0.1:6379'' None) None)
       = Some (Some ''embedded-pw'')"

definition password_file_alone_is_used_and_trimmed :: bool where
  "password_file_alone_is_used_and_trimmed \<longleftrightarrow>
     map_option redis_connection_info
       (loaded_ok (password_doc ''redis://127.0.0.1:6379'' (Some ''/tmp/pw'')) (Some (''file-pw'' @ [CHR 0x0A])))
       = Some (Some ''file-pw'')"

definition password_file_trailing_space_is_preserved :: bool where
  "password_file_trailing_space_is_preserved \<longleftrightarrow>
     map_option redis_connection_info
       (loaded_ok (password_doc ''redis://127.0.0.1:6379'' (Some ''/tmp/pw'')) (Some (''file-pw '' @ [CHR 0x0A])))
       = Some (Some ''file-pw '')"

definition on_redis_error_defaults_to_defer :: bool where
  "on_redis_error_defaults_to_defer \<longleftrightarrow>
     map_option on_redis_error (loaded_ok (default_config [test_window 1 (from_hours 1)]) None) = Some Defer"

definition warn_on_unauthenticated_defaults_to_true :: bool where
  "warn_on_unauthenticated_defaults_to_true \<longleftrightarrow>
     map_option warn_on_unauthenticated (loaded_ok (default_config [test_window 1 (from_hours 1)]) None) = Some True"

definition control_socket_defaults_to_none :: bool where
  "control_socket_defaults_to_none \<longleftrightarrow>
     map_option control_socket (loaded_ok (default_config [test_window 1 (from_hours 1)]) None) = Some None"

definition control_socket_is_used_when_set :: bool where
  "control_socket_is_used_when_set \<longleftrightarrow>
     map_option control_socket
       (loaded_ok ((test_doc [RawDefault (hourly 1) None])\<lparr>doc_control_socket := Some ''/tmp/control''\<rparr>) None)
       = Some (Some ''/tmp/control'')"

definition control_socket_same_as_socket_is_rejected :: bool where
  "control_socket_same_as_socket_is_rejected \<longleftrightarrow>
     load_error ((test_doc [RawDefault (hourly 1) None])\<lparr>doc_control_socket := Some ''/tmp/policy''\<rparr>) None
       = Some ControlSocketSameAsSocket"

definition a_representative_config_loads_successfully :: bool where
  "a_representative_config_loads_successfully \<longleftrightarrow>
     (let doc = test_doc
          [RawUsername ''alice'' (Some [test_window 20 (from_hours 1), test_window 100 (from_hours 24)]) None,
           RawRegex contractor_regex (hourly 10) None,
           RawDefault (Some [test_window 50 (from_hours 1), test_window 200 (from_hours 24)]) None]
      in first_limit doc ''alice'' = Some 20 \<and> first_limit doc ''bob@contractors.example.com'' = Some 10
         \<and> first_limit doc ''nobody'' = Some 50)"

definition rule_precedence_is_purely_positional_not_type_based :: bool where
  "rule_precedence_is_purely_positional_not_type_based \<longleftrightarrow>
     first_limit (test_doc [RawRegex ''^alice@'' (hourly 10) None, RawUsername ''alice@example.com'' (hourly 20) None,
        RawDefault (hourly 50) None]) ''alice@example.com'' = Some 10"

lemma config_tests_pass:
  bad_redis_url_is_rejected
  zero_default_rules_is_rejected multiple_default_rules_is_rejected default_rule_position_does_not_matter
  subsecond_window_duration_is_rejected zero_second_window_duration_is_rejected
  window_duration_under_60s_is_rejected empty_windows_is_rejected
  unrestricted_true_is_accepted_and_matches_everything unrestricted_false_alongside_windows_is_rejected
  unrestricted_false_alone_is_rejected_as_no_windows windows_alongside_unrestricted_true_is_rejected
  window_duration_of_exactly_60s_is_accepted bucket_size_hits_target_count_at_min_window_duration
  bucket_size_at_max_window_duration_does_not_yet_reach_the_clamp window_duration_over_31_days_is_rejected
  window_duration_of_exactly_31_days_is_accepted shared_bucket_size_retention_is_the_longer_windows_span
  windows_with_identical_span_keep_only_the_stricter_limit
  password_in_url_and_password_file_together_is_rejected missing_password_file_is_rejected
  password_in_url_alone_is_used password_file_alone_is_used_and_trimmed password_file_trailing_space_is_preserved
  on_redis_error_defaults_to_defer warn_on_unauthenticated_defaults_to_true control_socket_defaults_to_none
  control_socket_is_used_when_set control_socket_same_as_socket_is_rejected
  a_representative_config_loads_successfully rule_precedence_is_purely_positional_not_type_based
  by code_simp+

lemma bucket_fraction_test_passes: bucket_size_never_exceeds_the_target_fraction_of_duration
  unfolding bucket_size_never_exceeds_the_target_fraction_of_duration_def
proof
  fix secs assume "secs \<in> {as_secs MIN_WINDOW_DURATION .. as_secs MAX_WINDOW_DURATION}"
  then have "60 \<le> unat (as_secs (from_secs secs))" by (simp add: plan_simps word_le_nat_alt)
  from bucket_secs_fraction [OF this] bucket_secs_le_day [of "from_secs secs"]
  show "as_secs (bucket_size (from_secs secs)) * BUCKET_TARGET_COUNT \<le> secs"
    by (simp add: word_le_nat_alt unat_word_ariths plan_simps)
qed

section \<open>src/limiter.rs\<close>

definition escape_identity_value_borrows_when_nothing_needs_escaping :: bool where
  "escape_identity_value_borrows_when_nothing_needs_escaping \<longleftrightarrow>
     (case escape_identity_value ''alice'' of Borrowed _ \<Rightarrow> True | Owned _ \<Rightarrow> False)"

definition escape_identity_value_allocates_only_when_escaping_is_needed :: bool where
  "escape_identity_value_allocates_only_when_escaping_is_needed \<longleftrightarrow>
     (case escape_identity_value ''alice:64'' of Owned _ \<Rightarrow> True | Borrowed _ \<Rightarrow> False) \<and>
     (case escape_identity_value (''alice'' @ [CHR 0x5C]) of Owned _ \<Rightarrow> True | Borrowed _ \<Rightarrow> False)"

definition identity_distinguishes_kinds_sharing_the_same_value :: bool where
  "identity_distinguishes_kinds_sharing_the_same_value \<longleftrightarrow> identity ''sasl'' ''alice'' \<noteq> identity ''mail-from'' ''alice''"

definition bucket_key_does_not_collide_across_the_identity_bucket_size_boundary :: bool where
  "bucket_key_does_not_collide_across_the_identity_bucket_size_boundary \<longleftrightarrow>
     bucket_key ''prefix'' (identity SASL_IDENTITY_KIND ''alice:64'') 1
       \<noteq> bucket_key ''prefix'' (identity SASL_IDENTITY_KIND ''alice'') 64"

definition bucket_key_does_not_collide_when_a_username_ends_in_a_backslash :: bool where
  "bucket_key_does_not_collide_when_a_username_ends_in_a_backslash \<longleftrightarrow>
     bucket_key ''prefix'' (identity SASL_IDENTITY_KIND (''alice'' @ [CHR 0x5C])) 64
       \<noteq> bucket_key ''prefix'' (identity SASL_IDENTITY_KIND ''alice'') 64"

lemma limiter_tests_pass:
  escape_identity_value_borrows_when_nothing_needs_escaping
  escape_identity_value_allocates_only_when_escaping_is_needed
  identity_distinguishes_kinds_sharing_the_same_value
  bucket_key_does_not_collide_across_the_identity_bucket_size_boundary
  bucket_key_does_not_collide_when_a_username_ends_in_a_backslash
  by code_simp+

section \<open>src/protocol.rs\<close>

definition request_with_sasl_username :: "string \<Rightarrow> request" where
  "request_with_sasl_username u = \<lparr>attributes = [''sasl_username'' \<mapsto> u]\<rparr>"

definition empty_sasl_username_is_absent :: bool where
  "empty_sasl_username_is_absent \<longleftrightarrow> sasl_username (request_with_sasl_username []) = None"

definition whitespace_only_sasl_username_is_absent :: bool where
  "whitespace_only_sasl_username_is_absent \<longleftrightarrow> sasl_username (request_with_sasl_username ''   '') = None"

definition sasl_username_is_trimmed :: bool where
  "sasl_username_is_trimmed \<longleftrightarrow> sasl_username (request_with_sasl_username ''  alice  '') = Some ''alice''"

lemma protocol_tests_pass:
  empty_sasl_username_is_absent whitespace_only_sasl_username_is_absent sasl_username_is_trimmed
  by code_simp+

section \<open>src/control/rpc.rs\<close>

definition read_request :: "string \<Rightarrow> string + u64 rpc_request" where
  "read_request json = (case value_of_line text_rpc json of Inl e \<Rightarrow> Inl e | Inr v \<Rightarrow> request_of_value text_rpc v)"

definition response_with_both_result_and_error_is_rejected :: bool where
  "response_with_both_result_and_error_is_rejected \<longleftrightarrow> isl (response_of_text text_rpc
     ''{\"jsonrpc\":\"2.0\",\"result\":1,\"error\":{\"code\":-32603,\"message\":\"x\"},\"id\":1}'')"

definition response_with_neither_result_nor_error_is_rejected :: bool where
  "response_with_neither_result_nor_error_is_rejected \<longleftrightarrow> isl (response_of_text text_rpc
     ''{\"jsonrpc\":\"2.0\",\"id\":1}'')"

definition request_with_a_non_2_0_version_is_rejected :: bool where
  "request_with_a_non_2_0_version_is_rejected \<longleftrightarrow> isl (read_request
     ''{\"jsonrpc\":\"1.0\",\"method\":\"limits.sasl\",\"id\":1}'')"

definition request_with_a_missing_version_defaults_to_2_0 :: bool where
  "request_with_a_missing_version_defaults_to_2_0 \<longleftrightarrow> \<not> isl (read_request
     ''{\"method\":\"limits.sasl\",\"id\":1}'')"

lemma test_texts:
  "''{\"jsonrpc\":\"2.0\",\"result\":1,\"error\":{\"code\":-32603,\"message\":\"x\"},\"id\":1}'' = print_json (JObj
     [(''jsonrpc'', JStr ''2.0''), (''result'', JInt 1),
      (''error'', JObj [(''code'', JInt (- 32603)), (''message'', JStr ''x'')]), (''id'', JInt 1)])"
  "''{\"jsonrpc\":\"2.0\",\"id\":1}'' = print_json (JObj [(''jsonrpc'', JStr ''2.0''), (''id'', JInt 1)])"
  "''{\"jsonrpc\":\"1.0\",\"method\":\"limits.sasl\",\"id\":1}'' = print_json (JObj
     [(''jsonrpc'', JStr ''1.0''), (''method'', JStr ''limits.sasl''), (''id'', JInt 1)])"
  "''{\"method\":\"limits.sasl\",\"id\":1}'' = print_json (JObj [(''method'', JStr ''limits.sasl''), (''id'', JInt 1)])"
proof -
  have "show_int 1 = ''1''" "show_int (- 32603) = ''-32603''" by (simp_all add: show_int_def show_nat.simps)
  note print = this print_string_def escape_char_def
  show "''{\"jsonrpc\":\"2.0\",\"result\":1,\"error\":{\"code\":-32603,\"message\":\"x\"},\"id\":1}'' = print_json (JObj
     [(''jsonrpc'', JStr ''2.0''), (''result'', JInt 1),
      (''error'', JObj [(''code'', JInt (- 32603)), (''message'', JStr ''x'')]), (''id'', JInt 1)])" by (simp add: print)
  show "''{\"jsonrpc\":\"2.0\",\"id\":1}'' = print_json (JObj [(''jsonrpc'', JStr ''2.0''), (''id'', JInt 1)])"
    by (simp add: print)
  show "''{\"jsonrpc\":\"1.0\",\"method\":\"limits.sasl\",\"id\":1}'' = print_json (JObj
     [(''jsonrpc'', JStr ''1.0''), (''method'', JStr ''limits.sasl''), (''id'', JInt 1)])" by (simp add: print)
  show "''{\"method\":\"limits.sasl\",\"id\":1}'' = print_json (JObj [(''method'', JStr ''limits.sasl''), (''id'', JInt 1)])"
    by (simp add: print)
qed

lemma rpc_tests_pass:
  response_with_both_result_and_error_is_rejected response_with_neither_result_nor_error_is_rejected
  request_with_a_non_2_0_version_is_rejected request_with_a_missing_version_defaults_to_2_0
proof -
  have sendable: "sendable (JObj [(''jsonrpc'', JStr ''2.0''), (''result'', JInt 1),
      (''error'', JObj [(''code'', JInt (- 32603)), (''message'', JStr ''x'')]), (''id'', JInt 1)])"
    "sendable (JObj [(''jsonrpc'', JStr ''2.0''), (''id'', JInt 1)])"
    "sendable (JObj [(''jsonrpc'', JStr ''1.0''), (''method'', JStr ''limits.sasl''), (''id'', JInt 1)])"
    "sendable (JObj [(''method'', JStr ''limits.sasl''), (''id'', JInt 1)])"
    by (simp_all add: int64_def)
  note read = sendable [THEN read_print_json] sendable [THEN print_json_line(1)]
  show response_with_both_result_and_error_is_rejected response_with_neither_result_nor_error_is_rejected
    unfolding response_with_both_result_and_error_is_rejected_def response_with_neither_result_nor_error_is_rejected_def
      test_texts(1,2)
    by (simp_all add: text_rpc_def read response_of_json_def version_ok_def id_of_def del: print_json.simps)
  show request_with_a_non_2_0_version_is_rejected request_with_a_missing_version_defaults_to_2_0
    unfolding request_with_a_non_2_0_version_is_rejected_def request_with_a_missing_version_defaults_to_2_0_def
      test_texts(3,4) read_request_def
    by (simp_all add: text_rpc_def read request_of_json_def version_ok_def id_of_def METHOD_NAME_BYTES_def
        del: print_json.simps)
qed

section \<open>src/bin/postfix-ratelimitd.rs\<close>

text \<open>The number of calls of the closure is the number of its lines that are logged.\<close>

definition log_throttled_calls_log_line_up_to_the_limit_then_suppresses :: bool where
  "log_throttled_calls_log_line_up_to_the_limit_then_suppresses \<longleftrightarrow>
     (case throttled_run (unat (LOG_SUPPRESSION_LIMIT * 2)) 0 ''test'' No_Sasl_Username of
        (counter, ls) \<Rightarrow> length (filter (\<lambda>l. l = No_Sasl_Username) ls) = unat LOG_SUPPRESSION_LIMIT
          \<and> counter = LOG_SUPPRESSION_LIMIT * 2)"

lemma daemon_tests_pass: log_throttled_calls_log_line_up_to_the_limit_then_suppresses
  by (simp add: log_throttled_calls_log_line_up_to_the_limit_then_suppresses_def throttled_run_lines
      LOG_SUPPRESSION_LIMIT_def)

end
