(* ===== verification/Reload.thy ===== *)
theory Reload
  imports Daemon
begin

text \<open>
  Reloading: \<open>Limiter::new\<close> of \<open>src/limiter.rs\<close>, and \<open>same_redis_connection\<close>,
  \<open>reload_config\<close> and the SIGHUP worker of \<open>src/bin/postfix-ratelimitd.rs\<close>. The client library
  opens connections and compares addresses: \<open>client_lib\<close> is a parameter.
\<close>

section \<open>Connections\<close>

text \<open>The settings of the connection manager: how long it waits and how often it tries again.\<close>

record manager_config =
  connection_timeout :: "duration option"
  response_timeout :: "duration option"
  number_of_retries :: nat
  max_delay :: "duration option"

definition CONNECTION_TIMEOUT :: duration where "CONNECTION_TIMEOUT = from_secs 3"
definition RESPONSE_TIMEOUT :: duration where "RESPONSE_TIMEOUT = from_secs 3"
definition CONNECTION_RETRIES :: nat where "CONNECTION_RETRIES = 3"
definition CONNECTION_RETRY_MAX_DELAY :: duration where "CONNECTION_RETRY_MAX_DELAY = from_secs 1"

definition MANAGER_CONFIG :: manager_config where
  "MANAGER_CONFIG = \<lparr>connection_timeout = Some CONNECTION_TIMEOUT, response_timeout = Some RESPONSE_TIMEOUT,
     number_of_retries = CONNECTION_RETRIES, max_delay = Some CONNECTION_RETRY_MAX_DELAY\<rparr>"

text \<open>Opening a connection includes the retries of the manager.\<close>

record ('ci, 'rs, 'cn, 'ad, 'pr) client_lib =
  open_manager :: "manager_config \<Rightarrow> 'ci \<Rightarrow> redis_error + 'cn"
  ci_addr :: "'ci \<Rightarrow> 'ad"
  rs_db :: "'rs \<Rightarrow> int"
  rs_username :: "'rs \<Rightarrow> string option"
  rs_protocol :: "'rs \<Rightarrow> 'pr"

text \<open>Opening a connection and checking the server's commands; \<open>s\<close> is the server's state.\<close>

definition Limiter_new :: "('ci, 'rs, 'cn, 'ad, 'pr) client_lib \<Rightarrow> ('cn \<Rightarrow> 's server_cmds) \<Rightarrow> 's \<Rightarrow>
    'ci \<Rightarrow> string \<Rightarrow> redis_error + 'cn limiter" where
  "Limiter_new C V s info pre =
     (case open_manager C MANAGER_CONFIG info of
        Inl e \<Rightarrow> Inl e
      | Inr cn \<Rightarrow>
          (case check_command_support (V cn) s REQUIRED_COMMANDS of
             Inl e \<Rightarrow> Inl e
           | Inr _ \<Rightarrow> Inr \<lparr>connection_manager = cn, limiter_key_prefix = pre\<rparr>))"

definition same_redis_connection :: "('ci, 'rs, 're, 'e) platform \<Rightarrow> ('ci, 'rs, 'cn, 'ad, 'pr) client_lib \<Rightarrow>
    'ci \<Rightarrow> 'ci \<Rightarrow> bool" where
  "same_redis_connection P C a b =
     (let ra = redis_settings P a; rb = redis_settings P b
      in ci_addr C a = ci_addr C b \<and> rs_db C ra = rs_db C rb \<and> rs_username C ra = rs_username C rb
         \<and> password P ra = password P rb \<and> rs_protocol C ra = rs_protocol C rb)"

section \<open>One reload\<close>

datatype 'e reload_error =
    Load_Failed "'e config_error"
  | Socket_Changed
  | Control_Socket_Changed
  | Connect_Failed redis_error

text \<open>
  \<open>reload_config\<close>: the error that it logs, if any, and the state that readers see afterwards.
  \<open>None\<close> is the panic that \<open>Config::load\<close> could raise.
\<close>

definition reload_config :: "('ci, 'rs, 're, 'e) platform \<Rightarrow> ('ci, 'rs, 'cn, 'ad, 'pr) client_lib \<Rightarrow>
    ('cn \<Rightarrow> 's server_cmds) \<Rightarrow> 's \<Rightarrow> path \<Rightarrow> ('ci, 're, 'cn) runtime_state \<Rightarrow>
    ('e reload_error option \<times> ('ci, 're, 'cn) runtime_state) option" where
  "reload_config P C V s path state =
     (let cur = config_of_state state
      in case config_load P path of
           None \<Rightarrow> None
         | Some (Inl err) \<Rightarrow> Some (Some (Load_Failed err), state)
         | Some (Inr new_config) \<Rightarrow>
             if \<not> path_eq (socket new_config) (socket cur) then Some (Some Socket_Changed, state)
             else if \<not> path_opt_eq (control_socket new_config) (control_socket cur)
             then Some (Some Control_Socket_Changed, state)
             else if \<not> same_redis_connection P C (redis_connection_info new_config) (redis_connection_info cur)
                 \<or> redis_key_prefix new_config \<noteq> redis_key_prefix cur
             then (case Limiter_new C V s (redis_connection_info new_config) (redis_key_prefix new_config) of
                     Inl err \<Rightarrow> Some (Some (Connect_Failed err), state)
                   | Inr new_limiter \<Rightarrow>
                       Some (None, \<lparr>config_of_state = new_config, limiter_of_state = new_limiter\<rparr>))
             else Some (None, \<lparr>config_of_state = new_config, limiter_of_state = limiter_of_state state\<rparr>))"

text \<open>
  The invariant of the swapped state: every plan is fit for the script, the limiter's prefix is
  the config's, and the limiter's connection was opened, and its server checked, with settings
  that are the config's.
\<close>

definition runtime_ok :: "('ci, 'rs, 're, 'e) platform \<Rightarrow> ('ci, 'rs, 'cn, 'ad, 'pr) client_lib \<Rightarrow>
    ('cn \<Rightarrow> 's server_cmds) \<Rightarrow> ('ci, 're, 'cn) runtime_state \<Rightarrow> bool" where
  "runtime_ok P C V state \<longleftrightarrow>
     (\<forall>u. plan_wf (plan_for P (config_of_state state) u) \<and> plan_fine (plan_for P (config_of_state state) u)) \<and>
     limiter_key_prefix (limiter_of_state state) = redis_key_prefix (config_of_state state) \<and>
     (\<exists>info s. open_manager C MANAGER_CONFIG info = Inr (connection_manager (limiter_of_state state)) \<and>
        check_command_support (V (connection_manager (limiter_of_state state))) s REQUIRED_COMMANDS = Inr () \<and>
        same_redis_connection P C (redis_connection_info (config_of_state state)) info)"

lemma same_redis_connection_refl [simp]: "same_redis_connection P C a a"
  by (simp add: same_redis_connection_def)

lemma same_redis_connection_trans:
  "same_redis_connection P C a b \<Longrightarrow> same_redis_connection P C b c \<Longrightarrow> same_redis_connection P C a c"
  by (simp add: same_redis_connection_def Let_def)

lemma Limiter_new_Inr:
  "Limiter_new C V s info pre = Inr lm \<longleftrightarrow>
     open_manager C MANAGER_CONFIG info = Inr (connection_manager lm) \<and> limiter_key_prefix lm = pre \<and>
     check_command_support (V (connection_manager lm)) s REQUIRED_COMMANDS = Inr ()"
  by (cases lm) (auto simp: Limiter_new_def case_sum_eq_Inr)

lemma reload_config_cases:
  assumes "reload_config P C V s path state = Some (err, state')"
  obtains e where "err = Some e" and "state' = state"
  | "err = None" and "config_load P path = Some (Inr (config_of_state state'))"
    and "path_eq (socket (config_of_state state')) (socket (config_of_state state))"
    and "path_opt_eq (control_socket (config_of_state state')) (control_socket (config_of_state state))"
    and "limiter_of_state state' = limiter_of_state state
        \<and> same_redis_connection P C (redis_connection_info (config_of_state state'))
            (redis_connection_info (config_of_state state))
        \<and> redis_key_prefix (config_of_state state') = redis_key_prefix (config_of_state state)
      \<or> Limiter_new C V s (redis_connection_info (config_of_state state'))
          (redis_key_prefix (config_of_state state')) = Inr (limiter_of_state state')"
  using assms
  by (auto simp: reload_config_def Let_def split: option.splits sum.splits if_splits)

lemma reload_config_returns: "\<exists>err state'. reload_config P C V s path state = Some (err, state')"
  using config_load_no_panic [of P path]
  by (auto simp: reload_config_def Let_def split: option.splits sum.splits)

text \<open>
  The files change while the daemon runs, and servers come and go: a reload reads the files as
  they are then, and opening a connection succeeds or fails as the server can be reached then.
  \<open>open_manager C\<close> itself is what a successful attempt gives.
\<close>

definition dials :: "('ci, 'rs, 'cn, 'ad, 'pr) client_lib \<Rightarrow>
    (manager_config \<Rightarrow> 'ci \<Rightarrow> redis_error + 'cn) \<Rightarrow> bool" where
  "dials C dial \<longleftrightarrow> (\<forall>cfg info cn. dial cfg info = Inr cn \<longrightarrow> open_manager C cfg info = Inr cn)"

lemma dials_always [simp]: "dials C (open_manager C)"
  by (simp add: dials_def)

lemma dials_Limiter_new:
  "dials C dial \<Longrightarrow> Limiter_new (C\<lparr>open_manager := dial\<rparr>) V s info pre = Inr lm \<Longrightarrow> Limiter_new C V s info pre = Inr lm"
  by (auto simp: Limiter_new_Inr dials_def)

lemma plan_for_files [simp]: "plan_for (P\<lparr>read_to_string := files\<rparr>) = plan_for P"
  by (intro ext) (simp add: plan_for_def rule_matches_def cong: sasl_matcher.case_cong)

lemma same_redis_connection_files [simp]:
  "same_redis_connection (P\<lparr>read_to_string := files\<rparr>) (C\<lparr>open_manager := dial\<rparr>) = same_redis_connection P C"
  by (intro ext) (simp add: same_redis_connection_def)

lemma reload_config_ok:
  assumes ok: "runtime_ok P C V state" and dial: "dials C dial"
    and reload: "reload_config (P\<lparr>read_to_string := files\<rparr>) (C\<lparr>open_manager := dial\<rparr>) V s path state = Some (err, state')"
  shows "runtime_ok P C V state'"
  using reload
proof (cases rule: reload_config_cases)
  case 1
  then show ?thesis using ok by simp
next
  case 2
  let ?c = "config_of_state state'"
  have plans: "plan_wf (plan_for P ?c u) \<and> plan_fine (plan_for P ?c u)" for u
    using config_plans_ok [OF 2(2)] by simp
  from 2(5) [unfolded same_redis_connection_files] show ?thesis
  proof
    assume kept: "limiter_of_state state' = limiter_of_state state
        \<and> same_redis_connection P C (redis_connection_info ?c) (redis_connection_info (config_of_state state))
        \<and> redis_key_prefix ?c = redis_key_prefix (config_of_state state)"
    let ?cn = "connection_manager (limiter_of_state state)"
    have "\<exists>info t. open_manager C MANAGER_CONFIG info = Inr ?cn \<and> check_command_support (V ?cn) t REQUIRED_COMMANDS = Inr ()
        \<and> same_redis_connection P C (redis_connection_info (config_of_state state)) info"
      using ok by (simp add: runtime_ok_def)
    then obtain info t where open': "open_manager C MANAGER_CONFIG info = Inr ?cn"
      and check: "check_command_support (V ?cn) t REQUIRED_COMMANDS = Inr ()"
      and same: "same_redis_connection P C (redis_connection_info (config_of_state state)) info"
      by (elim exE conjE)
    have "same_redis_connection P C (redis_connection_info ?c) info"
      using kept same_redis_connection_trans [OF _ same] by simp
    moreover have "limiter_key_prefix (limiter_of_state state') = redis_key_prefix ?c"
      using ok kept by (simp add: runtime_ok_def)
    moreover have "connection_manager (limiter_of_state state') = ?cn" using kept by simp
    ultimately show ?thesis using plans open' check by (auto simp: runtime_ok_def)
  next
    assume "Limiter_new (C\<lparr>open_manager := dial\<rparr>) V s (redis_connection_info ?c) (redis_key_prefix ?c)
        = Inr (limiter_of_state state')"
    from dials_Limiter_new [OF dial this] show ?thesis using plans by (auto simp: runtime_ok_def Limiter_new_Inr intro: exI [of _ "redis_connection_info ?c"])
  qed
qed

section \<open>The SIGHUP worker\<close>

text \<open>
  The main loop and the worker run on different threads; every step below is one atomic
  operation of one of them. \<open>sent\<close>, \<open>seen\<close> and \<open>served\<close> are ghosts: the signals handled so
  far, those handled when the current pass read \<open>reload_requests\<close>, and those handled when the
  last finished pass did.
\<close>

datatype main_pc = Waiting | Bumped

datatype worker_pc = Not_Running | Loop_Top | Loading u64 | Comparing u64 | Leaving

record reload_sys =
  reload_requests :: u64
  reload_in_progress :: bool
  main_at :: main_pc
  worker_at :: worker_pc
  sent :: nat
  seen :: nat
  served :: nat
  missed :: bool

definition reload_init :: reload_sys where
  "reload_init = \<lparr>reload_requests = 0, reload_in_progress = False, main_at = Waiting,
     worker_at = Not_Running, sent = 0, seen = 0, served = 0, missed = False\<rparr>"

inductive reload_step :: "reload_sys \<Rightarrow> reload_sys \<Rightarrow> bool" where
  hangup: "main_at x = Waiting \<Longrightarrow>
    reload_step x (x\<lparr>reload_requests := reload_requests x + 1, sent := sent x + 1, main_at := Bumped\<rparr>)"
| spawn: "main_at x = Bumped \<Longrightarrow> \<not> reload_in_progress x \<Longrightarrow>
    reload_step x (x\<lparr>reload_in_progress := True, main_at := Waiting, worker_at := Loop_Top\<rparr>)"
| leave_to_worker: "main_at x = Bumped \<Longrightarrow> reload_in_progress x \<Longrightarrow>
    reload_step x (x\<lparr>main_at := Waiting, missed := missed x \<or> worker_at x = Leaving\<rparr>)"
| load_generation: "worker_at x = Loop_Top \<Longrightarrow>
    reload_step x (x\<lparr>worker_at := Loading (reload_requests x), seen := sent x, missed := False\<rparr>)"
| reloaded: "worker_at x = Loading g \<Longrightarrow>
    reload_step x (x\<lparr>worker_at := Comparing g, served := seen x\<rparr>)"
| once_more: "worker_at x = Comparing g \<Longrightarrow> reload_requests x \<noteq> g \<Longrightarrow>
    reload_step x (x\<lparr>worker_at := Loop_Top\<rparr>)"
| break_out: "worker_at x = Comparing g \<Longrightarrow> reload_requests x = g \<Longrightarrow>
    reload_step x (x\<lparr>worker_at := Leaving\<rparr>)"
| clear_flag: "worker_at x = Leaving \<Longrightarrow>
    reload_step x (x\<lparr>reload_in_progress := False, worker_at := Not_Running\<rparr>)"

text \<open>Neither thread has anything left to do.\<close>

definition at_rest :: "reload_sys \<Rightarrow> bool" where
  "at_rest x \<longleftrightarrow> main_at x = Waiting \<and> worker_at x = Not_Running"

definition reload_inv :: "reload_sys \<Rightarrow> bool" where
  "reload_inv x \<longleftrightarrow>
     reload_requests x = of_nat (sent x) \<and> (reload_in_progress x \<longleftrightarrow> worker_at x \<noteq> Not_Running) \<and>
     served x \<le> sent x \<and> seen x \<le> sent x \<and>
     (case worker_at x of
        Not_Running \<Rightarrow> main_at x = Waiting \<longrightarrow> missed x \<or> served x = sent x
      | Loop_Top \<Rightarrow> True
      | Loading g \<Rightarrow> g = of_nat (seen x) \<and> \<not> missed x
      | Comparing g \<Rightarrow> g = of_nat (seen x) \<and> served x = seen x \<and> \<not> missed x
      | Leaving \<Rightarrow> served x = seen x \<and> (main_at x = Waiting \<longrightarrow> missed x \<or> served x = sent x))"

lemma reload_inv_init: "reload_inv reload_init"
  by (simp add: reload_inv_def reload_init_def)

lemma reload_inv_step:
  assumes "reload_step x y" and "reload_inv x" and "sent y < 2 ^ 64"
  shows "reload_inv y"
  using assms(1)
proof cases
  case (break_out g)
  then have "(of_nat (sent x) :: u64) = of_nat (seen x)" "seen x \<le> sent x" "sent x < 2 ^ 64"
    using assms(2,3) by (auto simp: reload_inv_def)
  then have "sent x = seen x" by (simp add: word_unat_eq_iff unat_of_nat)
  then show ?thesis using break_out assms(2) by (auto simp: reload_inv_def)
qed (use assms(2) in \<open>auto simp: reload_inv_def split: worker_pc.splits\<close>)

lemma reload_sent_mono: "reload_step x y \<Longrightarrow> sent x \<le> sent y"
  by (induction rule: reload_step.induct) auto

lemma reload_inv_reachable:
  "reload_step\<^sup>*\<^sup>* reload_init x \<Longrightarrow> sent x < 2 ^ 64 \<Longrightarrow> reload_inv x"
proof (induction rule: rtranclp_induct)
  case base
  show ?case by (rule reload_inv_init)
next
  case (step x y)
  then have "sent x < 2 ^ 64" using reload_sent_mono by fastforce
  then show ?case using step reload_inv_step by blast
qed

text \<open>At rest every signal has been followed by a reload that started after it, unless one was missed.\<close>

lemma signals_served_unless_missed:
  assumes "reload_step\<^sup>*\<^sup>* reload_init x" and "sent x < 2 ^ 64" and "at_rest x" and "\<not> missed x"
  shows "served x = sent x"
  using reload_inv_reachable [OF assms(1,2)] assms(3,4) by (simp add: reload_inv_def at_rest_def)

text \<open>Between signals the two threads come to rest: every step but a signal decreases this.\<close>

definition reload_work :: "reload_sys \<Rightarrow> nat" where
  "reload_work x =
     (case main_at x of Waiting \<Rightarrow> 0 | Bumped \<Rightarrow> 9)
     + (case worker_at x of
          Not_Running \<Rightarrow> 0
        | Leaving \<Rightarrow> 1
        | Comparing g \<Rightarrow> if g = reload_requests x then 2 else 6
        | Loading g \<Rightarrow> if g = reload_requests x then 3 else 7
        | Loop_Top \<Rightarrow> 5)"

lemma reload_work_decreases:
  "reload_step x y \<Longrightarrow> sent y = sent x \<Longrightarrow> reload_work y < reload_work x"
  by (induction rule: reload_step.induct) (auto simp: reload_work_def split: worker_pc.splits)

lemma reload_not_stuck: "reload_inv x \<Longrightarrow> \<not> at_rest x \<Longrightarrow> \<exists>y. reload_step x y \<and> sent y = sent x"
proof -
  assume inv: "reload_inv x" and busy: "\<not> at_rest x"
  show ?thesis
  proof (cases "main_at x = Bumped")
    case True
    then show ?thesis using spawn [of x] leave_to_worker [of x]
      by (cases "reload_in_progress x") fastforce+
  next
    case False
    then have "main_at x = Waiting" by (cases "main_at x") auto
    then have "worker_at x \<noteq> Not_Running" using busy by (simp add: at_rest_def)
    then show ?thesis
      using load_generation [of x] reloaded [of x] once_more [of x] break_out [of x] clear_flag [of x]
      by (cases "worker_at x") fastforce+
  qed
qed

definition quiet_step :: "reload_sys \<Rightarrow> reload_sys \<Rightarrow> bool" where
  "quiet_step x y \<longleftrightarrow> reload_step x y \<and> sent y = sent x"

lemma quiet_steps_end: "\<not> (\<forall>i. quiet_step (f i) (f (Suc i)))"
proof
  assume steps: "\<forall>i. quiet_step (f i) (f (Suc i))"
  have "reload_work (f i) + i \<le> reload_work (f 0)" for i
  proof (induction i)
    case (Suc i)
    have "reload_work (f (Suc i)) < reload_work (f i)"
      using steps reload_work_decreases by (simp add: quiet_step_def)
    with Suc show ?case by simp
  qed simp
  from this [of "Suc (reload_work (f 0))"] show False by simp
qed

lemma reload_comes_to_rest:
  "reload_inv x \<Longrightarrow> sent x < 2 ^ 64 \<Longrightarrow> \<exists>y. quiet_step\<^sup>*\<^sup>* x y \<and> at_rest y"
proof (induction "reload_work x" arbitrary: x rule: less_induct)
  case less
  show ?case
  proof (cases "at_rest x")
    case True
    then show ?thesis by blast
  next
    case False
    then obtain y where y: "reload_step x y" "sent y = sent x" using reload_not_stuck less.prems by blast
    then have "reload_work y < reload_work x" "reload_inv y" "sent y < 2 ^ 64"
      using reload_work_decreases reload_inv_step less.prems by auto
    then obtain z where "quiet_step\<^sup>*\<^sup>* y z" "at_rest z" using less.hyps by blast
    moreover have "quiet_step x y" using y by (simp add: quiet_step_def)
    ultimately show ?thesis by (meson converse_rtranclp_into_rtranclp)
  qed
qed

lemma reload_worker_finishes:
  assumes "reload_step\<^sup>*\<^sup>* reload_init x" and "sent x < 2 ^ 64"
  shows "(\<exists>y. quiet_step\<^sup>*\<^sup>* x y \<and> at_rest y) \<and> \<not> (\<exists>f. f 0 = x \<and> (\<forall>i. quiet_step (f i) (f (Suc i))))"
  using reload_comes_to_rest [OF reload_inv_reachable [OF assms] assms(2)] quiet_steps_end by blast

text \<open>The states of a worker that serves one signal, and of a second signal that comes too late.\<close>

definition one_served :: reload_sys where
  "one_served = \<lparr>reload_requests = 1, reload_in_progress = False, main_at = Waiting,
     worker_at = Not_Running, sent = 1, seen = 1, served = 1, missed = False\<rparr>"

definition worker_leaving :: reload_sys where
  "worker_leaving = one_served\<lparr>reload_in_progress := True, worker_at := Leaving\<rparr>"

definition one_missed :: reload_sys where
  "one_missed = one_served\<lparr>reload_requests := 2, sent := 2, missed := True\<rparr>"

lemma worker_leaving_reachable: "reload_step\<^sup>*\<^sup>* reload_init worker_leaving"
proof -
  let ?a = "reload_init\<lparr>reload_requests := 1, sent := 1, main_at := Bumped\<rparr>"
  let ?b = "?a\<lparr>reload_in_progress := True, main_at := Waiting, worker_at := Loop_Top\<rparr>"
  let ?c = "?b\<lparr>worker_at := Loading 1, seen := 1\<rparr>"
  let ?d = "?c\<lparr>worker_at := Comparing 1, served := 1\<rparr>"
  have "reload_step reload_init ?a" using hangup [of reload_init] by (simp add: reload_init_def)
  moreover have "reload_step ?a ?b" using spawn [of ?a] by (simp add: reload_init_def)
  moreover have "reload_step ?b ?c" using load_generation [of ?b] by (simp add: reload_init_def)
  moreover have "reload_step ?c ?d" using reloaded [of ?c 1] by (simp add: reload_init_def)
  moreover have "reload_step ?d worker_leaving"
    using break_out [of ?d 1] by (simp add: reload_init_def worker_leaving_def one_served_def)
  ultimately show ?thesis by (meson converse_rtranclp_into_rtranclp rtranclp.rtrancl_refl)
qed

lemma one_served_reachable: "reload_step\<^sup>*\<^sup>* reload_init one_served"
proof -
  have "reload_step worker_leaving one_served"
    using clear_flag [of worker_leaving] by (simp add: worker_leaving_def one_served_def)
  then show ?thesis using worker_leaving_reachable by (meson rtranclp.rtrancl_into_rtrancl)
qed

lemma one_missed_reachable: "reload_step\<^sup>*\<^sup>* reload_init one_missed"
proof -
  let ?a = "worker_leaving\<lparr>reload_requests := 2, sent := 2, main_at := Bumped\<rparr>"
  let ?b = "?a\<lparr>main_at := Waiting, missed := True\<rparr>"
  have "reload_step worker_leaving ?a" using hangup [of worker_leaving] by (simp add: worker_leaving_def one_served_def numeral_2_eq_2)
  moreover have "reload_step ?a ?b" using leave_to_worker [of ?a] by (simp add: worker_leaving_def one_served_def)
  moreover have "reload_step ?b one_missed"
    using clear_flag [of ?b] by (simp add: worker_leaving_def one_served_def one_missed_def)
  ultimately show ?thesis using worker_leaving_reachable by (meson rtranclp.rtrancl_into_rtrancl)
qed

end
