(* ===== verification/Startup.thy ===== *)
theory Startup
  imports Reload
begin

text \<open>
  Starting the daemon (\<open>main\<close> of \<open>src/bin/postfix-ratelimitd.rs\<close> up to the accept loop): the
  config check, the startup locks, the server connection and the sockets. The operating system
  is outside the program: its calls are the operations of \<open>os\<close>, a parameter, and the laws of
  the locale \<open>socket_files\<close> state what \<open>umask(2)\<close>, \<open>bind(2)\<close> and \<open>chmod(2)\<close> do.
\<close>

unbundle bit_operations_syntax

section \<open>The operating system\<close>

datatype os_error = Not_Found | Permission_Denied | Would_Block | Other_Error

record ('o, 'h) os =
  os_connect :: "path \<Rightarrow> 'o \<Rightarrow> os_error option"
  os_remove_file :: "path \<Rightarrow> 'o \<Rightarrow> os_error option \<times> 'o"
  os_umask :: "u32 \<Rightarrow> 'o \<Rightarrow> u32 \<times> 'o"
  os_bind :: "path \<Rightarrow> 'o \<Rightarrow> os_error option \<times> 'o"
  os_set_permissions :: "path \<Rightarrow> u32 \<Rightarrow> 'o \<Rightarrow> os_error option \<times> 'o"
  os_open_lock :: "path \<Rightarrow> 'o \<Rightarrow> (os_error + 'h) \<times> 'o"
  os_try_lock :: "'h \<Rightarrow> 'o \<Rightarrow> os_error option \<times> 'o"
  os_process_id :: nat

definition SOCKET_MODE :: u32 where "SOCKET_MODE = 0x1B0"
definition CONTROL_SOCKET_MODE :: u32 where "CONTROL_SOCKET_MODE = 0x180"
definition SOCKET_CREATE_UMASK :: u32 where "SOCKET_CREATE_UMASK = 0x7F"

text \<open>The octal constants 0o660, 0o600 and 0o177 of the source, digit by digit.\<close>

lemma socket_modes_octal:
  "SOCKET_MODE = (6 * 8 + 6) * 8 + 0" "CONTROL_SOCKET_MODE = (6 * 8 + 0) * 8 + 0"
  "SOCKET_CREATE_UMASK = (1 * 8 + 7) * 8 + 7"
  by (simp_all add: SOCKET_MODE_def CONTROL_SOCKET_MODE_def SOCKET_CREATE_UMASK_def)

definition SOCKET_PROBE_PREFIX :: string where "SOCKET_PROBE_PREFIX = ''.rl-check-''"
definition LOCK_FILE_SUFFIX :: string where "LOCK_FILE_SUFFIX = ''.lock''"

text \<open>Why the daemon does not start: what \<open>fatal\<close> logs before the failure exit code.\<close>

datatype 'e fatal_error =
    Unacknowledged_Test_Build
  | Config_Failed "'e config_error"
  | Directory_Check_Failed path os_error
  | Lock_Held path
  | Lock_Failed path os_error
  | Client_Failed redis_error
  | Socket_In_Use path
  | Stale_Socket_Not_Removed path os_error
  | Bind_Failed path os_error
  | Permissions_Failed path os_error

section \<open>The socket's directory\<close>

fun render_components :: "path_component list \<Rightarrow> path" where
  "render_components [] = []"
| "render_components [RootDir] = ''/''"
| "render_components (RootDir # cs) = ''/'' @ render_components cs"
| "render_components [c] =
     (case c of CurDir \<Rightarrow> ''.'' | ParentDir \<Rightarrow> ''..'' | Normal s \<Rightarrow> s | RootDir \<Rightarrow> ''/'')"
| "render_components (c # cs) =
     (case c of CurDir \<Rightarrow> ''.'' | ParentDir \<Rightarrow> ''..'' | Normal s \<Rightarrow> s | RootDir \<Rightarrow> ''/'')
     @ ''/'' @ render_components cs"

text \<open>\<open>Path::parent\<close>, up to redundant separators.\<close>

definition path_parent :: "path \<Rightarrow> path option" where
  "path_parent p =
     (let cs = path_components p
      in if cs = [] \<or> last cs = RootDir then None else Some (render_components (butlast cs)))"

definition path_join :: "path \<Rightarrow> string \<Rightarrow> path" where
  "path_join dir name = (if dir \<noteq> [] \<and> last dir = CHR ''/'' then dir @ name else dir @ ''/'' @ name)"

definition probe_path :: "('o, 'h) os \<Rightarrow> path \<Rightarrow> path" where
  "probe_path os_ops sock =
     path_join (case path_parent sock of None \<Rightarrow> ''.'' | Some dir \<Rightarrow> if dir = [] then ''.'' else dir)
       (SOCKET_PROBE_PREFIX @ show_nat (os_process_id os_ops))"

definition check_socket_directory :: "('o, 'h) os \<Rightarrow> path \<Rightarrow> 'o \<Rightarrow> os_error option \<times> 'o" where
  "check_socket_directory os_ops sock w =
     (case os_bind os_ops (probe_path os_ops sock) w of
        (Some e, w') \<Rightarrow> (Some e, w')
      | (None, w') \<Rightarrow> os_remove_file os_ops (probe_path os_ops sock) w')"

fun check_directories :: "('o, 'h) os \<Rightarrow> path list \<Rightarrow> 'o \<Rightarrow> 'e fatal_error option \<times> 'o" where
  "check_directories os_ops [] w = (None, w)"
| "check_directories os_ops (sock # socks) w =
     (case check_socket_directory os_ops sock w of
        (Some e, w') \<Rightarrow> (Some (Directory_Check_Failed sock e), w')
      | (None, w') \<Rightarrow> check_directories os_ops socks w')"

section \<open>Locks and sockets\<close>

definition acquire_startup_lock :: "('o, 'h) os \<Rightarrow> path \<Rightarrow> 'o \<Rightarrow> (os_error + 'h) \<times> 'o" where
  "acquire_startup_lock os_ops sock w =
     (case os_open_lock os_ops (sock @ LOCK_FILE_SUFFIX) w of
        (Inl e, w') \<Rightarrow> (Inl e, w')
      | (Inr h, w') \<Rightarrow>
          (case os_try_lock os_ops h w' of
             (Some e, w'') \<Rightarrow> (Inl e, w'')
           | (None, w'') \<Rightarrow> (Inr h, w'')))"

definition acquire_startup_lock_or_fatal :: "('o, 'h) os \<Rightarrow> path \<Rightarrow> 'o \<Rightarrow> ('e fatal_error + 'h) \<times> 'o" where
  "acquire_startup_lock_or_fatal os_ops sock w =
     (case acquire_startup_lock os_ops sock w of
        (Inl e, w') \<Rightarrow> (Inl (if e = Would_Block then Lock_Held sock else Lock_Failed sock e), w')
      | (Inr h, w') \<Rightarrow> (Inr h, w'))"

definition socket_is_live :: "('o, 'h) os \<Rightarrow> path \<Rightarrow> 'o \<Rightarrow> bool" where
  "socket_is_live os_ops sock w =
     (case os_connect os_ops sock w of None \<Rightarrow> True | Some e \<Rightarrow> e = Permission_Denied)"

definition set_umask :: "('o, 'h) os \<Rightarrow> u32 \<Rightarrow> 'o \<Rightarrow> u32 \<times> 'o" where
  "set_umask os_ops new_mask w = os_umask os_ops new_mask w"

text \<open>\<open>bind_socket\<close>: the bound path stands for the listener.\<close>

definition bind_socket :: "('o, 'h) os \<Rightarrow> path \<Rightarrow> u32 \<Rightarrow> 'o \<Rightarrow> ('e fatal_error + path) \<times> 'o" where
  "bind_socket os_ops sock mode w =
     (if socket_is_live os_ops sock w then (Inl (Socket_In_Use sock), w)
      else
     (case os_remove_file os_ops sock w of
        (removed, w1) \<Rightarrow>
     if removed \<noteq> None \<and> removed \<noteq> Some Not_Found
     then (Inl (Stale_Socket_Not_Removed sock (the removed)), w1)
     else
     (case set_umask os_ops SOCKET_CREATE_UMASK w1 of
        (previous_umask, w2) \<Rightarrow>
     (case os_bind os_ops sock w2 of
        (bound, w3) \<Rightarrow>
     (case set_umask os_ops previous_umask w3 of
        (_, w4) \<Rightarrow>
     (case bound of
        Some e \<Rightarrow> (Inl (Bind_Failed sock e), w4)
      | None \<Rightarrow>
     (case os_set_permissions os_ops sock mode w4 of
        (Some e, w5) \<Rightarrow> (Inl (Permissions_Failed sock e), w5)
      | (None, w5) \<Rightarrow> (Inr sock, w5))))))))"

section \<open>Startup\<close>

datatype ('e, 'h, 'rt) startup =
    Startup_Failed "'e fatal_error"
  | Config_Checked
  | Serving 'rt "'h list" "path list"

text \<open>
  \<open>main\<close>: the flag and the acknowledgment of a test build, the command line's config path and
  \<open>--check-config\<close>. \<open>None\<close> is a panic of \<open>Config::load\<close>. The result \<open>Serving\<close> holds the
  runtime state, the locks and the listeners.
\<close>

definition startup_main :: "bool \<Rightarrow> bool \<Rightarrow> ('ci, 'rs, 're, 'e) platform \<Rightarrow> ('ci, 'rs, 'cn, 'ad, 'pr) client_lib \<Rightarrow>
    ('cn \<Rightarrow> 's server_cmds) \<Rightarrow> 's \<Rightarrow> ('o, 'h) os \<Rightarrow> path \<Rightarrow> bool \<Rightarrow> 'o \<Rightarrow>
    (('e, 'h, ('ci, 're, 'cn) runtime_state) startup \<times> 'o) option" where
  "startup_main tests acknowledged P C V s os_ops config_path check_config w =
     (if tests \<and> \<not> acknowledged then Some (Startup_Failed Unacknowledged_Test_Build, w)
      else
     (case config_load P config_path of
        None \<Rightarrow> None
      | Some (Inl e) \<Rightarrow> Some (Startup_Failed (Config_Failed e), w)
      | Some (Inr c) \<Rightarrow>
     if check_config
     then (case check_directories os_ops
                  (socket c # (case control_socket c of None \<Rightarrow> [] | Some cs \<Rightarrow> [cs])) w of
             (Some e, w') \<Rightarrow> Some (Startup_Failed e, w')
           | (None, w') \<Rightarrow> Some (Config_Checked, w'))
     else
     (case acquire_startup_lock_or_fatal os_ops (socket c) w of
        (Inl e, w1) \<Rightarrow> Some (Startup_Failed e, w1)
      | (Inr lock, w1) \<Rightarrow>
     (case (case control_socket c of
              None \<Rightarrow> (Inr [], w1)
            | Some cs \<Rightarrow>
                (case acquire_startup_lock_or_fatal os_ops cs w1 of
                   (Inl e, w2) \<Rightarrow> (Inl e, w2)
                 | (Inr control_lock, w2) \<Rightarrow> (Inr [control_lock], w2))) of
        (Inl e, w2) \<Rightarrow> Some (Startup_Failed e, w2)
      | (Inr control_locks, w2) \<Rightarrow>
     (case Limiter_new C V s (redis_connection_info c) (redis_key_prefix c) of
        Inl e \<Rightarrow> Some (Startup_Failed (Client_Failed e), w2)
      | Inr lm \<Rightarrow>
     (case bind_socket os_ops (socket c) SOCKET_MODE w2 of
        (Inl e, w3) \<Rightarrow> Some (Startup_Failed e, w3)
      | (Inr listener, w3) \<Rightarrow>
     (case (case control_socket c of
              None \<Rightarrow> (Inr [], w3)
            | Some cs \<Rightarrow>
                (case bind_socket os_ops cs CONTROL_SOCKET_MODE w3 of
                   (Inl e, w4) \<Rightarrow> (Inl e, w4)
                 | (Inr l, w4) \<Rightarrow> (Inr [l], w4))) of
        (Inl e, w4) \<Rightarrow> Some (Startup_Failed e, w4)
      | (Inr control_listeners, w4) \<Rightarrow>
          Some (Serving \<lparr>config_of_state = c, limiter_of_state = lm\<rparr> (lock # control_locks)
            (listener # control_listeners), w4))))))))"

section \<open>What the system calls do\<close>

text \<open>
  The views are the process's umask and the mode of the file at a path. A socket is created
  with every permission that the umask does not clear.
\<close>

locale socket_files =
  fixes os_ops :: "('o, 'h) os" and umask_of :: "'o \<Rightarrow> u32" and mode_of :: "'o \<Rightarrow> path \<Rightarrow> u32 option"
  assumes umask_law: "os_umask os_ops m w = (previous, w') \<Longrightarrow>
      previous = umask_of w \<and> umask_of w' = m AND 0x1FF \<and> mode_of w' = mode_of w"
    and umask_range: "umask_of w AND 0x1FF = umask_of w"
    and bind_law: "os_bind os_ops p w = (e, w') \<Longrightarrow> umask_of w' = umask_of w \<and>
      (if e = None then mode_of w' = (mode_of w)(p \<mapsto> 0x1FF AND NOT (umask_of w)) else mode_of w' = mode_of w)"
    and remove_law: "os_remove_file os_ops p w = (e, w') \<Longrightarrow> umask_of w' = umask_of w \<and>
      (if e = None then mode_of w' = (mode_of w)(p := None) else mode_of w' = mode_of w)"
    and permissions_law: "os_set_permissions os_ops p m w = (e, w') \<Longrightarrow> umask_of w' = umask_of w \<and>
      (if e = None then mode_of w' = (mode_of w)(p \<mapsto> m) else mode_of w' = mode_of w)"
begin

lemma bind_socket_umask: "bind_socket os_ops sock mode w = (r, w') \<Longrightarrow> umask_of w' = umask_of w"
proof -
  assume b: "bind_socket os_ops sock mode w = (r, w')"
  show ?thesis
  proof (cases "socket_is_live os_ops sock w")
    case True
    then show ?thesis using b by (simp add: bind_socket_def)
  next
    case False
    obtain removed w1 where w1: "os_remove_file os_ops sock w = (removed, w1)" by fastforce
    obtain prev w2 where w2: "os_umask os_ops SOCKET_CREATE_UMASK w1 = (prev, w2)" by fastforce
    obtain bound w3 where w3: "os_bind os_ops sock w2 = (bound, w3)" by fastforce
    obtain u w4 where w4: "os_umask os_ops prev w3 = (u, w4)" by fastforce
    obtain e w5 where w5: "os_set_permissions os_ops sock mode w4 = (e, w5)" by fastforce
    have "umask_of w1 = umask_of w" using remove_law [OF w1] by simp
    moreover have "umask_of w4 = umask_of w1"
      using umask_law [OF w2] umask_law [OF w4] umask_range [of w1] by simp
    moreover have "umask_of w5 = umask_of w4" using permissions_law [OF w5] by simp
    ultimately show ?thesis using b False w1 w2 w3 w4 w5
      by (auto simp: bind_socket_def set_umask_def split: if_splits option.splits)
  qed
qed

lemma bind_socket_mode: "bind_socket os_ops sock mode w = (Inr l, w') \<Longrightarrow> mode_of w' sock = Some mode"
proof -
  assume "bind_socket os_ops sock mode w = (Inr l, w')"
  then obtain w4 where "os_set_permissions os_ops sock mode w4 = (None, w')"
    by (auto simp: bind_socket_def split: if_splits option.splits prod.splits)
  from permissions_law [OF this] show ?thesis by simp
qed

text \<open>Between \<open>bind\<close> and \<open>chmod\<close> the socket is open to its owner only.\<close>

lemma bind_window_mode:
  assumes "os_umask os_ops SOCKET_CREATE_UMASK w1 = (prev, w2)" and "os_bind os_ops sock w2 = (None, w3)"
    and "os_umask os_ops prev w3 = (u, w4)"
  shows "mode_of w3 sock = Some 0x180" and "mode_of w4 sock = Some 0x180"
  using umask_law [OF assms(1)] bind_law [OF assms(2)] umask_law [OF assms(3)]
  by (auto simp: SOCKET_CREATE_UMASK_def)

end

text \<open>A file table with a umask, for evaluation.\<close>

record files =
  files_mode :: "path \<Rightarrow> u32 option"
  files_umask :: u32
  files_live :: "path \<Rightarrow> bool"
  files_locked :: "path \<Rightarrow> bool"

definition files_os :: "(files, path) os" where
  "files_os = \<lparr>
     os_connect = (\<lambda>p w. if files_live w p then None else Some Not_Found),
     os_remove_file = (\<lambda>p w. if files_mode w p = None then (Some Not_Found, w)
       else (None, w\<lparr>files_mode := (files_mode w)(p := None)\<rparr>)),
     os_umask = (\<lambda>m w. (files_umask w AND 0x1FF, w\<lparr>files_umask := m AND 0x1FF\<rparr>)),
     os_bind = (\<lambda>p w. if files_mode w p \<noteq> None then (Some Other_Error, w)
       else (None, w\<lparr>files_mode := (files_mode w)(p \<mapsto> 0x1FF AND NOT (files_umask w AND 0x1FF))\<rparr>)),
     os_set_permissions = (\<lambda>p m w. if files_mode w p = None then (Some Not_Found, w)
       else (None, w\<lparr>files_mode := (files_mode w)(p \<mapsto> m)\<rparr>)),
     os_open_lock = (\<lambda>p w. (Inr p, w)),
     os_try_lock = (\<lambda>p w. if files_locked w p then (Some Would_Block, w)
       else (None, w\<lparr>files_locked := (files_locked w)(p := True)\<rparr>)),
     os_process_id = 42\<rparr>"

interpretation files: socket_files files_os "\<lambda>w. files_umask w AND 0x1FF" files_mode
  by unfold_locales (auto simp: files_os_def and.assoc split: if_splits)

section \<open>Nothing is touched without the locks\<close>

text \<open>
  Whoever fails to get the lock of the policy socket stops before the server is contacted and
  before any socket file is removed.
\<close>

lemma startup_without_lock:
  assumes "config_load P config_path = Some (Inr c)"
    and "acquire_startup_lock os_ops (socket c) w = (Inl e, w1)"
  shows "startup_main False acknowledged P C V s os_ops config_path False w =
    Some (Startup_Failed (if e = Would_Block then Lock_Held (socket c) else Lock_Failed (socket c) e), w1)"
  using assms by (simp add: startup_main_def acquire_startup_lock_or_fatal_def)

lemma startup_main_returns: "\<exists>r. startup_main tests acknowledged P C V s os_ops config_path check_config w = Some r"
  using config_load_no_panic [of P config_path]
  by (auto simp: startup_main_def split: option.splits sum.splits prod.splits)

lemma startup_serving:
  assumes "startup_main tests acknowledged P C V s os_ops config_path check_config w = Some (Serving rt locks ls, w')"
  shows "\<not> check_config" and "tests \<longrightarrow> acknowledged"
    and "config_load P config_path = Some (Inr (config_of_state rt))"
    and "Limiter_new C V s (redis_connection_info (config_of_state rt)) (redis_key_prefix (config_of_state rt))
      = Inr (limiter_of_state rt)"
  using assms
  by (auto simp: startup_main_def split: if_splits option.splits sum.splits prod.splits)

lemma startup_checked:
  assumes "startup_main tests acknowledged P C V s os_ops config_path check_config w = Some (Config_Checked, w')"
  shows "check_config \<and> (\<exists>c. config_load P config_path = Some (Inr c))"
  using assms by (auto simp: startup_main_def split: if_splits option.splits sum.splits prod.splits)

lemma startup_runtime_ok:
  assumes "startup_main tests acknowledged P C V s os_ops config_path check_config w = Some (Serving rt locks ls, w')"
  shows "runtime_ok P C V rt"
  using startup_serving(3,4) [OF assms] config_plans_ok [OF startup_serving(3) [OF assms]]
  by (auto simp: runtime_ok_def Limiter_new_Inr intro!: exI [of _ "redis_connection_info (config_of_state rt)"])

end
