(* ===== verification/Isolation.thy ===== *)
theory Isolation
  imports Limiter_Correct
begin

text \<open>
  What a check leaves alone. The script writes only to the keys it is given, whatever they hold
  and however it ends, so one sender's checks never touch what the server keeps for another.
\<close>

definition same_key :: "('s \<Rightarrow> string \<Rightarrow> (string \<rightharpoonup> string)) \<Rightarrow> ('s \<Rightarrow> string \<Rightarrow> nat option) \<Rightarrow>
    ('s \<Rightarrow> nat) \<Rightarrow> ('s \<Rightarrow> string \<Rightarrow> bool) \<Rightarrow> string \<Rightarrow> 's \<Rightarrow> 's \<Rightarrow> bool" where
  "same_key hash deadline clock serves k s s' \<longleftrightarrow>
     hash s' k = hash s k \<and> deadline s' k = deadline s k \<and> serves s' k = serves s k \<and> clock s' = clock s"

lemma same_key_refl [simp]: "same_key hash deadline clock serves k s s"
  by (simp add: same_key_def)

lemma same_key_trans:
  "same_key hash deadline clock serves k s t \<Longrightarrow> same_key hash deadline clock serves k t r \<Longrightarrow>
    same_key hash deadline clock serves k s r"
  by (simp add: same_key_def)

context hash_server
begin

lemma hincrby_same:
  "cmd_hincrby cmds s k f v = Inr s' \<Longrightarrow> k' \<noteq> k \<Longrightarrow> same_key hash deadline clock serves k' s s'"
  using hincrby_other [of s k f v s' k'] by (simp add: same_key_def)

lemma hdel_same:
  "cmd_hdel cmds s k fs = Inr s' \<Longrightarrow> k' \<noteq> k \<Longrightarrow> same_key hash deadline clock serves k' s s'"
  using hdel_other [of s k fs s' k'] by (simp add: same_key_def)

lemma expire_same:
  "cmd_expire cmds s k v = Inr s' \<Longrightarrow> k' \<noteq> k \<Longrightarrow> same_key hash deadline clock serves k' s s'"
  using expire_other [of s k v s' k'] by (simp add: same_key_def)

lemma record_key_frame:
  assumes "record_key cmds now n k bs ret em s = (r, s')" and "k' \<noteq> k"
  shows "same_key hash deadline clock serves k' s s'"
proof (cases "cmd_hincrby cmds s k (show_int (now div bs)) (show_int n)")
  case (Inl e)
  then show ?thesis using assms by (simp add: record_key_def)
next
  case (Inr s1)
  note h1 = hincrby_same [OF Inr assms(2)]
  show ?thesis
  proof (cases ret)
    case None
    then show ?thesis using assms Inr h1 by (simp add: record_key_def)
  next
    case (Some R)
    show ?thesis
    proof (cases "cmd_expire cmds s1 k (show_int (R + bs))")
      case (Inl e)
      then show ?thesis using assms Inr Some h1 by (simp add: record_key_def)
    next
      case s2: (Inr s2)
      have h2: "same_key hash deadline clock serves k' s s2"
        using h1 expire_same [OF s2 assms(2)] by (rule same_key_trans)
      have "s' = s2 \<or> (\<exists>ids. cmd_hdel cmds s2 k ids = Inr s')"
        using assms(1) Inr Some s2
        by (auto simp: record_key_def split: sum.splits option.splits prod.splits if_splits)
      then show ?thesis using h2 hdel_same [OF _ assms(2)] same_key_trans [OF h2] by blast
    qed
  qed
qed

lemma record_keys_frame:
  "record_keys cmds now n keys sizes rets ems s = (r, s') \<Longrightarrow> k' \<notin> set keys \<Longrightarrow>
    same_key hash deadline clock serves k' s s'"
proof (induction keys arbitrary: sizes rets ems s)
  case Nil
  then show ?case by simp
next
  case (Cons k keys)
  show ?case
  proof (cases "sizes = [] \<or> ems = []")
    case True
    then show ?thesis using Cons.prems by (cases sizes; cases ems) auto
  next
    case False
    then obtain bs sizes' em ems' where eqs: "sizes = bs # sizes'" "ems = em # ems'"
      by (metis neq_Nil_conv)
    obtain r1 s1 where step:
      "record_key cmds now n k bs (case rets of [] \<Rightarrow> None | r # _ \<Rightarrow> Some r) em s = (r1, s1)"
      by (cases "record_key cmds now n k bs (case rets of [] \<Rightarrow> None | r # _ \<Rightarrow> Some r) em s")
    have h: "same_key hash deadline clock serves k' s s1"
      using record_key_frame [OF step] Cons.prems(2) by simp
    show ?thesis
    proof (cases r1)
      case (Inl e)
      then show ?thesis using Cons.prems(1) h by (simp add: eqs step)
    next
      case (Inr u)
      then have "record_keys cmds now n keys sizes' (drop 1 rets) ems' s1 = (r, s')"
        using Cons.prems(1) by (simp add: eqs step)
      from Cons.IH [OF this] Cons.prems(2) h show ?thesis using same_key_trans by fastforce
    qed
  qed
qed

lemma check_and_record_frame:
  assumes "check_and_record cmds codec keys arg s = (r, s')" and "k' \<notin> set keys"
  shows "same_key hash deadline clock serves k' s s'"
proof -
  have "s' = s \<or> (\<exists>now n sizes rets ems r. record_keys cmds now n keys sizes rets ems s = (r, s'))"
    using assms(1)
    by (auto simp: check_and_record_def split: sum.splits option.splits prod.splits bool.splits)
  then show ?thesis using record_keys_frame [OF _ assms(2)] by auto
qed

lemma check_sasl_other:
  assumes "check_sasl cmds codec net pre u n p t s = (r, s')" and "u \<noteq> v"
  shows "same_key hash deadline clock serves (sender_key pre v b) s s'"
proof -
  let ?keys = "map (sender_key pre u) (bucket_sizes p)"
  have "sender_key pre v b \<notin> set ?keys" using assms(2) by (auto dest: sender_key_inj)
  note frame = check_and_record_frame [OF _ this]
  have "s' = s \<or> (\<exists>arg r. check_and_record cmds codec ?keys arg s = (r, s'))"
    using assms(1)
    by (auto simp: check_sasl_def Let_def split: if_splits delivery.splits prod.splits sum.splits)
      (metis surjective_pairing)+
  then show ?thesis using frame by auto
qed

lemma sender_rep_same:
  assumes wf: "plan_wf p" and rep: "sender_rep hash deadline clock serves pre u p H s"
    and same: "\<And>b. same_key hash deadline clock serves (sender_key pre u b) s s'"
  shows "sender_rep hash deadline clock serves pre u p H s'"
proof -
  have "key_rep hash deadline clock serves H s' (k, bs, R)" if "(k, bs, R) \<in> set (plan_keys pre u p)" for k bs R
  proof -
    have "k \<in> sender_key pre u ` set (bucket_sizes p)"
      using that plan_keys_arrays(1) [OF wf, of pre u] by (metis fst_conv image_eqI list.set_map)
    then obtain b where "k = sender_key pre u b" by auto
    moreover have "key_rep hash deadline clock serves H s (k, bs, R)"
      using rep that by (simp add: sender_rep_def)
    ultimately show ?thesis
      using key_rep_cong [of hash s' k s deadline clock serves H bs R] same [of b] by (simp add: same_key_def)
  qed
  moreover have "clock s' = clock s" using same by (simp add: same_key_def)
  ultimately show ?thesis using rep by (auto simp: sender_rep_def)
qed

text \<open>The three deliveries of a check, against the log of the checked sender.\<close>

lemma check_sasl_delivery:
  assumes wf: "plan_wf p" and fine: "plan_fine p" and codec: "codec_ok codec"
    and rep: "sender_rep hash deadline clock serves pre u p H s"
    and check: "check_sasl cmds codec net pre u n p None s = (r, s')"
  shows "sender_rep hash deadline clock serves pre u p
      (if plan_admits p H (clock s) (unat n) \<and> (net \<noteq> Request_Lost \<or> bucket_sizes p = [])
       then H @ [(clock s, unat n)] else H) s'
    \<and> r = (if bucket_sizes p = [] then Inr True
           else if net = Delivered then Inr (plan_admits p H (clock s) (unat n)) else Inl Transport_Error)
    \<and> (bucket_sizes p = [] \<longrightarrow> plan_admits p H (clock s) (unat n))
    \<and> clock s' = clock s"
proof -
  obtain s1 where s1: "check_sasl cmds codec Delivered pre u n p None s
      = (Inr (plan_admits p H (clock s) (unat n)), s1)"
    "sender_rep hash deadline clock serves pre u p
        (if plan_admits p H (clock s) (unat n) then H @ [(clock s, unat n)] else H) s1"
    "clock s1 = clock s"
    using check_sasl_correct [OF wf fine codec rep, of n] by blast
  show ?thesis
  proof (cases "bucket_sizes p = []")
    case True
    then have "check_sasl cmds codec net pre u n p None s = check_sasl cmds codec Delivered pre u n p None s"
      by (simp add: check_sasl_def)
    moreover have "plan_admits p H (clock s) (unat n)"
      using True wf by (cases "windows p") (auto simp: plan_wf_def plan_admits_def)
    ultimately show ?thesis using check s1 True by simp
  next
    case False
    then show ?thesis using check s1 rep
      by (cases net) (auto simp: check_sasl_def Let_def split: sum.splits prod.splits)
  qed
qed

text \<open>The fields of a key are few, whatever the log.\<close>

lemma key_fields_bounded:
  assumes wf: "plan_wf p" and fine: "plan_fine p"
    and rep: "sender_rep hash deadline clock serves pre u p H s" and b: "b \<in> set (bucket_sizes p)"
  shows "finite (dom (hash s (sender_key pre u b))) \<and> card (dom (hash s (sender_key pre u b))) \<le> 101"
proof -
  obtain i where i: "i < length (bucket_sizes p)" "bucket_sizes p ! i = b"
    using b by (metis in_set_conv_nth)
  let ?R = "retention_secs p ! i"
  have "(sender_key pre u b, unat b, unat ?R) \<in> set (plan_keys pre u p)"
    using plan_keys_nth [OF wf i(1), of pre u] plan_keys_arrays(4) [OF wf, of pre u] i nth_mem by metis
  with rep have key: "key_rep hash deadline clock serves H s (sender_key pre u b, unat b, unat ?R)"
    by (simp add: sender_rep_def)
  obtain w where w: "w \<in> set (windows p)" "bucket_sizes p ! key_index w = b" "span_secs w = ?R"
    using wf i unfolding plan_wf_def by metis
  have "0 < unat b" using wf b by (simp add: plan_wf_def)
  moreover have "unat ?R < 100 * unat b" using plan_fine_window(1) [OF fine w(1)] w by simp
  ultimately have "unat ?R div unat b < 100" by (simp add: div_less_iff_less_mult)
  let ?c = "\<lambda>b'. logged H (\<lambda>t. t div unat b = b')"
  obtain bl where "cmd_hgetall cmds s (sender_key pre u b)
      = Inr (flat_pairs (map (\<lambda>b'. (show_nat b', show_nat (?c b'))) bl))"
    and bl: "distinct bl" "dom (hash s (sender_key pre u b)) = show_nat ` set bl"
    and live: "\<And>c. c \<in> set bl \<Longrightarrow> live_bucket (unat b) (unat ?R) H c"
    using hgetall_key [OF key] by blast
  have "length bl \<le> unat ?R div unat b + 2" by (rule live_buckets_few [OF bl(1) live \<open>0 < unat b\<close>])
  moreover have "card (show_nat ` set bl) \<le> length bl"
    using card_image_le [of "set bl" show_nat] card_length [of bl] by (meson List.finite_set le_trans)
  ultimately show ?thesis using \<open>unat ?R div unat b < 100\<close> by (simp add: bl(2))
qed

end

end
