(* ===== verification/Service.thy ===== *)
theory Service
  imports Reload Control_Socket Isolation "HOL-Library.Sublist"
begin

text \<open>
  The running daemon: connections of both kinds, the swapped runtime state, the counters and the
  server, under every interleaving of what can happen - connections accepted and served, bytes
  arriving, time passing on the server, reloads and reports. Each handler's turn is one step:
  its only shared effects are the script's execution, which the server serialises, and atomic
  counters. A ghost records what was decided.
\<close>

section \<open>State\<close>

text \<open>
  One entry of \<open>answers\<close> per request that reached the limiter: the server's time, the sender,
  the recipients and the action. \<open>journal\<close> has the lines of the request handlers, the accept loop and
  the reports, each at the place where its counter moves.
\<close>

type_synonym answer = "nat \<times> string \<times> nat \<times> string"

record ('ci, 're, 'cn, 's, 'r) daemon =
  runtime :: "('ci, 're, 'cn) runtime_state"
  counters :: stats
  active :: nat
  policy_conns :: "nat \<rightharpoonup> 'r"
  control_conns :: "nat \<rightharpoonup> 'r"
  server :: 's
  answers :: "answer list"
  journal :: "log_line list"

definition noted :: "('ci, 'rs, 're, 'e) platform \<Rightarrow> ('cn \<Rightarrow> 's server_cmds) \<Rightarrow> 'txt json_text \<Rightarrow>
    'r line_source \<Rightarrow> ('s \<Rightarrow> nat) \<Rightarrow> turn_env \<Rightarrow> ('ci, 're, 'cn) runtime_state \<Rightarrow> 'r \<Rightarrow> stats \<Rightarrow> 's \<Rightarrow> answer list" where
  "noted P V codec read_line clock env current r st s =
     (if cancelled env then []
      else case read_from read_line r of
        Some (Inr (Some req), _) \<Rightarrow>
          (case checkable req of
             None \<Rightarrow> []
           | Some (user, n) \<Rightarrow>
               [(clock s, user, unat n,
                 fst (handle_request False P V codec (network env) req (config_of_state current)
                        (limiter_of_state current) st s))])
      | _ \<Rightarrow> [])"

text \<open>A turn of the policy connection \<open>i\<close>.\<close>

definition serve_turn :: "('ci, 'rs, 're, 'e) platform \<Rightarrow> ('cn \<Rightarrow> 's server_cmds) \<Rightarrow> 'txt json_text \<Rightarrow>
    'r line_source \<Rightarrow> ('s \<Rightarrow> nat) \<Rightarrow> turn_env \<Rightarrow> nat \<Rightarrow> ('ci, 're, 'cn, 's, 'r) daemon \<Rightarrow>
    ('ci, 're, 'cn, 's, 'r) daemon option" where
  "serve_turn P V codec read_line clock env i d =
     (case policy_conns d i of
        None \<Rightarrow> None
      | Some r \<Rightarrow>
          (case connection_turn False P V codec read_line env (runtime d) r (counters d) (server d) of
             None \<Rightarrow> None
           | Some (how, ls, st, s') \<Rightarrow>
               Some (d\<lparr>counters := st, server := s', journal := journal d @ ls,
                  answers := answers d
                    @ noted P V codec read_line clock env (runtime d) r (counters d) (server d),
                  active := (case how of Closed _ \<Rightarrow> release_connection (active d) | Continues _ _ \<Rightarrow> active d),
                  policy_conns := (policy_conns d)
                    (i := (case how of Closed _ \<Rightarrow> None | Continues r' _ \<Rightarrow> Some r'))\<rparr>)))"

text \<open>A turn of the control connection \<open>i\<close>: it reads the server and changes nothing there.\<close>

definition control_serve :: "'id rpc_lib \<Rightarrow> ('ci, 'rs, 're, 'e) platform \<Rightarrow> ('cn \<Rightarrow> 's server_cmds) \<Rightarrow>
    'r line_source \<Rightarrow> bool \<Rightarrow> bool \<Rightarrow> nat \<Rightarrow> ('ci, 're, 'cn, 's, 'r) daemon \<Rightarrow>
    ('ci, 're, 'cn, 's, 'r) daemon option" where
  "control_serve L P V read_line is_cancelled write_fails i d =
     (case control_conns d i of
        None \<Rightarrow> None
      | Some r \<Rightarrow>
          (case control_turn L P V read_line is_cancelled write_fails (runtime d) r (server d) of
             Some (Continues r' _) \<Rightarrow> Some (d\<lparr>control_conns := (control_conns d)(i \<mapsto> r')\<rparr>)
           | _ \<Rightarrow> Some (d\<lparr>active := release_connection (active d),
                          control_conns := (control_conns d)(i := None)\<rparr>)))"

definition accept_connection :: "connection_kind \<Rightarrow> nat \<Rightarrow> 'r \<Rightarrow> ('ci, 're, 'cn, 's, 'r) daemon \<Rightarrow>
    ('ci, 're, 'cn, 's, 'r) daemon" where
  "accept_connection kind i r d =
     (case admit_connection kind (active d) (counters d) of
        (n, st, ls, spawned) \<Rightarrow>
          let d' = d\<lparr>active := n, counters := st, journal := journal d @ ls\<rparr>
          in if \<not> spawned then d'
             else (case kind of
                     Policy \<Rightarrow> d'\<lparr>policy_conns := (policy_conns d)(i \<mapsto> r)\<rparr>
                   | Control \<Rightarrow> d'\<lparr>control_conns := (control_conns d)(i \<mapsto> r)\<rparr>))"

section \<open>Steps\<close>

text \<open>
  Which listeners can yield a connection: that of the control socket exists when the config named
  one at the start, which reloads do not change; otherwise \<open>accept_control\<close> never resolves.
\<close>

definition accept_control :: "connection_kind \<Rightarrow> ('ci, 're, 'cn) runtime_state \<Rightarrow> bool" where
  "accept_control kind state \<longleftrightarrow> (kind = Control \<longrightarrow> control_socket (config_of_state state) \<noteq> None)"

definition bucket_keys :: "string set" where
  "bucket_keys = {k. \<exists>pre ident b. k = bucket_key pre ident b}"

text \<open>
  The parameters are fixed for a run, but for the files, which are what they are when a reload
  reads them, and for the servers, which may not be reached. While time passes, other clients of
  the server leave the bucket keys alone.
\<close>

inductive service_step ::
    "('ci, 'rs, 're, 'e) platform \<Rightarrow> ('ci, 'rs, 'cn, 'ad, 'pr) client_lib \<Rightarrow> ('cn \<Rightarrow> 's server_cmds) \<Rightarrow>
     'txt json_text \<Rightarrow> 'r line_source \<Rightarrow> 'id rpc_lib \<Rightarrow> path \<Rightarrow>
     ('s \<Rightarrow> string \<Rightarrow> (string \<rightharpoonup> string)) \<Rightarrow> ('s \<Rightarrow> string \<Rightarrow> nat option) \<Rightarrow> ('s \<Rightarrow> nat) \<Rightarrow> ('s \<Rightarrow> string \<Rightarrow> bool) \<Rightarrow>
     ('ci, 're, 'cn, 's, 'r) daemon \<Rightarrow> ('ci, 're, 'cn, 's, 'r) daemon \<Rightarrow> bool"
  for P C V codec read_line L path hash deadline clock serves where
  pass_time: "idle hash deadline clock serves bucket_keys (server d) s' \<Longrightarrow>
    service_step P C V codec read_line L path hash deadline clock serves d (d\<lparr>server := s'\<rparr>)"
| accepted_stream: "policy_conns d i = None \<Longrightarrow> control_conns d i = None \<Longrightarrow> accept_control kind (runtime d) \<Longrightarrow>
    service_step P C V codec read_line L path hash deadline clock serves d (accept_connection kind i r d)"
| accept_error: "accept_failed kind (counters d) = (st, ls) \<Longrightarrow> accept_control kind (runtime d) \<Longrightarrow>
    service_step P C V codec read_line L path hash deadline clock serves d (d\<lparr>counters := st, journal := journal d @ ls\<rparr>)"
| bytes_arrive: "policy_conns d i \<noteq> None \<Longrightarrow>
    service_step P C V codec read_line L path hash deadline clock serves d
      (d\<lparr>policy_conns := (policy_conns d)(i \<mapsto> r)\<rparr>)"
| control_bytes_arrive: "control_conns d i \<noteq> None \<Longrightarrow>
    service_step P C V codec read_line L path hash deadline clock serves d
      (d\<lparr>control_conns := (control_conns d)(i \<mapsto> r)\<rparr>)"
| serve: "serve_turn P V codec read_line clock env i d = Some d' \<Longrightarrow>
    service_step P C V codec read_line L path hash deadline clock serves d d'"
| serve_control: "control_serve L P V read_line is_cancelled write_fails i d = Some d' \<Longrightarrow>
    service_step P C V codec read_line L path hash deadline clock serves d d'"
| reload: "dials C dial \<Longrightarrow>
    reload_config (P\<lparr>read_to_string := files\<rparr>) (C\<lparr>open_manager := dial\<rparr>) V (server d) path (runtime d)
      = Some (err, state') \<Longrightarrow>
    service_step P C V codec read_line L path hash deadline clock serves d (d\<lparr>runtime := state'\<rparr>)"
| report: "report_stats (active d) (counters d) = (ls, st) \<Longrightarrow>
    service_step P C V codec read_line L path hash deadline clock serves d (d\<lparr>counters := st, journal := journal d @ ls\<rparr>)"

section \<open>The connection limit\<close>

text \<open>The gauge counts the open connections exactly, and never exceeds the limit.\<close>

definition slots_ok :: "('ci, 're, 'cn, 's, 'r) daemon \<Rightarrow> bool" where
  "slots_ok d \<longleftrightarrow> finite (dom (policy_conns d)) \<and> finite (dom (control_conns d)) \<and>
     active d = card (dom (policy_conns d)) + card (dom (control_conns d)) \<and> active d \<le> MAX_CONNECTIONS"

lemma card_dom_upd:
  assumes "finite (dom m)"
  shows "m i = None \<Longrightarrow> card (dom (m(i \<mapsto> x))) = Suc (card (dom m))"
    and "m i \<noteq> None \<Longrightarrow> card (dom (m(i := None))) = card (dom m) - 1"
    and "m i \<noteq> None \<Longrightarrow> dom (m(i \<mapsto> x)) = dom m"
    and "m i \<noteq> None \<Longrightarrow> 0 < card (dom m)"
  using assms by (auto simp: domIff card_gt_0_iff insert_absorb)

lemma slots_accept:
  assumes "slots_ok d" and "policy_conns d i = None" and "control_conns d i = None"
  shows "slots_ok (accept_connection kind i r d)"
  using assms card_dom_upd(1) [of "policy_conns d" i r] card_dom_upd(1) [of "control_conns d" i r]
  by (cases kind)
    (auto simp: slots_ok_def accept_connection_def admit_connection_def log_throttled_def Let_def)

lemma slots_step:
  assumes "service_step P C V codec rd L path hash deadline clock serves d d'" and ok: "slots_ok d"
  shows "slots_ok d'"
  using assms(1)
proof cases
  case (accepted_stream i kind r)
  then show ?thesis using slots_accept [OF ok] by simp
next
  case (bytes_arrive i r)
  then show ?thesis using ok card_dom_upd(3) [of "policy_conns d" i r] by (simp add: slots_ok_def)
next
  case (control_bytes_arrive i r)
  then show ?thesis using ok card_dom_upd(3) [of "control_conns d" i r] by (simp add: slots_ok_def)
next
  case (serve env i)
  then obtain r where r: "policy_conns d i = Some r" by (auto simp: serve_turn_def split: option.splits)
  then show ?thesis using serve ok card_dom_upd(2-4) [of "policy_conns d" i]
    by (auto simp: serve_turn_def slots_ok_def release_connection_def
        split: option.splits turn.splits prod.splits)
next
  case (serve_control is_cancelled write_fails i)
  then obtain r where r: "control_conns d i = Some r" by (auto simp: control_serve_def split: option.splits)
  then show ?thesis using serve_control ok card_dom_upd(2-4) [of "control_conns d" i]
    by (auto simp: control_serve_def slots_ok_def release_connection_def split: option.splits turn.splits)
qed (use ok in \<open>auto simp: slots_ok_def\<close>)

end
