(* ===== verification/Service_Correct.thy ===== *)
theory Service_Correct
  imports Service
begin

text \<open>
  What a run of the daemon guarantees to one sender and about one sender: the decisions against
  the log that the server holds, whatever the other senders, the connections, the reloads and
  the failures of the network do in between.
\<close>

section \<open>The log of the decisions\<close>

definition granted :: "string \<Rightarrow> answer list \<Rightarrow> log" where
  "granted u A = map (\<lambda>(t, v, n, a). (t, n)) (filter (\<lambda>(t, v, n, a). v = u \<and> a = ACTION_DUNNO) A)"

text \<open>Everything that may have been recorded: all but the refusals.\<close>

definition counted :: "string \<Rightarrow> answer list \<Rightarrow> log" where
  "counted u A = map (\<lambda>(t, v, n, a). (t, n)) (filter (\<lambda>(t, v, n, a). v = u \<and> a \<noteq> ACTION_RATE_LIMITED) A)"

lemma granted_snoc [simp]:
  "granted u (A @ [(t, v, n, a)]) = granted u A @ (if v = u \<and> a = ACTION_DUNNO then [(t, n)] else [])"
  by (simp add: granted_def)

lemma counted_snoc [simp]:
  "counted u (A @ [(t, v, n, a)]) = counted u A @ (if v = u \<and> a \<noteq> ACTION_RATE_LIMITED then [(t, n)] else [])"
  by (simp add: counted_def)

lemma granted_Nil [simp]: "granted u [] = []" and counted_Nil [simp]: "counted u [] = []"
  by (simp_all add: granted_def counted_def)

lemma logged_subseq: "subseq H G \<Longrightarrow> logged H Q \<le> logged G Q"
  by (induction rule: list_emb.induct) auto

text \<open>
  A refusal is justified: with the refused message, a window of the sender exceeds its limit
  when the counting reaches back one bucket further.
\<close>

definition over_limit :: "check_plan \<Rightarrow> log \<Rightarrow> nat \<Rightarrow> nat \<Rightarrow> bool" where
  "over_limit p H t n \<longleftrightarrow>
     (\<exists>w \<in> set (windows p). unat (limit w) <
        n + logged H (\<lambda>t'. t < t' + unat (span_secs w) + unat (bucket_sizes p ! key_index w)))"

definition refusals_justified :: "check_plan \<Rightarrow> string \<Rightarrow> log \<Rightarrow> answer list \<Rightarrow> bool" where
  "refusals_justified p u R A \<longleftrightarrow>
     (\<forall>i < length A. case A ! i of (t, v, n, a) \<Rightarrow>
        v = u \<and> a = ACTION_RATE_LIMITED \<longrightarrow> over_limit p (R @ counted u (take i A)) t n)"

lemma refusals_justified_Nil [simp]: "refusals_justified p u R []"
  by (simp add: refusals_justified_def)

lemma refusals_justified_snoc [simp]:
  "refusals_justified p u R (A @ [(t, v, n, a)]) \<longleftrightarrow>
     refusals_justified p u R A \<and>
     (v = u \<and> a = ACTION_RATE_LIMITED \<longrightarrow> over_limit p (R @ counted u A) t n)"
  by (simp add: refusals_justified_def All_less_Suc nth_append conj_commute cong: imp_cong)

lemma not_admitted_over_limit:
  assumes "plan_wf p" and "\<not> plan_admits p H t n"
  shows "over_limit p H t n"
proof -
  from assms(2) obtain w where w: "w \<in> set (windows p)"
    and no: "\<not> window_admits (unat (bucket_sizes p ! key_index w)) (unat (span_secs w)) (unat (limit w)) H t n"
    by (auto simp: plan_admits_def)
  from sliding_log.refuses_over [OF plan_window_contract [OF assms(1) w] no] w
  show ?thesis by (auto simp: over_limit_def)
qed

lemma over_limit_subseq: "over_limit p H t n \<Longrightarrow> subseq H G \<Longrightarrow> over_limit p G t n"
  unfolding over_limit_def
  by (elim bexE, rule bexI, erule order.strict_trans2) (simp_all add: logged_subseq)

lemma bucket_keys_mem [simp]: "bucket_key pre ident b \<in> bucket_keys"
  unfolding bucket_keys_def by blast

section \<open>The invariant\<close>

text \<open>
  The runs considered for the sender \<open>u\<close>: reloads may change anything but the sender's own plan,
  the server behind the connection and the key prefix, and, for the upper bound, the policy of
  deferring a message that could not be checked.
\<close>

definition steady :: "('ci, 'rs, 're, 'e) platform \<Rightarrow> ('cn \<Rightarrow> 's server_cmds) \<Rightarrow> 's server_cmds \<Rightarrow> string \<Rightarrow>
    string \<Rightarrow> check_plan \<Rightarrow> bool \<Rightarrow> ('ci, 're, 'cn, 's, 'r) daemon \<Rightarrow> bool" where
  "steady P V cmds pre u p deferring d \<longleftrightarrow>
     plan_for P (config_of_state (runtime d)) u = p \<and>
     limiter_key_prefix (limiter_of_state (runtime d)) = pre \<and>
     V (connection_manager (limiter_of_state (runtime d))) = cmds \<and>
     (deferring \<longrightarrow> on_redis_error (config_of_state (runtime d)) = Defer)"

definition sender_inv :: "('s \<Rightarrow> string \<Rightarrow> (string \<rightharpoonup> string)) \<Rightarrow> ('s \<Rightarrow> string \<Rightarrow> nat option) \<Rightarrow>
    ('s \<Rightarrow> nat) \<Rightarrow> ('s \<Rightarrow> string \<Rightarrow> bool) \<Rightarrow> string \<Rightarrow> string \<Rightarrow> check_plan \<Rightarrow> bool \<Rightarrow> log \<Rightarrow>
    ('ci, 're, 'cn, 's, 'r) daemon \<Rightarrow> bool" where
  "sender_inv hash deadline clock serves pre u p deferring R0 d \<longleftrightarrow>
     (\<exists>R. sender_rep hash deadline clock serves pre u p R (server d) \<and> admitted (plan_admits p) R \<and>
        subseq R (R0 @ counted u (answers d)) \<and> (deferring \<longrightarrow> subseq (granted u (answers d)) R)) \<and>
     refusals_justified p u R0 (answers d)"

lemma sender_inv_init:
  "sender_rep hash deadline clock serves pre u p R0 (server d) \<Longrightarrow> admitted (plan_admits p) R0 \<Longrightarrow>
    answers d = [] \<Longrightarrow> sender_inv hash deadline clock serves pre u p deferring R0 d"
  by (auto simp: sender_inv_def)

text \<open>What the invariant gives: both bounds on the answers.\<close>

lemma sender_inv_within:
  assumes "sender_inv hash deadline clock serves pre u p True R0 d"
    and wf: "plan_wf p" and w: "w \<in> set (windows p)"
  shows "logged (granted u (answers d)) (\<lambda>t. t \<le> \<tau> \<and> \<tau> < t + unat (span_secs w)) \<le> unat (limit w)"
proof -
  from assms(1) obtain R where R: "sender_rep hash deadline clock serves pre u p R (server d)"
    "admitted (plan_admits p) R" "subseq (granted u (answers d)) R"
    by (auto simp: sender_inv_def)
  have "admitted (window_admits (unat (bucket_sizes p ! key_index w)) (unat (span_secs w)) (unat (limit w))) R"
    by (rule admitted_mono [OF plan_admits_window [OF _ w] R(2)])
  moreover have "sorted (map fst R)" using R(1) by (simp add: sender_rep_def)
  ultimately have "logged R (\<lambda>t. t \<le> \<tau> \<and> \<tau> < t + unat (span_secs w)) \<le> unat (limit w)"
    by (rule sliding_log.window_never_exceeded [OF plan_window_contract [OF wf w]])
  then show ?thesis using logged_subseq [OF R(3)] order_trans by blast
qed

lemma sender_inv_refusal:
  assumes "sender_inv hash deadline clock serves pre u p deferring R0 d"
    and "answers d = before @ [(t, u, n, ACTION_RATE_LIMITED)] @ after"
  shows "over_limit p (R0 @ counted u before) t n"
proof -
  have "refusals_justified p u R0 (answers d)" using assms(1) by (simp add: sender_inv_def)
  then have "over_limit p (R0 @ counted u (take (length before) (answers d))) t n"
    unfolding refusals_justified_def using assms(2)
    by (elim allE [of _ "length before"]) (simp add: nth_append)
  then show ?thesis using assms(2) by simp
qed

lemma serve_turn_cases:
  assumes "serve_turn P V codec rd clock env i d = Some d'"
  obtains "server d' = server d" and "answers d' = answers d" and "runtime d' = runtime d"
  | v n r action where "runtime d' = runtime d"
    and "answers d' = answers d @ [(clock (server d), v, unat n, action)]"
    and "check_sasl (V (connection_manager (limiter_of_state (runtime d)))) codec (network env)
      (limiter_key_prefix (limiter_of_state (runtime d))) v n
      (plan_for P (config_of_state (runtime d)) v) None (server d) = (r, server d')"
    and "action = (case r of Inr True \<Rightarrow> ACTION_DUNNO | Inr False \<Rightarrow> ACTION_RATE_LIMITED
        | Inl e \<Rightarrow> (case on_redis_error (config_of_state (runtime d)) of
            Defer \<Rightarrow> ACTION_SERVICE_UNAVAILABLE | Permit \<Rightarrow> ACTION_DUNNO))"
proof -
  from assms obtain r how ls st s' where r: "policy_conns d i = Some r"
    and turn: "connection_turn False P V codec rd env (runtime d) r (counters d) (server d) = Some (how, ls, st, s')"
    and d': "server d' = s'" "runtime d' = runtime d"
      "answers d' = answers d @ noted P V codec rd clock env (runtime d) r (counters d) (server d)"
    by (auto simp: serve_turn_def split: option.splits prod.splits)
  show thesis
  proof (cases "\<exists>req r'. \<not> cancelled env \<and> read_from rd r = Some (Inr (Some req), r')")
    case False
    then have "s' = server d \<and> noted P V codec rd clock env (runtime d) r (counters d) (server d) = []"
      using turn by (auto simp: connection_turn_def noted_def split: if_splits option.splits sum.splits prod.splits)
    then show thesis using that(1) d' by simp
  next
    case True
    then obtain req r' where req: "\<not> cancelled env" "read_from rd r = Some (Inr (Some req), r')" by blast
    obtain action ls' st' s1 where h: "handle_request False P V codec (network env) req
        (config_of_state (runtime d)) (limiter_of_state (runtime d)) (counters d) (server d)
      = (action, ls', st', s1)" by (metis prod.exhaust)
    have s1: "s1 = s'" using turn req h by (auto simp: connection_turn_def split: option.splits)
    show thesis
    proof (cases "checkable req")
      case None
      then show thesis using handle_request_unchecked [OF None h] that(1) d' req s1 by (simp add: noted_def)
    next
      case (Some vn)
      obtain v n where vn: "vn = (v, n)" by (cases vn)
      from handle_request_checked [OF Some [unfolded vn] h] that(2) [of v n action] d' req s1 h Some
      show thesis by (auto simp: noted_def vn now_override_def)
    qed
  qed
qed

context hash_server
begin

lemma sender_inv_check:
  assumes wf: "plan_wf p" and fine: "plan_fine p" and codec: "codec_ok codec"
    and inv: "sender_inv hash deadline clock serves pre u p deferring R0 d"
    and d': "answers d' = answers d @ [(clock (server d), v, unat n, action)]"
    and check: "check_sasl cmds codec net pre v n q None (server d) = (r, server d')"
    and plan: "v = u \<Longrightarrow> q = p" and policy: "deferring \<Longrightarrow> fail = ACTION_SERVICE_UNAVAILABLE"
    and fail: "fail \<noteq> ACTION_RATE_LIMITED"
    and action: "action = (case r of Inr True \<Rightarrow> ACTION_DUNNO | Inr False \<Rightarrow> ACTION_RATE_LIMITED | Inl e \<Rightarrow> fail)"
  shows "sender_inv hash deadline clock serves pre u p deferring R0 d'"
proof -
  let ?s = "server d" and ?A = "answers d" and ?now = "clock (server d)"
  from inv obtain R where R: "sender_rep hash deadline clock serves pre u p R ?s" "admitted (plan_admits p) R"
    "subseq R (R0 @ counted u ?A)" "deferring \<longrightarrow> subseq (granted u ?A) R" "refusals_justified p u R0 ?A"
    by (auto simp: sender_inv_def)
  show ?thesis
  proof (cases "v = u")
    case False
    then have "sender_rep hash deadline clock serves pre u p R (server d')"
      using sender_rep_same [OF wf R(1)] check_sasl_other [OF check] by blast
    then show ?thesis using R False by (auto simp: sender_inv_def d')
  next
    case True
    let ?adm = "plan_admits p R ?now (unat n)"
    let ?R' = "if ?adm \<and> (net \<noteq> Request_Lost \<or> bucket_sizes p = []) then R @ [(?now, unat n)] else R"
    note D = check_sasl_delivery [OF wf fine codec R(1) check [unfolded True plan [OF True]]]
    have rep': "sender_rep hash deadline clock serves pre u p ?R' (server d')" using D by blast
    have adm': "admitted (plan_admits p) ?R'" using R(2) by simp
    consider (yes) "action = ACTION_DUNNO" "?R' = R @ [(?now, unat n)]"
      | (no) "action = ACTION_RATE_LIMITED" "\<not> ?adm"
      | (failed) "action = fail" "?R' = R \<or> ?R' = R @ [(?now, unat n)]" "net \<noteq> Delivered"
      using D action by (cases "bucket_sizes p = []"; cases "net = Delivered"; cases ?adm) auto
    then show ?thesis
    proof cases
      case yes
      then have "subseq ?R' (R0 @ counted u (answers d'))" "deferring \<longrightarrow> subseq (granted u (answers d')) ?R'"
        using R(3,4) True d' by (auto simp: append_assoc [symmetric] simp del: append_assoc)
      then show ?thesis using rep' adm' R(5) yes True by (auto simp: sender_inv_def d')
    next
      case no
      then have "over_limit p (R0 @ counted u ?A) ?now (unat n)"
        using not_admitted_over_limit [OF wf] over_limit_subseq R(3) by blast
      then show ?thesis using rep' adm' R no True by (auto simp: sender_inv_def d')
    next
      case failed
      have "subseq ?R' (R0 @ counted u (answers d'))"
        using failed(1,2) R(3) True d' fail
        by (auto simp: append_assoc [symmetric] simp del: append_assoc intro: subseq_rev_drop_many)
      moreover have "deferring \<longrightarrow> subseq (granted u (answers d')) ?R'"
      proof
        assume def: deferring
        then have "granted u (answers d') = granted u ?A" using failed(1) policy d' by simp
        then show "subseq (granted u (answers d')) ?R'" using R(4) def failed(2) subseq_rev_drop_many by auto
      qed
      ultimately show ?thesis using rep' adm' R(5) failed(1) fail True by (auto simp: sender_inv_def d')
    qed
  qed
qed

lemma sender_inv_step:
  assumes wf: "plan_wf p" and fine: "plan_fine p" and codec: "codec_ok codec"
    and step: "service_step P C V codec rd L path hash deadline clock serves d d'"
    and steady: "steady P V cmds pre u p deferring d"
    and inv: "sender_inv hash deadline clock serves pre u p deferring R0 d"
  shows "sender_inv hash deadline clock serves pre u p deferring R0 d'"
  using step
proof cases
  case (pass_time s')
  have "fst ` set (plan_keys pre u p) \<subseteq> bucket_keys"
    by (auto simp: plan_keys_def bucket_keys_mem)
  from sender_rep_idle [OF pass_time(2) this] show ?thesis
    using inv pass_time(1) unfolding sender_inv_def by auto
next
  case (serve env i)
  from serve(1) show ?thesis
  proof (cases rule: serve_turn_cases)
    case 1
    then show ?thesis using inv by (simp add: sender_inv_def)
  next
    case (2 v n r action)
    show ?thesis
    proof (rule sender_inv_check [OF wf fine codec inv 2(2)])
      show "check_sasl cmds codec (network env) pre v n (plan_for P (config_of_state (runtime d)) v) None
          (server d) = (r, server d')"
        using 2(3) steady by (simp add: steady_def)
      show "deferring \<Longrightarrow> (case on_redis_error (config_of_state (runtime d)) of
          Defer \<Rightarrow> ACTION_SERVICE_UNAVAILABLE | Permit \<Rightarrow> ACTION_DUNNO) = ACTION_SERVICE_UNAVAILABLE"
        using steady by (simp add: steady_def)
    qed (use 2(4) steady in \<open>auto simp: steady_def split: failure_action.splits\<close>)
  qed
next
  case (accepted_stream i kind r)
  then show ?thesis using inv
    by (auto simp: sender_inv_def accept_connection_def Let_def split: prod.splits connection_kind.splits)
next
  case (serve_control is_cancelled write_fails i)
  then show ?thesis using inv
    by (auto simp: sender_inv_def control_serve_def split: option.splits turn.splits)
qed (use inv in \<open>auto simp: sender_inv_def\<close>)

end

section \<open>Runs\<close>

text \<open>A run all of whose states satisfy \<open>Q\<close>.\<close>

inductive service_run for P C V codec read_line L path hash deadline clock serves Q where
  start: "Q d \<Longrightarrow> service_run P C V codec read_line L path hash deadline clock serves Q d d"
| more: "service_run P C V codec read_line L path hash deadline clock serves Q d d' \<Longrightarrow>
    service_step P C V codec read_line L path hash deadline clock serves d' d'' \<Longrightarrow> Q d'' \<Longrightarrow>
    service_run P C V codec read_line L path hash deadline clock serves Q d d''"

lemma service_run_last: "service_run P C V codec rd L path hash deadline clock serves Q d d' \<Longrightarrow> Q d'"
  by (induction rule: service_run.induct)


context hash_server
begin

lemma sender_inv_run:
  assumes wf: "plan_wf p" and fine: "plan_fine p" and codec: "codec_ok codec"
    and run: "service_run P C V codec rd L path hash deadline clock serves (steady P V cmds pre u p deferring) d d'"
    and inv: "sender_inv hash deadline clock serves pre u p deferring R0 d"
  shows "sender_inv hash deadline clock serves pre u p deferring R0 d'"
  using run inv
proof induction
  case (start d)
  then show ?case by simp
next
  case (more d d' d'')
  then show ?case using sender_inv_step [OF wf fine codec more.hyps(2) service_run_last [OF more.hyps(1)]] by simp
qed

text \<open>The upper bound for one sender.\<close>

lemma granted_within:
  assumes wf: "plan_wf p" and fine: "plan_fine p" and codec: "codec_ok codec"
    and run: "service_run P C V codec rd L path hash deadline clock serves (steady P V cmds pre u p True) d d'"
    and rep: "sender_rep hash deadline clock serves pre u p R0 (server d)"
    and adm: "admitted (plan_admits p) R0" and fresh: "answers d = []" and w: "w \<in> set (windows p)"
  shows "logged (granted u (answers d')) (\<lambda>t. t \<le> \<tau> \<and> \<tau> < t + unat (span_secs w)) \<le> unat (limit w)"
  by (rule sender_inv_within [OF sender_inv_run [OF wf fine codec run sender_inv_init [OF rep adm fresh]] wf w])

text \<open>And what a refusal means.\<close>

lemma refused_over:
  assumes wf: "plan_wf p" and fine: "plan_fine p" and codec: "codec_ok codec"
    and run: "service_run P C V codec rd L path hash deadline clock serves (steady P V cmds pre u p deferring) d d'"
    and rep: "sender_rep hash deadline clock serves pre u p R0 (server d)"
    and adm: "admitted (plan_admits p) R0" and fresh: "answers d = []"
    and refused: "answers d' = before @ [(t, u, n, ACTION_RATE_LIMITED)] @ after"
  shows "over_limit p (R0 @ counted u before) t n"
  by (rule sender_inv_refusal [OF sender_inv_run [OF wf fine codec run sender_inv_init [OF rep adm fresh]] refused])

end

section \<open>The swapped state\<close>

lemma serve_turn_runtime: "serve_turn P V codec rd clock env i d = Some d' \<Longrightarrow> runtime d' = runtime d"
  by (erule serve_turn_cases)

lemma runtime_ok_step:
  assumes "service_step P C V codec rd L path hash deadline clock serves d d'" and "runtime_ok P C V (runtime d)"
  shows "runtime_ok P C V (runtime d')"
  using assms(1)
proof cases
  case (serve env i)
  then show ?thesis using assms(2) serve_turn_runtime by metis
next
  case (reload dial files err state')
  then show ?thesis using reload_config_ok [OF assms(2) reload(2,3)] by simp
next
  case (accepted_stream i kind r)
  then show ?thesis using assms(2)
    by (auto simp: accept_connection_def Let_def split: prod.splits connection_kind.splits)
next
  case (serve_control is_cancelled write_fails i)
  then show ?thesis using assms(2) by (auto simp: control_serve_def split: option.splits turn.splits)
qed (use assms(2) in auto)

lemma service_run_steps:
  "service_run P C V codec rd L path hash deadline clock serves Q d d' \<Longrightarrow>
    (service_step P C V codec rd L path hash deadline clock serves)\<^sup>*\<^sup>* d d'"
  by (induction rule: service_run.induct) (auto intro: rtranclp.rtrancl_into_rtrancl)

end
