(* ===== verification/Tasks.thy ===== *)
theory Tasks
  imports Service_Correct
begin

text \<open>
  The daemon at the grain of its tasks, and its shutdown: \<open>handle_connection\<close> and the end of
  \<open>main\<close> in \<open>src/bin/postfix-ratelimitd.rs\<close>. A connection's turn is no longer one step: other
  tasks run between the reading of a request, the decision and the writing of the answer, the
  state may be swapped meanwhile, and the shutdown token may fire. The decision itself is one
  step, at the time the server runs the script.
\<close>

section \<open>State\<close>

text \<open>
  \<open>Checking current req\<close>: the request was read and the state loaded, the decision is not made;
  \<open>Replying action\<close>: the answer is being written. A connection that does neither waits for its
  next request, in the \<open>select!\<close>.
\<close>

datatype ('ci, 're, 'cn) activity = Checking "('ci, 're, 'cn) runtime_state" request | Replying string

text \<open>
  \<open>Accepting\<close> is the accept loop; \<open>Draining\<close> is after \<open>cancel.cancel()\<close> and \<open>tracker.close()\<close>;
  then \<open>main\<close> returned, because all tasks had ended or because the drain timed out. Leaving
  \<open>main\<close> drops the runtime: no task takes a step afterwards.
\<close>

datatype phase = Accepting | Draining | Exited | Exited_Late

text \<open>Ghosts count the requests read and those whose answer was written or could not be written.\<close>

record ('ci, 're, 'cn, 's, 'r) tasks =
  shared :: "('ci, 're, 'cn, 's, 'r) daemon"
  busy :: "nat \<rightharpoonup> ('ci, 're, 'cn) activity"
  phase :: phase
  taken :: nat
  settled :: nat

definition finish_connection :: "nat \<Rightarrow> ('ci, 're, 'cn, 's, 'r) daemon \<Rightarrow> ('ci, 're, 'cn, 's, 'r) daemon" where
  "finish_connection i d =
     d\<lparr>active := release_connection (active d), policy_conns := (policy_conns d)(i := None)\<rparr>"

text \<open>Reading on the connection \<open>i\<close>, which waits with the reader \<open>r\<close>.\<close>

definition read_step :: "'r line_source \<Rightarrow> nat \<Rightarrow> 'r \<Rightarrow> ('ci, 're, 'cn, 's, 'r) tasks \<Rightarrow>
    ('ci, 're, 'cn, 's, 'r) tasks option" where
  "read_step read_line i r x =
     (case read_from read_line r of
        None \<Rightarrow> None
      | Some (Inr (Some req), r') \<Rightarrow>
          Some (x\<lparr>shared := (shared x)\<lparr>policy_conns := (policy_conns (shared x))(i \<mapsto> r')\<rparr>,
            busy := (busy x)(i \<mapsto> Checking (runtime (shared x)) req), taken := taken x + 1\<rparr>)
      | Some (Inr None, r') \<Rightarrow> Some (x\<lparr>shared := finish_connection i (shared x)\<rparr>)
      | Some (Inl err, r') \<Rightarrow>
          Some (x\<lparr>shared := finish_connection i ((shared x)\<lparr>counters :=
            (counters (shared x))\<lparr>malformed := malformed (counters (shared x)) + 1\<rparr>,
            journal := journal (shared x) @ [Request_Read_Error err]\<rparr>)\<rparr>))"

text \<open>The decision, with the state that was loaded when the request had been read.\<close>

definition decide :: "('ci, 'rs, 're, 'e) platform \<Rightarrow> ('cn \<Rightarrow> 's server_cmds) \<Rightarrow> 'txt json_text \<Rightarrow>
    ('s \<Rightarrow> nat) \<Rightarrow> delivery \<Rightarrow> nat \<Rightarrow> ('ci, 're, 'cn) runtime_state \<Rightarrow> request \<Rightarrow>
    ('ci, 're, 'cn, 's, 'r) tasks \<Rightarrow> ('ci, 're, 'cn, 's, 'r) tasks" where
  "decide P V codec clock net i current req x =
     (let d = shared x
      in case handle_request False P V codec net req (config_of_state current) (limiter_of_state current)
             (counters d) (server d) of
           (action, ls, st, s') \<Rightarrow>
             x\<lparr>shared := d\<lparr>counters := st, server := s', journal := journal d @ ls,
                 answers := answers d @ (case checkable req of None \<Rightarrow> []
                   | Some (user, n) \<Rightarrow> [(clock (server d), user, unat n, action)])\<rparr>,
               busy := (busy x)(i \<mapsto> Replying action)\<rparr>)"

text \<open>The answer is written, or writing fails and the connection ends.\<close>

definition reply :: "string option \<Rightarrow> nat \<Rightarrow> ('ci, 're, 'cn, 's, 'r) tasks \<Rightarrow> ('ci, 're, 'cn, 's, 'r) tasks" where
  "reply fails i x =
     x\<lparr>shared := (case fails of
         None \<Rightarrow> shared x
       | Some err \<Rightarrow> finish_connection i ((shared x)\<lparr>journal := journal (shared x) @ [Response_Write_Error err]\<rparr>)),
       busy := (busy x)(i := None), settled := settled x + 1\<rparr>"

section \<open>Steps\<close>

text \<open>What happens besides the tasks of the connections and the accept loop.\<close>

inductive background_step ::
    "('ci, 'rs, 're, 'e) platform \<Rightarrow> ('ci, 'rs, 'cn, 'ad, 'pr) client_lib \<Rightarrow> ('cn \<Rightarrow> 's server_cmds) \<Rightarrow> path \<Rightarrow>
     ('s \<Rightarrow> string \<Rightarrow> (string \<rightharpoonup> string)) \<Rightarrow> ('s \<Rightarrow> string \<Rightarrow> nat option) \<Rightarrow> ('s \<Rightarrow> nat) \<Rightarrow> ('s \<Rightarrow> string \<Rightarrow> bool) \<Rightarrow>
     ('ci, 're, 'cn, 's, 'r) daemon \<Rightarrow> ('ci, 're, 'cn, 's, 'r) daemon \<Rightarrow> bool"
  for P C V path hash deadline clock serves where
  time_passes: "idle hash deadline clock serves bucket_keys (server d) s' \<Longrightarrow>
    background_step P C V path hash deadline clock serves d (d\<lparr>server := s'\<rparr>)"
| bytes: "policy_conns d i \<noteq> None \<Longrightarrow>
    background_step P C V path hash deadline clock serves d (d\<lparr>policy_conns := (policy_conns d)(i \<mapsto> r)\<rparr>)"
| control_bytes: "control_conns d i \<noteq> None \<Longrightarrow>
    background_step P C V path hash deadline clock serves d (d\<lparr>control_conns := (control_conns d)(i \<mapsto> r)\<rparr>)"
| swap: "dials C dial \<Longrightarrow>
    reload_config (P\<lparr>read_to_string := files\<rparr>) (C\<lparr>open_manager := dial\<rparr>) V (server d) path (runtime d)
      = Some (err, state') \<Longrightarrow>
    background_step P C V path hash deadline clock serves d (d\<lparr>runtime := state'\<rparr>)"
| reporting: "report_stats (active d) (counters d) = (ls, st) \<Longrightarrow>
    background_step P C V path hash deadline clock serves d (d\<lparr>counters := st, journal := journal d @ ls\<rparr>)"

text \<open>
  \<open>select!\<close> picks any branch that is ready: a waiting task may still read a request after the
  token fired, and may end only once it has fired.
\<close>

inductive task_step ::
    "('ci, 'rs, 're, 'e) platform \<Rightarrow> ('ci, 'rs, 'cn, 'ad, 'pr) client_lib \<Rightarrow> ('cn \<Rightarrow> 's server_cmds) \<Rightarrow>
     'txt json_text \<Rightarrow> 'r line_source \<Rightarrow> 'id rpc_lib \<Rightarrow> path \<Rightarrow>
     ('s \<Rightarrow> string \<Rightarrow> (string \<rightharpoonup> string)) \<Rightarrow> ('s \<Rightarrow> string \<Rightarrow> nat option) \<Rightarrow> ('s \<Rightarrow> nat) \<Rightarrow> ('s \<Rightarrow> string \<Rightarrow> bool) \<Rightarrow>
     ('ci, 're, 'cn, 's, 'r) tasks \<Rightarrow> ('ci, 're, 'cn, 's, 'r) tasks \<Rightarrow> bool"
  for P C V codec read_line L path hash deadline clock serves where
  background: "phase x \<in> {Accepting, Draining} \<Longrightarrow>
    background_step P C V path hash deadline clock serves (shared x) d' \<Longrightarrow>
    task_step P C V codec read_line L path hash deadline clock serves x (x\<lparr>shared := d'\<rparr>)"
| accepted: "phase x = Accepting \<Longrightarrow> policy_conns (shared x) i = None \<Longrightarrow> control_conns (shared x) i = None \<Longrightarrow>
    accept_control kind (runtime (shared x)) \<Longrightarrow>
    task_step P C V codec read_line L path hash deadline clock serves x
      (x\<lparr>shared := accept_connection kind i r (shared x)\<rparr>)"
| accept_fails: "phase x = Accepting \<Longrightarrow> accept_failed kind (counters (shared x)) = (st, ls) \<Longrightarrow>
    accept_control kind (runtime (shared x)) \<Longrightarrow>
    task_step P C V codec read_line L path hash deadline clock serves x
      (x\<lparr>shared := (shared x)\<lparr>counters := st, journal := journal (shared x) @ ls\<rparr>\<rparr>)"
| reads: "phase x \<in> {Accepting, Draining} \<Longrightarrow> policy_conns (shared x) i = Some r \<Longrightarrow> busy x i = None \<Longrightarrow>
    read_step read_line i r x = Some y \<Longrightarrow>
    task_step P C V codec read_line L path hash deadline clock serves x y"
| ends: "phase x = Draining \<Longrightarrow> policy_conns (shared x) i \<noteq> None \<Longrightarrow> busy x i = None \<Longrightarrow>
    task_step P C V codec read_line L path hash deadline clock serves x
      (x\<lparr>shared := finish_connection i (shared x)\<rparr>)"
| decides: "phase x \<in> {Accepting, Draining} \<Longrightarrow> busy x i = Some (Checking current req) \<Longrightarrow>
    task_step P C V codec read_line L path hash deadline clock serves x
      (decide P V codec clock net i current req x)"
| replies: "phase x \<in> {Accepting, Draining} \<Longrightarrow> busy x i = Some (Replying action) \<Longrightarrow>
    task_step P C V codec read_line L path hash deadline clock serves x (reply fails i x)"
| controls: "phase x \<in> {Accepting, Draining} \<Longrightarrow> is_cancelled \<longrightarrow> phase x = Draining \<Longrightarrow>
    control_serve L P V read_line is_cancelled write_fails i (shared x) = Some d' \<Longrightarrow>
    task_step P C V codec read_line L path hash deadline clock serves x (x\<lparr>shared := d'\<rparr>)"
| shuts_down: "phase x = Accepting \<Longrightarrow>
    task_step P C V codec read_line L path hash deadline clock serves x (x\<lparr>phase := Draining\<rparr>)"
| drained: "phase x = Draining \<Longrightarrow> policy_conns (shared x) = Map.empty \<Longrightarrow> control_conns (shared x) = Map.empty \<Longrightarrow>
    task_step P C V codec read_line L path hash deadline clock serves x (x\<lparr>phase := Exited\<rparr>)"
| times_out: "phase x = Draining \<Longrightarrow>
    task_step P C V codec read_line L path hash deadline clock serves x (x\<lparr>phase := Exited_Late\<rparr>)"

end
