(* ===== verification/Tasks_Correct.thy ===== *)
theory Tasks_Correct
  imports Tasks
begin

text \<open>
  What holds of the tasks under every schedule: the connection limit, the accounting of requests
  in hand, the guarantees for a sender, and the end of the drain. Steps that Service already has
  inherit its invariants.
\<close>

section \<open>The background\<close>

lemma background_is_service_step:
  "background_step P C V path hash deadline clock serves d d' \<Longrightarrow>
    service_step P C V codec rd L path hash deadline clock serves d d'"
  by (induction rule: background_step.induct)
    (auto intro: service_step.pass_time service_step.bytes_arrive service_step.control_bytes_arrive
      service_step.reload service_step.report)

lemma background_conns:
  assumes "background_step P C V path hash deadline clock serves d d'"
  shows "dom (policy_conns d') = dom (policy_conns d)" and "dom (control_conns d') = dom (control_conns d)"
  using assms by (cases; force)+

section \<open>Slots and requests in hand\<close>

definition tasks_ok :: "('ci, 're, 'cn, 's, 'r) tasks \<Rightarrow> bool" where
  "tasks_ok x \<longleftrightarrow> slots_ok (shared x) \<and> dom (busy x) \<subseteq> dom (policy_conns (shared x)) \<and>
     taken x = settled x + card (dom (busy x)) \<and>
     (phase x = Exited \<longrightarrow> policy_conns (shared x) = Map.empty \<and> control_conns (shared x) = Map.empty)"

lemma finish_connection_slots:
  assumes "slots_ok d" and "policy_conns d i \<noteq> None"
  shows "slots_ok (finish_connection i d)"
  using assms card_dom_upd(2,4) [of "policy_conns d" i]
  by (auto simp: slots_ok_def finish_connection_def release_connection_def)

lemma finish_connection_simps [simp]:
  "policy_conns (finish_connection i d) = (policy_conns d)(i := None)"
  "control_conns (finish_connection i d) = control_conns d" "server (finish_connection i d) = server d"
  "answers (finish_connection i d) = answers d" "runtime (finish_connection i d) = runtime d"
  "counters (finish_connection i d) = counters d" "journal (finish_connection i d) = journal d"
  by (simp_all add: finish_connection_def)

lemma reply_simps [simp]:
  "busy (reply fails i x) = (busy x)(i := None)" "phase (reply fails i x) = phase x"
  "taken (reply fails i x) = taken x" "settled (reply fails i x) = settled x + 1"
  "runtime (shared (reply fails i x)) = runtime (shared x)" "server (shared (reply fails i x)) = server (shared x)"
  "answers (shared (reply fails i x)) = answers (shared x)" "counters (shared (reply fails i x)) = counters (shared x)"
  "control_conns (shared (reply fails i x)) = control_conns (shared x)"
  by (simp_all add: reply_def split: option.split)

lemma slots_counters [simp]:
  "slots_ok (d\<lparr>counters := st\<rparr>) = slots_ok d" "slots_ok (d\<lparr>journal := ls\<rparr>) = slots_ok d"
  by (simp_all add: slots_ok_def)

lemma read_step_cases:
  assumes "read_step rd i r x = Some y"
  obtains r' req where "y = x\<lparr>shared := (shared x)\<lparr>policy_conns := (policy_conns (shared x))(i \<mapsto> r')\<rparr>,
        busy := (busy x)(i \<mapsto> Checking (runtime (shared x)) req), taken := taken x + 1\<rparr>"
  | st ls where "y = x\<lparr>shared := finish_connection i ((shared x)\<lparr>counters := st, journal := journal (shared x) @ ls\<rparr>)\<rparr>"
proof -
  have same: "finish_connection i ((shared x)\<lparr>counters := counters (shared x), journal := journal (shared x) @ []\<rparr>)
      = finish_connection i (shared x)"
    by simp
  show thesis using assms that(1) that(2) [of "[]" "counters (shared x)", unfolded same] that(2)
    by (auto simp: read_step_def split: option.splits sum.splits prod.splits)
qed

lemma busy_card:
  assumes "tasks_ok x"
  shows "finite (dom (busy x))"
  using assms finite_subset by (auto simp: tasks_ok_def slots_ok_def)

lemma tasks_ok_step:
  assumes step: "task_step P C V codec rd L path hash deadline clock serves x y" and ok: "tasks_ok x"
  shows "tasks_ok y"
proof -
  have fin: "finite (dom (busy x))" by (rule busy_card [OF ok])
  have slots: "slots_ok (shared x)" and sub: "dom (busy x) \<subseteq> dom (policy_conns (shared x))"
    and count: "taken x = settled x + card (dom (busy x))"
    using ok by (auto simp: tasks_ok_def)
  show ?thesis
    using step
  proof cases
    case (background d')
    have "slots_ok d'" by (rule slots_step [OF background_is_service_step [OF background(3)] slots])
    then show ?thesis using background sub count background_conns [OF background(3)] by (auto simp: tasks_ok_def)
  next
    case (accepted i kind r)
    then have "dom (policy_conns (shared x)) \<subseteq> dom (policy_conns (accept_connection kind i r (shared x)))"
      by (cases kind) (auto simp: accept_connection_def admit_connection_def log_throttled_def Let_def)
    then show ?thesis using slots_accept [OF slots accepted(3,4)] sub count accepted(1,2)
      by (auto simp: tasks_ok_def)
  next
    case (accept_fails kind st ls)
    then show ?thesis using slots sub count by (auto simp: tasks_ok_def)
  next
    case (reads i r)
    from reads(4) show ?thesis
    proof (cases rule: read_step_cases)
      case (1 r' req)
      have "slots_ok ((shared x)\<lparr>policy_conns := (policy_conns (shared x))(i \<mapsto> r')\<rparr>)"
        using slots card_dom_upd(3) [of "policy_conns (shared x)" i r'] reads(2) by (auto simp: slots_ok_def)
      moreover have "card (dom ((busy x)(i \<mapsto> Checking (runtime (shared x)) req))) = Suc (card (dom (busy x)))"
        by (rule card_dom_upd(1) [OF fin reads(3)])
      ultimately show ?thesis using 1 sub count reads(1) by (auto simp: tasks_ok_def)
    next
      case (2 st ls)
      then show ?thesis
        using finish_connection_slots [of "(shared x)\<lparr>counters := st, journal := journal (shared x) @ ls\<rparr>" i] slots sub count reads(1-3)
        by (auto simp: tasks_ok_def)
    qed
  next
    case (ends i)
    then show ?thesis using finish_connection_slots [OF slots ends(3)] sub count by (auto simp: tasks_ok_def)
  next
    case (decides i current req net)
    have "dom ((busy x)(i \<mapsto> a)) = dom (busy x)" for a using decides(3) by auto
    then show ?thesis using decides slots sub count
      by (auto simp: tasks_ok_def decide_def Let_def slots_ok_def split: prod.splits)
  next
    case (replies i action fails)
    have conn: "policy_conns (shared x) i \<noteq> None" using sub replies(3) by auto
    have "card (dom ((busy x)(i := None))) = card (dom (busy x)) - 1" "0 < card (dom (busy x))"
      using card_dom_upd(2,4) [OF fin] replies(3) by auto
    moreover have "slots_ok (finish_connection i ((shared x)\<lparr>journal := ls\<rparr>))" for ls
      by (rule finish_connection_slots) (use slots conn in simp_all)
    ultimately show ?thesis using replies slots sub count by (auto simp: tasks_ok_def reply_def split: option.splits)
  next
    case (controls is_cancelled write_fails i d')
    have "slots_ok d'" by (rule slots_step [OF service_step.serve_control [OF controls(4)] slots])
    moreover have "policy_conns d' = policy_conns (shared x)"
      using controls(4) by (auto simp: control_serve_def split: option.splits turn.splits)
    ultimately show ?thesis using controls(1,2) sub count by (auto simp: tasks_ok_def)
  qed (use slots sub count in \<open>auto simp: tasks_ok_def\<close>)
qed

lemma tasks_ok_steps:
  "(task_step P C V codec rd L path hash deadline clock serves)\<^sup>*\<^sup>* x y \<Longrightarrow> tasks_ok x \<Longrightarrow> tasks_ok y"
  by (induction rule: rtranclp_induct) (auto intro: tasks_ok_step)

section \<open>What a step does\<close>

lemma idle_refl [simp]: "idle hash deadline clock serves K s s"
  by (simp add: idle_def)

lemma decide_simps [simp]:
  "runtime (shared (decide P V codec clock net i current req x)) = runtime (shared x)"
  "phase (decide P V codec clock net i current req x) = phase x"
  by (simp_all add: decide_def Let_def split: prod.split)

text \<open>A decision is a check of one sender, noted with its action, or touches nothing.\<close>

lemma decide_cases:
  assumes y: "y = decide P V codec clock net i current req x"
  obtains (untouched) "server (shared y) = server (shared x)" and "answers (shared y) = answers (shared x)"
  | (checked) v n r action where
      "check_sasl (V (connection_manager (limiter_of_state current))) codec net
        (limiter_key_prefix (limiter_of_state current)) v n (plan_for P (config_of_state current) v) None
        (server (shared x)) = (r, server (shared y))"
      and "answers (shared y) = answers (shared x) @ [(clock (server (shared x)), v, unat n, action)]"
      and "action = (case r of Inr True \<Rightarrow> ACTION_DUNNO | Inr False \<Rightarrow> ACTION_RATE_LIMITED
        | Inl e \<Rightarrow> (case on_redis_error (config_of_state current) of
            Defer \<Rightarrow> ACTION_SERVICE_UNAVAILABLE | Permit \<Rightarrow> ACTION_DUNNO))"
proof -
  obtain action ls st s' where h: "handle_request False P V codec net req (config_of_state current)
      (limiter_of_state current) (counters (shared x)) (server (shared x)) = (action, ls, st, s')" by (metis prod.exhaust)
  show thesis
  proof (cases "checkable req")
    case None
    show thesis
      by (rule untouched) (use None handle_request_unchecked [OF None h] in \<open>simp_all add: y decide_def Let_def h\<close>)
  next
    case (Some vn)
    obtain v n where vn: "vn = (v, n)" by (cases vn)
    obtain r where r: "check_sasl (V (connection_manager (limiter_of_state current))) codec net
        (limiter_key_prefix (limiter_of_state current)) v n (plan_for P (config_of_state current) v) None
        (server (shared x)) = (r, s')"
      and action: "action = (case r of Inr True \<Rightarrow> ACTION_DUNNO | Inr False \<Rightarrow> ACTION_RATE_LIMITED
        | Inl e \<Rightarrow> (case on_redis_error (config_of_state current) of Defer \<Rightarrow> ACTION_SERVICE_UNAVAILABLE | Permit \<Rightarrow> ACTION_DUNNO))"
      using handle_request_checked [OF Some [unfolded vn] h] by (auto simp: now_override_def)
    show thesis
      by (rule checked [of v n r action]) (use r action Some vn in \<open>simp_all add: y decide_def Let_def h\<close>)
  qed
qed

text \<open>All other steps leave the answers alone, and the server but for the passing of time.\<close>

lemma task_step_effect:
  assumes "task_step P C V codec rd L path hash deadline clock serves x y"
  obtains (quiet) "idle hash deadline clock serves bucket_keys (server (shared x)) (server (shared y))"
      and "answers (shared y) = answers (shared x)"
  | (decided) net i current req where "busy x i = Some (Checking current req)"
      and "y = decide P V codec clock net i current req x"
  using assms
proof cases
  case (background d')
  from background(3) show thesis by cases (use quiet background(1) in auto)
next
  case (accepted i kind r)
  then show thesis using quiet
    by (cases kind) (auto simp: accept_connection_def Let_def split: prod.splits if_splits)
next
  case (reads i r)
  from reads(4) show thesis by (cases rule: read_step_cases) (use quiet in auto)
next
  case (controls is_cancelled write_fails i d')
  then show thesis using quiet by (auto simp: control_serve_def split: option.splits turn.splits)
qed (use quiet decided in auto)

text \<open>A check in hand was in hand before, or has just loaded the state.\<close>

lemma in_hand_step:
  assumes "task_step P C V codec rd L path hash deadline clock serves x y"
    and "busy y i = Some (Checking current req)"
  shows "busy x i = Some (Checking current req) \<or> current = runtime (shared x)"
  using assms(1)
proof cases
  case (reads j r)
  from reads(4) show ?thesis by (cases rule: read_step_cases) (use assms(2) in \<open>auto split: if_splits\<close>)
qed (use assms(2) in \<open>auto simp: decide_def Let_def split: prod.splits if_splits\<close>)

lemma task_runtime_ok:
  assumes "task_step P C V codec rd L path hash deadline clock serves x y" and "runtime_ok P C V (runtime (shared x))"
  shows "runtime_ok P C V (runtime (shared y))"
  using assms(1)
proof cases
  case (background d')
  then show ?thesis using runtime_ok_step [OF background_is_service_step] assms(2) by simp
next
  case (accepted i kind r)
  then show ?thesis using runtime_ok_step [OF service_step.accepted_stream] assms(2) by simp
next
  case (reads i r)
  from reads(4) show ?thesis by (cases rule: read_step_cases) (use assms(2) in simp_all)
next
  case (decides i current req net)
  then show ?thesis using assms(2) by (auto simp: decide_def Let_def split: prod.splits)
next
  case (controls is_cancelled write_fails i d')
  then show ?thesis using runtime_ok_step [OF service_step.serve_control [OF controls(4)]] assms(2) by simp
qed (use assms(2) in auto)

lemma task_runtime_ok_steps:
  "(task_step P C V codec rd L path hash deadline clock serves)\<^sup>*\<^sup>* x y \<Longrightarrow> runtime_ok P C V (runtime (shared x)) \<Longrightarrow>
    runtime_ok P C V (runtime (shared y))"
  by (induction rule: rtranclp_induct) (auto intro: task_runtime_ok)

text \<open>
  The config in force names the sockets that were bound at the start, and without a control socket
  there is no control connection.
\<close>

definition sockets_kept :: "('ci, 're) config \<Rightarrow> ('ci, 're, 'cn, 's, 'r) daemon \<Rightarrow> bool" where
  "sockets_kept c d \<longleftrightarrow>
     path_eq (socket (config_of_state (runtime d))) (socket c) \<and>
     path_opt_eq (control_socket (config_of_state (runtime d))) (control_socket c) \<and>
     (control_socket c = None \<longrightarrow> control_conns d = Map.empty)"

lemma sockets_kept_same:
  "sockets_kept c d \<Longrightarrow> runtime d' = runtime d \<Longrightarrow> dom (control_conns d') \<subseteq> dom (control_conns d) \<Longrightarrow> sockets_kept c d'"
  by (auto simp: sockets_kept_def)

lemma sockets_kept_background:
  assumes "background_step P C V path hash deadline clock serves d d'" and kept: "sockets_kept c d"
  shows "sockets_kept c d'"
  using assms(1)
proof cases
  case (swap dial files err state')
  from swap(3) show ?thesis
  proof (cases rule: reload_config_cases)
    case 1
    then show ?thesis using kept swap(1) by simp
  next
    case 2
    then show ?thesis using kept path_eq_trans [OF 2(3)] path_opt_eq_trans [OF 2(4)]
      by (simp add: swap(1) sockets_kept_def)
  qed
qed (use kept in \<open>auto intro!: sockets_kept_same [OF kept] split: if_splits\<close>)

lemma sockets_kept_step:
  assumes "task_step P C V codec rd L path hash deadline clock serves x y" and kept: "sockets_kept c (shared x)"
  shows "sockets_kept c (shared y)"
  using assms(1)
proof cases
  case (background d')
  then show ?thesis using sockets_kept_background kept by auto
next
  case (accepted i kind r)
  have "control_socket c = None \<Longrightarrow> kind = Policy"
    using kept accepted(5) path_opt_eq_None by (cases kind) (auto simp: sockets_kept_def accept_control_def)
  then show ?thesis using kept accepted(1)
    by (cases kind) (auto simp: sockets_kept_def accept_connection_def Let_def split: prod.splits)
next
  case (reads i r)
  from reads(4) show ?thesis by (cases rule: read_step_cases) (auto intro!: sockets_kept_same [OF kept])
next
  case (decides i current req net)
  then show ?thesis by (auto simp: decide_def Let_def split: prod.splits intro!: sockets_kept_same [OF kept])
next
  case (controls is_cancelled write_fails i d')
  then show ?thesis
    by (auto simp: control_serve_def split: option.splits turn.splits if_splits intro!: sockets_kept_same [OF kept])
qed (auto simp: kept intro!: sockets_kept_same [OF kept])

lemma sockets_kept_steps:
  "(task_step P C V codec rd L path hash deadline clock serves)\<^sup>*\<^sup>* x y \<Longrightarrow> sockets_kept c (shared x) \<Longrightarrow>
    sockets_kept c (shared y)"
  by (induction rule: rtranclp_induct) (auto intro: sockets_kept_step)

section \<open>Shutting down\<close>

text \<open>After the shutdown no connection is opened, and the accept loop does not come back.\<close>

lemma draining_step:
  assumes "task_step P C V codec rd L path hash deadline clock serves x y" and "phase x \<noteq> Accepting"
  shows "phase y \<noteq> Accepting \<and> dom (policy_conns (shared y)) \<subseteq> dom (policy_conns (shared x))
    \<and> dom (control_conns (shared y)) \<subseteq> dom (control_conns (shared x))"
  using assms(1)
proof cases
  case (background d')
  then show ?thesis using background_conns [OF background(3)] assms(2) by auto
next
  case (reads i r)
  from reads(4) show ?thesis
    by (cases rule: read_step_cases) (use reads(1-3) assms(2) in auto)
next
  case (decides i current req net)
  then show ?thesis using assms(2) by (auto simp: decide_def Let_def split: prod.splits)
next
  case (replies i action fails)
  then show ?thesis using assms(2) by (auto simp: reply_def split: option.splits)
next
  case (controls is_cancelled write_fails i d')
  then show ?thesis using assms(2) by (auto simp: control_serve_def split: option.splits turn.splits if_splits)
qed (use assms(2) in auto)

lemma draining_steps:
  "(task_step P C V codec rd L path hash deadline clock serves)\<^sup>*\<^sup>* x y \<Longrightarrow> phase x \<noteq> Accepting \<Longrightarrow>
    phase y \<noteq> Accepting \<and> dom (policy_conns (shared y)) \<subseteq> dom (policy_conns (shared x))
    \<and> dom (control_conns (shared y)) \<subseteq> dom (control_conns (shared x))"
proof (induction rule: rtranclp_induct)
  case (step y z)
  then show ?case using draining_step [OF step.hyps(2)] by blast
qed simp

text \<open>Work that is left in the drain: three steps for a request not yet decided, two for an answer not
  yet written, one for a waiting connection.\<close>

definition steps_left :: "('ci, 're, 'cn, 's, 'r) tasks \<Rightarrow> nat \<Rightarrow> nat" where
  "steps_left x i = (case busy x i of Some (Checking _ _) \<Rightarrow> 3 | Some (Replying _) \<Rightarrow> 2 | None \<Rightarrow> 1)"

lemma steps_left_shared [simp]: "steps_left (x\<lparr>shared := d\<rparr>) = steps_left x"
  by (simp add: fun_eq_iff steps_left_def)

lemma steps_left_pos: "0 < steps_left x i"
  by (simp add: steps_left_def split: option.split activity.split)

definition drain_work :: "('ci, 're, 'cn, 's, 'r) tasks \<Rightarrow> nat" where
  "drain_work x = sum (steps_left x) (dom (policy_conns (shared x))) + card (dom (control_conns (shared x)))"

lemma sum_less_at:
  assumes "finite A" and "i \<in> A" and "\<And>j. j \<in> A - {i} \<Longrightarrow> f j = (g j :: nat)" and "f i < g i"
  shows "sum f A < sum g A"
  by (rule sum_strict_mono_ex1) (use assms in \<open>auto, metis DiffI empty_iff insert_iff less_or_eq_imp_le order_refl\<close>)

lemma drain_progress:
  fixes x :: "('ci, 're, 'cn, 's, 'r) tasks"
  assumes ok: "tasks_ok x" and drain: "phase x = Draining" and work: "0 < drain_work x"
  shows "\<exists>y. task_step P C V codec rd L path hash deadline clock serves x y \<and> phase y = Draining
    \<and> drain_work y < drain_work x"
proof (cases "\<exists>i. policy_conns (shared x) i \<noteq> None")
  case True
  then obtain i where i: "policy_conns (shared x) i \<noteq> None" by blast
  let ?D = "dom (policy_conns (shared x))"
  have fin: "finite ?D" using ok by (simp add: tasks_ok_def slots_ok_def)
  have less: "drain_work y < drain_work x"
    if "policy_conns (shared y) = policy_conns (shared x)" "control_conns (shared y) = control_conns (shared x)"
      "\<And>j. j \<noteq> i \<Longrightarrow> busy y j = busy x j" "steps_left y i < steps_left x i"
    for y :: "('ci, 're, 'cn, 's, 'r) tasks"
    using sum_less_at [OF fin, of i "steps_left y" "steps_left x"] i that
    by (auto simp: drain_work_def steps_left_def)
  show ?thesis
  proof (cases "busy x i")
    case None
    let ?y = "x\<lparr>shared := finish_connection i (shared x)\<rparr>"
    have "sum (steps_left x) (?D - {i}) < sum (steps_left x) ?D"
      using i by (intro sum_strict_mono2 [OF fin]) (auto simp: steps_left_pos)
    then have "drain_work ?y < drain_work x" by (simp add: drain_work_def)
    then show ?thesis by (intro exI [of _ ?y] conjI task_step.ends [OF drain i None]) (use drain in simp_all)
  next
    case (Some a)
    show ?thesis
    proof (cases a)
      case (Checking current req)
      let ?y = "decide P V codec clock Request_Lost i current req x"
      have "drain_work ?y < drain_work x"
        by (rule less) (use Some Checking in \<open>simp_all add: decide_def Let_def steps_left_def split: prod.splits\<close>)
      moreover have "phase ?y = Draining" using drain by (simp add: decide_def Let_def split: prod.splits)
      ultimately show ?thesis using task_step.decides [of x i current req] drain Some Checking by blast
    next
      case (Replying action)
      have "drain_work (reply None i x) < drain_work x"
        by (rule less) (use Some Replying in \<open>simp_all add: reply_def steps_left_def\<close>)
      then show ?thesis using task_step.replies [where x = x and i = i and action = action and fails = None] drain Some Replying
        by (intro exI [of _ "reply None i x"]) simp
    qed
  qed
next
  case False
  then have "policy_conns (shared x) = Map.empty" by auto
  with work have "dom (control_conns (shared x)) \<noteq> {}" by (auto simp: drain_work_def card_gt_0_iff)
  then obtain i r where i: "control_conns (shared x) i = Some r" by blast
  let ?d = "(shared x)\<lparr>active := release_connection (active (shared x)),
    control_conns := (control_conns (shared x))(i := None)\<rparr>"
  have serve: "control_serve L P V rd True False i (shared x) = Some ?d"
    using i by (simp add: control_serve_def control_turn_def)
  have "card (dom (control_conns (shared x)) - {i}) < card (dom (control_conns (shared x)))"
    using ok i by (intro psubset_card_mono) (auto simp: tasks_ok_def slots_ok_def)
  then have "drain_work (x\<lparr>shared := ?d\<rparr>) < drain_work x"
    by (simp add: drain_work_def)
  then show ?thesis
    by (intro exI [of _ "x\<lparr>shared := ?d\<rparr>"] conjI task_step.controls [OF _ _ serve]) (use drain in simp_all)
qed

lemma drain_work_done:
  assumes "tasks_ok x" and "drain_work x = 0"
  shows "policy_conns (shared x) = Map.empty \<and> control_conns (shared x) = Map.empty"
proof -
  have "finite (dom (policy_conns (shared x)))" "finite (dom (control_conns (shared x)))"
    using assms(1) by (auto simp: tasks_ok_def slots_ok_def)
  moreover have "sum (steps_left x) (dom (policy_conns (shared x))) = 0" and none: "card (dom (control_conns (shared x))) = 0"
    using assms(2) by (simp_all add: drain_work_def)
  ultimately have "\<forall>i \<in> dom (policy_conns (shared x)). steps_left x i = 0" "dom (control_conns (shared x)) = {}"
    by simp_all
  moreover have "steps_left x i \<noteq> 0" for i using steps_left_pos [of x i] by simp
  ultimately show ?thesis by (simp add: domIff fun_eq_iff)
qed

lemma drain_finishes:
  assumes "tasks_ok x" and "phase x = Draining"
  shows "\<exists>y. (task_step P C V codec rd L path hash deadline clock serves)\<^sup>*\<^sup>* x y \<and> phase y = Exited"
  using assms
proof (induction "drain_work x" arbitrary: x rule: less_induct)
  case less
  show ?case
  proof (cases "drain_work x = 0")
    case True
    from task_step.drained [OF less.prems(2)] drain_work_done [OF less.prems(1) True]
    have "task_step P C V codec rd L path hash deadline clock serves x (x\<lparr>phase := Exited\<rparr>)" by blast
    then show ?thesis by (intro exI [of _ "x\<lparr>phase := Exited\<rparr>"]) auto
  next
    case False
    then obtain z where z: "task_step P C V codec rd L path hash deadline clock serves x z" "phase z = Draining"
      "drain_work z < drain_work x" using drain_progress [OF less.prems] by blast
    from less.hyps [OF z(3) tasks_ok_step [OF z(1) less.prems(1)] z(2)]
    obtain y where "(task_step P C V codec rd L path hash deadline clock serves)\<^sup>*\<^sup>* z y" "phase y = Exited" by blast
    with z(1) show ?thesis by (meson converse_rtranclp_into_rtranclp)
  qed
qed

section \<open>Runs\<close>

text \<open>A run of a step relation all of whose states satisfy \<open>Q\<close>.\<close>

inductive run_within :: "('a \<Rightarrow> 'a \<Rightarrow> bool) \<Rightarrow> ('a \<Rightarrow> bool) \<Rightarrow> 'a \<Rightarrow> 'a \<Rightarrow> bool" for step Q where
  stays: "Q x \<Longrightarrow> run_within step Q x x"
| moves: "run_within step Q x y \<Longrightarrow> step y z \<Longrightarrow> Q z \<Longrightarrow> run_within step Q x z"

lemma run_within_ends: "run_within step Q x y \<Longrightarrow> Q x \<and> Q y"
  by (induction rule: run_within.induct) auto

lemma run_within_trans: "run_within step Q y z \<Longrightarrow> run_within step Q x y \<Longrightarrow> run_within step Q x z"
  by (induction rule: run_within.induct) (auto intro: run_within.intros)

lemma run_within_mono: "run_within step Q x y \<Longrightarrow> (\<And>z. Q z \<Longrightarrow> Q' z) \<Longrightarrow> run_within step Q' x y"
  by (induction rule: run_within.induct) (auto intro: run_within.intros)

lemma run_within_steps: "run_within step Q x y \<Longrightarrow> step\<^sup>*\<^sup>* x y"
  by (induction rule: run_within.induct) (auto intro: rtranclp.rtrancl_into_rtrancl)

lemma run_within_invariant:
  assumes "run_within step Q x y" and "Inv x" and "\<And>y z. step y z \<Longrightarrow> Q y \<Longrightarrow> Inv y \<Longrightarrow> Inv z"
  shows "Inv y"
  using assms
proof (induction rule: run_within.induct)
  case (moves x y z)
  then show ?case using run_within_ends by metis
qed

section \<open>A sender under every schedule\<close>

text \<open>
  The invariant of a sender, and the state that a request in hand was loaded with: it may have been
  swapped since, but it is one that the run allows.
\<close>

definition tasks_inv :: "('ci, 'rs, 're, 'e) platform \<Rightarrow> ('cn \<Rightarrow> 's server_cmds) \<Rightarrow> 's server_cmds \<Rightarrow>
    ('s \<Rightarrow> string \<Rightarrow> (string \<rightharpoonup> string)) \<Rightarrow> ('s \<Rightarrow> string \<Rightarrow> nat option) \<Rightarrow> ('s \<Rightarrow> nat) \<Rightarrow> ('s \<Rightarrow> string \<Rightarrow> bool) \<Rightarrow>
    string \<Rightarrow> string \<Rightarrow> check_plan \<Rightarrow> bool \<Rightarrow> log \<Rightarrow> ('ci, 're, 'cn, 's, 'r) tasks \<Rightarrow> bool" where
  "tasks_inv P V cmds hash deadline clock serves pre u p deferring R0 x \<longleftrightarrow>
     sender_inv hash deadline clock serves pre u p deferring R0 (shared x) \<and>
     (\<forall>i current req. busy x i = Some (Checking current req) \<longrightarrow>
        steady P V cmds pre u p deferring ((shared x)\<lparr>runtime := current\<rparr>))"

lemma steady_cong: "runtime d = runtime d' \<Longrightarrow>
    steady P V cmds pre u p deferring d = steady P V cmds pre u p deferring d'"
  by (simp add: steady_def)

lemma sender_inv_cong:
  "server d' = server d \<Longrightarrow> answers d' = answers d \<Longrightarrow>
    sender_inv hash deadline clock serves pre u p deferring R0 d' = sender_inv hash deadline clock serves pre u p deferring R0 d"
  by (simp add: sender_inv_def)

lemma tasks_inv_init:
  "sender_rep hash deadline clock serves pre u p R0 (server (shared x)) \<Longrightarrow> admitted (plan_admits p) R0 \<Longrightarrow>
    answers (shared x) = [] \<Longrightarrow> busy x = Map.empty \<Longrightarrow>
    tasks_inv P V cmds hash deadline clock serves pre u p deferring R0 x"
  by (simp add: tasks_inv_def sender_inv_init)

context hash_server
begin

lemma sender_inv_decide:
  assumes wf: "plan_wf p" and fine: "plan_fine p" and codec: "codec_ok codec"
    and inv: "sender_inv hash deadline clock serves pre u p deferring R0 (shared x)"
    and steady: "steady P V cmds pre u p deferring ((shared x)\<lparr>runtime := current\<rparr>)"
  shows "sender_inv hash deadline clock serves pre u p deferring R0 (shared (decide P V codec clock net i current req x))"
proof -
  define y where "y = decide P V codec clock net i current req x"
  from y_def have "sender_inv hash deadline clock serves pre u p deferring R0 (shared y)"
  proof (cases rule: decide_cases)
    case untouched
    then show ?thesis using inv by (simp add: sender_inv_def)
  next
    case (checked v n r action)
    let ?fail = "case on_redis_error (config_of_state current) of
      Defer \<Rightarrow> ACTION_SERVICE_UNAVAILABLE | Permit \<Rightarrow> ACTION_DUNNO"
    show ?thesis
    proof (rule sender_inv_check [OF wf fine codec inv checked(2)])
      show "check_sasl cmds codec net pre v n (plan_for P (config_of_state current) v) None (server (shared x))
          = (r, server (shared y))" using checked(1) steady by (simp add: steady_def)
      show "deferring \<Longrightarrow> ?fail = ACTION_SERVICE_UNAVAILABLE" using steady by (simp add: steady_def)
    qed (use checked(3) steady in \<open>auto simp: steady_def split: failure_action.splits\<close>)
  qed
  then show ?thesis by (simp add: y_def)
qed

lemma tasks_inv_step:
  assumes wf: "plan_wf p" and fine: "plan_fine p" and codec: "codec_ok codec"
    and step: "task_step P C V codec rd L path hash deadline clock serves x y"
    and steady: "steady P V cmds pre u p deferring (shared x)"
    and inv: "tasks_inv P V cmds hash deadline clock serves pre u p deferring R0 x"
  shows "tasks_inv P V cmds hash deadline clock serves pre u p deferring R0 y"
proof -
  have sender: "sender_inv hash deadline clock serves pre u p deferring R0 (shared x)"
    and held: "\<And>i cur req. busy x i = Some (Checking cur req) \<Longrightarrow> steady P V cmds pre u p deferring (d\<lparr>runtime := cur\<rparr>)" for d
    using inv by (auto simp: tasks_inv_def steady_def)
  note by_service = sender_inv_step [OF wf fine codec _ steady sender]
  show ?thesis
    using step
  proof cases
    case (background d')
    then show ?thesis using by_service [OF background_is_service_step] held by (auto simp: tasks_inv_def)
  next
    case (accepted i kind r)
    then show ?thesis using by_service [OF service_step.accepted_stream [OF accepted(3-5)]] held
      by (auto simp: tasks_inv_def)
  next
    case (reads i r)
    from reads(4) show ?thesis
    proof (cases rule: read_step_cases)
      case (1 r' req)
      then show ?thesis using sender held steady
        by (auto simp: tasks_inv_def cong: sender_inv_cong steady_cong split: if_splits)
    next
      case (2 st)
      then show ?thesis using sender held by (auto simp: tasks_inv_def cong: sender_inv_cong)
    qed
  next
    case (decides i current req net)
    then show ?thesis
      using sender_inv_decide [OF wf fine codec sender held [OF decides(3)]] held
      by (auto simp: tasks_inv_def decide_def Let_def split: prod.splits if_splits)
  next
    case (controls is_cancelled write_fails i d')
    then show ?thesis using by_service [OF service_step.serve_control [OF controls(4)]] held
      by (auto simp: tasks_inv_def)
  next
    case (replies i action fails)
    then show ?thesis using sender held
      by (auto simp: tasks_inv_def cong: sender_inv_cong split: if_splits)
  qed (use sender held in \<open>auto simp: tasks_inv_def cong: sender_inv_cong\<close>)
qed

lemma tasks_inv_run:
  assumes "plan_wf p" and "plan_fine p" and "codec_ok codec"
    and "run_within (task_step P C V codec rd L path hash deadline clock serves)
      (\<lambda>x. steady P V cmds pre u p deferring (shared x)) x y"
    and "tasks_inv P V cmds hash deadline clock serves pre u p deferring R0 x"
  shows "tasks_inv P V cmds hash deadline clock serves pre u p deferring R0 y"
  by (rule run_within_invariant [OF assms(4), where Inv = "tasks_inv P V cmds hash deadline clock serves pre u p deferring R0"])
    (use assms tasks_inv_step in blast)+

text \<open>What holds of the sender at the end of such a run.\<close>

lemma run_sender_inv:
  assumes "plan_wf p" and "plan_fine p" and "codec_ok codec"
    and "run_within (task_step P C V codec rd L path hash deadline clock serves)
      (\<lambda>x. steady P V cmds pre u p deferring (shared x)) x y"
    and "sender_rep hash deadline clock serves pre u p R0 (server (shared x))"
    and "admitted (plan_admits p) R0" and "answers (shared x) = []" and "busy x = Map.empty"
  shows "sender_inv hash deadline clock serves pre u p deferring R0 (shared y)"
  using tasks_inv_run [OF assms(1-4) tasks_inv_init [OF assms(5-8)]] by (simp add: tasks_inv_def)

end

section \<open>A turn is a schedule\<close>

text \<open>
  A turn that Service takes in one step is the run of its task alone: reading, deciding, replying.
  The daemon of Service is thus the part of the schedules in which tasks do not overlap.
\<close>

lemma turn_is_schedule:
  assumes turn: "serve_turn P V codec rd clock env i (shared x) = Some d'" and "\<not> cancelled env"
    and idle: "busy x i = None" and phase: "phase x \<in> {Accepting, Draining}"
  shows "\<exists>y. run_within (task_step P C V codec rd L path hash deadline clock serves)
      (\<lambda>z. runtime (shared z) = runtime (shared x)) x y
    \<and> shared y = d' \<and> busy y = busy x \<and> phase y = phase x"
proof -
  let ?run = "run_within (task_step P C V codec rd L path hash deadline clock serves)
      (\<lambda>z. runtime (shared z) = runtime (shared x)) x"
  obtain r where r: "policy_conns (shared x) i = Some r" using turn by (auto simp: serve_turn_def split: option.splits)
  then obtain res r' where read: "read_from rd r = Some (res, r')"
    using turn assms(2) by (auto simp: serve_turn_def connection_turn_def split: option.splits prod.splits)
  have start: "?run x" by (rule run_within.stays) simp
  show ?thesis
  proof (cases "\<exists>req. res = Inr (Some req)")
    case False
    then obtain y where y: "read_step rd i r x = Some y" "busy y = busy x" "phase y = phase x" "shared y = d'"
      using turn r read assms(2)
      by (auto simp: read_step_def serve_turn_def connection_turn_def noted_def finish_connection_def
          split: option.splits sum.splits)
    have "runtime d' = runtime (shared x)" by (rule serve_turn_runtime [OF turn])
    then have "?run y" using run_within.moves [OF start task_step.reads [OF phase r idle y(1)]] y(4) by simp
    with y show ?thesis by blast
  next
    case True
    then obtain req where req: "res = Inr (Some req)" by blast
    obtain action ls st s' where h: "handle_request False P V codec (network env) req
        (config_of_state (runtime (shared x))) (limiter_of_state (runtime (shared x)))
        (counters (shared x)) (server (shared x)) = (action, ls, st, s')" by (metis prod.exhaust)
    define x1 where "x1 = x\<lparr>shared := (shared x)\<lparr>policy_conns := (policy_conns (shared x))(i \<mapsto> r')\<rparr>,
        busy := (busy x)(i \<mapsto> Checking (runtime (shared x)) req), taken := taken x + 1\<rparr>"
    define x2 where "x2 = decide P V codec clock (network env) i (runtime (shared x)) req x1"
    define x3 where "x3 = reply (write_error env) i x2"
    have "read_step rd i r x = Some x1" using read req by (simp add: read_step_def x1_def)
    then have "task_step P C V codec rd L path hash deadline clock serves x x1"
      by (rule task_step.reads [OF phase r idle])
    with start have run1: "?run x1" by (rule run_within.moves) (simp add: x1_def)
    have "task_step P C V codec rd L path hash deadline clock serves x1 x2"
      unfolding x2_def by (rule task_step.decides) (use phase in \<open>simp_all add: x1_def\<close>)
    with run1 have run2: "?run x2"
      by (rule run_within.moves) (simp add: x2_def x1_def decide_def Let_def h)
    have "task_step P C V codec rd L path hash deadline clock serves x2 x3"
      unfolding x3_def by (rule task_step.replies [where action = action])
        (use phase in \<open>simp_all add: x2_def x1_def decide_def Let_def h\<close>)
    with run2 have "?run x3"
      by (rule run_within.moves) (simp add: x3_def x2_def x1_def decide_def Let_def h)
    moreover have "shared x3 = d' \<and> busy x3 = busy x \<and> phase x3 = phase x"
      using turn r read req assms(2) idle
      by (auto simp: x3_def reply_def x2_def x1_def decide_def h serve_turn_def connection_turn_def noted_def
          finish_connection_def fun_upd_idem_iff Let_def split: option.splits)
    ultimately show ?thesis by blast
  qed
qed

end
