(* ===== verification/Command_Line.thy ===== *)
theory Command_Line
  imports Startup Tasks_Correct
begin

text \<open>
  \<open>main\<close> of \<open>src/bin/postfix-ratelimitd.rs\<close> from the command line to the exit code: the options
  and their defaults, the choice of the log backend (\<open>init_logging\<close>), the startup, the handlers of
  the signals, the state that the accept loop begins with, and what the drain returns. The
  option parser, the backends and the environment are libraries: what they answer is in
  \<open>main_env\<close>.
\<close>

section \<open>Options\<close>

datatype log_target = Stdout | Syslog

datatype level_filter = Log_Off | Log_Error | Log_Warn | Log_Info | Log_Debug | Log_Trace

definition DEFAULT_CONFIG_PATH :: path where
  "DEFAULT_CONFIG_PATH = ''/etc/postfix-ratelimitd/config.toml''"

record daemon_cli =
  cli_config_path :: path
  cli_check_config :: bool
  cli_log_target :: log_target
  cli_syslog_ident :: "string option"
  cli_log_level :: level_filter

text \<open>The options that were given, and the defaults of the others.\<close>

definition daemon_cli_of :: "path option \<Rightarrow> bool \<Rightarrow> log_target option \<Rightarrow> string option \<Rightarrow> level_filter option \<Rightarrow>
    daemon_cli" where
  "daemon_cli_of config check target ident level = \<lparr>
     cli_config_path = or_default DEFAULT_CONFIG_PATH config,
     cli_check_config = check,
     cli_log_target = or_default Stdout target,
     cli_syslog_ident = ident,
     cli_log_level = or_default Log_Info level\<rparr>"

section \<open>Logging\<close>

datatype logger = Env_Logger level_filter | Syslog_Logger string level_filter

definition CARGO_PKG_NAME :: string where "CARGO_PKG_NAME = ''postfix-ratelimitd''"

text \<open>
  \<open>Env_Logger::init\<close> and the \<open>expect\<close> after \<open>set_boxed_logger\<close> panic when a logger is already
  installed: \<open>None\<close>. The result has the installed logger and the lines on stderr; \<open>connect\<close> is the
  error of connecting to syslog, if any.
\<close>

definition install :: "logger option \<Rightarrow> logger \<Rightarrow> logger option" where
  "install installed l = (if installed = None then Some l else None)"

definition init_logging :: "(string \<Rightarrow> string option) \<Rightarrow> log_target \<Rightarrow> string option \<Rightarrow> level_filter \<Rightarrow>
    logger option \<Rightarrow> (logger \<times> string list) option" where
  "init_logging connect target syslog_ident level installed =
     (case target of
        Stdout \<Rightarrow> map_option (\<lambda>l. (l, [])) (install installed (Env_Logger level))
      | Syslog \<Rightarrow>
          let ident = or_default CARGO_PKG_NAME syslog_ident
          in case connect ident of
               None \<Rightarrow> map_option (\<lambda>l. (l, [])) (install installed (Syslog_Logger ident level))
             | Some err \<Rightarrow>
                 map_option (\<lambda>l. (l, [''failed to connect to syslog, falling back to stdout: '' @ err]))
                   (install installed (Env_Logger level)))"

fun logger_level :: "logger \<Rightarrow> level_filter" where
  "logger_level (Env_Logger level) = level"
| "logger_level (Syslog_Logger ident level) = level"

text \<open>In a fresh process a logger is always installed, at the requested level.\<close>

lemma init_logging_installs:
  "\<exists>l err. init_logging connect target ident level None = Some (l, err) \<and> logger_level l = level
    \<and> (err \<noteq> [] \<longrightarrow> target = Syslog \<and> l = Env_Logger level)"
  by (cases target) (auto simp: init_logging_def install_def Let_def split: option.split)

section \<open>From start to exit\<close>

datatype signal_kind = Terminate | Hangup

text \<open>What \<open>fatal\<close> logs: an error of the startup or of installing a signal handler.\<close>

datatype 'e fatal_message = Not_Started "'e fatal_error" | No_Signal_Handler signal_kind string

definition fatal :: "'e fatal_message \<Rightarrow> exit_code \<times> 'e fatal_message option" where
  "fatal message = (Exit_Failure, Some message)"

definition INTEGRATION_TEST_ACKNOWLEDGMENT_ENV_VAR :: string where
  "INTEGRATION_TEST_ACKNOWLEDGMENT_ENV_VAR = ''POSTFIX_RATELIMITD_INTEGRATION_TEST_BUILD''"

text \<open>\<open>env_var\<close> is \<open>std::env::var\<close>, with \<open>None\<close> for an error.\<close>

record main_env =
  env_var :: "string \<Rightarrow> string option"
  syslog_connect :: "string \<Rightarrow> string option"
  signal_error :: "signal_kind \<Rightarrow> string option"

definition acknowledged_test_build :: "main_env \<Rightarrow> bool" where
  "acknowledged_test_build env \<longleftrightarrow> env_var env INTEGRATION_TEST_ACKNOWLEDGMENT_ENV_VAR \<noteq> None"

datatype ('e, 'h, 'rt) main_result =
    Exits exit_code "'e fatal_message option"
  | Serves logger 'rt "'h list" "path list"

text \<open>\<open>main\<close> up to the accept loop; \<open>None\<close> is a panic.\<close>

definition daemon_main :: "bool \<Rightarrow> main_env \<Rightarrow> ('ci, 'rs, 're, 'e) platform \<Rightarrow> ('ci, 'rs, 'cn, 'ad, 'pr) client_lib \<Rightarrow>
    ('cn \<Rightarrow> 's server_cmds) \<Rightarrow> 's \<Rightarrow> ('o, 'h) os \<Rightarrow> daemon_cli \<Rightarrow> 'o \<Rightarrow>
    (('e, 'h, ('ci, 're, 'cn) runtime_state) main_result \<times> 'o) option" where
  "daemon_main tests env P C V s os_ops c w =
     (if tests \<and> \<not> acknowledged_test_build env
      then Some (Exits Exit_Failure (Some (Not_Started Unacknowledged_Test_Build)), w)
      else
     (case init_logging (syslog_connect env) (cli_log_target c) (cli_syslog_ident c) (cli_log_level c) None of
        None \<Rightarrow> None
      | Some (logger, err) \<Rightarrow>
     (case startup_main tests (acknowledged_test_build env) P C V s os_ops (cli_config_path c) (cli_check_config c) w of
        None \<Rightarrow> None
      | Some (Startup_Failed e, w') \<Rightarrow>
          (case fatal (Not_Started e) of (code, message) \<Rightarrow> Some (Exits code message, w'))
      | Some (Config_Checked, w') \<Rightarrow> Some (Exits Exit_Success None, w')
      | Some (Serving rt locks listeners, w') \<Rightarrow>
     (case signal_error env Terminate of
        Some e \<Rightarrow>
          (case fatal (No_Signal_Handler Terminate e) of (code, message) \<Rightarrow> Some (Exits code message, w'))
      | None \<Rightarrow>
     (case signal_error env Hangup of
        Some e \<Rightarrow>
          (case fatal (No_Signal_Handler Hangup e) of (code, message) \<Rightarrow> Some (Exits code message, w'))
      | None \<Rightarrow> Some (Serves logger rt locks listeners, w'))))))"

text \<open>The state in which the accept loop starts: nothing counted or logged, no connection, no task.\<close>

definition boot :: "('ci, 're, 'cn) runtime_state \<Rightarrow> 's \<Rightarrow> ('ci, 're, 'cn, 's, 'r) tasks" where
  "boot rt s = \<lparr>
     shared = \<lparr>runtime = rt, counters = zero_stats, active = 0, policy_conns = Map.empty,
       control_conns = Map.empty, server = s, answers = [], journal = []\<rparr>,
     busy = Map.empty, phase = Accepting, taken = 0, settled = 0\<rparr>"

text \<open>The end of \<open>main\<close>: the exit code, and whether the timeout is logged.\<close>

definition drain_result :: "phase \<Rightarrow> (exit_code \<times> bool) option" where
  "drain_result ph =
     (case ph of
        Exited \<Rightarrow> Some (Exit_Success, False)
      | Exited_Late \<Rightarrow> Some (Exit_Success, True)
      | _ \<Rightarrow> None)"

section \<open>Lemmas\<close>

lemma boot_ok: "tasks_ok (boot rt s)"
  by (simp add: tasks_ok_def boot_def slots_ok_def MAX_CONNECTIONS_def)

lemma daemon_main_serves:
  assumes "daemon_main tests env P C V s os_ops c w = Some (Serves logger rt locks ls, w')"
  shows "startup_main tests (acknowledged_test_build env) P C V s os_ops (cli_config_path c) (cli_check_config c) w
      = Some (Serving rt locks ls, w')"
    and "signal_error env k = None" and "logger_level logger = cli_log_level c"
proof -
  obtain l err where l: "init_logging (syslog_connect env) (cli_log_target c) (cli_syslog_ident c) (cli_log_level c) None
      = Some (l, err)" "logger_level l = cli_log_level c"
    using init_logging_installs by blast
  from assms l show "startup_main tests (acknowledged_test_build env) P C V s os_ops (cli_config_path c) (cli_check_config c) w
      = Some (Serving rt locks ls, w')" "signal_error env k = None" "logger_level logger = cli_log_level c"
    by (cases k; auto simp: daemon_main_def fatal_def split: if_splits option.splits startup.splits)+
qed

text \<open>A panic of \<open>main\<close> before the accept loop could only be one of \<open>Config::load\<close>, which has none.\<close>

lemma daemon_main_returns: "\<exists>r w'. daemon_main tests env P C V s os_ops c w = Some (r, w')"
proof -
  obtain l err where l: "init_logging (syslog_connect env) (cli_log_target c) (cli_syslog_ident c) (cli_log_level c) None
      = Some (l, err)" using init_logging_installs by blast
  obtain r w' where "startup_main tests (acknowledged_test_build env) P C V s os_ops (cli_config_path c)
      (cli_check_config c) w = Some (r, w')"
    using config_load_no_panic [of P "cli_config_path c"]
    by (cases "startup_main tests (acknowledged_test_build env) P C V s os_ops (cli_config_path c) (cli_check_config c) w")
      (auto simp: startup_main_def split: if_splits option.splits sum.splits prod.splits)
  then show ?thesis
    by (cases r) (auto simp: daemon_main_def l fatal_def split: option.split)
qed

text \<open>An exit before the accept loop is a success only after a check of the config.\<close>

lemma daemon_main_exits:
  assumes "daemon_main tests env P C V s os_ops c w = Some (Exits code message, w')"
  shows "code = Exit_Success \<longleftrightarrow> message = None"
    and "code = Exit_Success \<Longrightarrow> cli_check_config c \<and> (\<exists>cfg. config_load P (cli_config_path c) = Some (Inr cfg))"
proof -
  obtain l err where l: "init_logging (syslog_connect env) (cli_log_target c) (cli_syslog_ident c) (cli_log_level c) None
      = Some (l, err)" using init_logging_installs by blast
  from assms show "code = Exit_Success \<longleftrightarrow> message = None"
    by (auto simp: daemon_main_def fatal_def l split: if_splits option.splits startup.splits)
  assume "code = Exit_Success"
  with assms have "startup_main tests (acknowledged_test_build env) P C V s os_ops (cli_config_path c)
      (cli_check_config c) w = Some (Config_Checked, w')"
    by (auto simp: daemon_main_def fatal_def l split: if_splits option.splits startup.splits)
  then show "cli_check_config c \<and> (\<exists>cfg. config_load P (cli_config_path c) = Some (Inr cfg))"
    by (rule startup_checked)
qed

end
