(* ===== verification/Coverage.thy ===== *)
theory Coverage
  imports Isolation
begin

text \<open>
  The script on a server whose hashes were left by anything at all, such as checks under an earlier
  plan of the same sender: fields and counts are decimal numbers (\<open>tidy_key\<close>), nothing else is known.
  The hashes may then hold more than a given log of messages and never less (\<open>covers\<close>), so that a
  message that the script accepts is one that the windows admit on that log.
\<close>

section \<open>Hashes of counts\<close>

definition bucket_count :: "(string \<rightharpoonup> string) \<Rightarrow> nat \<Rightarrow> nat" where
  "bucket_count m b = (case m (show_nat b) of None \<Rightarrow> 0 | Some v \<Rightarrow> the (parse_digits v))"

lemma bucket_count_simps [simp]:
  "bucket_count Map.empty b = 0"
  "bucket_count (m(show_nat b \<mapsto> show_nat c)) b' = (if b' = b then c else bucket_count m b')"
  by (simp_all add: bucket_count_def decimal_simps)

definition tidy_key :: "('s \<Rightarrow> string \<Rightarrow> (string \<rightharpoonup> string)) \<Rightarrow> ('s \<Rightarrow> string \<Rightarrow> bool) \<Rightarrow> 's \<Rightarrow> string \<Rightarrow> bool" where
  "tidy_key hash serves s k \<longleftrightarrow> serves s k \<and>
     (\<forall>f v. hash s k f = Some v \<longrightarrow> (\<exists>b c. f = show_nat b \<and> v = show_nat c \<and> c < 2 ^ 32))"

lemma tidy_key_cong:
  "hash s' k = hash s k \<Longrightarrow> serves s' k = serves s k \<Longrightarrow> tidy_key hash serves s' k = tidy_key hash serves s k"
  by (simp add: tidy_key_def)

text \<open>What the script reads of a hash: its buckets in some order, and the smallest id.\<close>

definition fetched_from :: "(string \<rightharpoonup> string) \<Rightarrow> entry list \<times> int option \<Rightarrow> bool" where
  "fetched_from m em \<longleftrightarrow> (\<exists>bl.
     em = (map (\<lambda>b. (Some (int b), Some (int (bucket_count m b)))) bl, map_option int (min_opt None bl)) \<and>
     distinct bl \<and> dom m = show_nat ` set bl)"

text \<open>What the buckets within reach of a window hold together.\<close>

definition window_count :: "(string \<rightharpoonup> string) \<Rightarrow> nat \<Rightarrow> nat \<Rightarrow> nat \<Rightarrow> nat" where
  "window_count m now bs span = (\<Sum>b | show_nat b \<in> dom m \<and> now < (b + 1) * bs + span. bucket_count m b)"

lemma fetched_finite:
  assumes "fetched_from m em"
  shows "finite {b. show_nat b \<in> dom m \<and> Q b}"
proof -
  obtain bl where "dom m = show_nat ` set bl" using assms by (auto simp: fetched_from_def)
  then have "{b. show_nat b \<in> dom m \<and> Q b} \<subseteq> set bl" by auto
  then show ?thesis by (rule finite_subset) simp
qed

lemma window_total_fetched:
  assumes "fetched_from m (es, mi)"
  shows "window_total (int bs) (int now - int span) es (int n) = Inr (int (n + window_count m now bs span))"
proof -
  obtain bl where es: "es = map (\<lambda>b. (Some (int b), Some (int (bucket_count m b)))) bl"
    and bl: "distinct bl" "dom m = show_nat ` set bl"
    using assms by (auto simp: fetched_from_def)
  have "distinct (filter (\<lambda>b. now < (b + 1) * bs + span) bl)" using bl(1) by simp
  from sum_list_distinct_conv_sum_set [OF this, of "bucket_count m"]
  have "sum_list (map (bucket_count m) (filter (\<lambda>b. now < (b + 1) * bs + span) bl)) = window_count m now bs span"
    by (simp add: window_count_def bl(2) image_iff)
  then show ?thesis unfolding es window_total_entries by simp
qed

text \<open>A message that fits the longest window of a key leaves its bucket a 32-bit number.\<close>

lemma bucket_count_room:
  assumes "fetched_from m em" and "0 < bs" and "n + window_count m now bs R \<le> lim" and "lim < 2 ^ 32"
  shows "bucket_count m (now div bs) + n < 2 ^ 32"
proof (cases "show_nat (now div bs) \<in> dom m")
  case False
  then have "bucket_count m (now div bs) = 0" by (simp add: bucket_count_def domIff)
  then show ?thesis using assms(3,4) by simp
next
  case True
  let ?B = "{b. show_nat b \<in> dom m \<and> now < (b + 1) * bs + R}"
  have "now < (now div bs + 1) * bs" using bucket_end_after [OF assms(2)] by (simp add: bucket_end_def)
  then have "bucket_count m (now div bs) \<le> sum (bucket_count m) ?B"
    using True by (intro member_le_sum fetched_finite [OF assms(1)]) auto
  then show ?thesis using assms(3,4) by (simp add: window_count_def)
qed

section \<open>Hashes that hold at least a log\<close>

text \<open>
  Every bucket within reach of the retention holds at least what the log has for it, and the key
  lives as long as the buckets of the log can be within reach.
\<close>

definition covers :: "('s \<Rightarrow> string \<Rightarrow> (string \<rightharpoonup> string)) \<Rightarrow> ('s \<Rightarrow> string \<Rightarrow> nat option) \<Rightarrow> ('s \<Rightarrow> nat) \<Rightarrow>
    log \<Rightarrow> 's \<Rightarrow> string \<times> nat \<times> nat \<Rightarrow> bool" where
  "covers hash deadline clock G s = (\<lambda>(k, bs, R).
     (\<forall>b. clock s < (b + 1) * bs + R \<longrightarrow> logged G (\<lambda>t. t div bs = b) \<le> bucket_count (hash s k) b) \<and>
     (hash s k \<noteq> Map.empty \<longrightarrow> (\<forall>d. deadline s k = Some d \<longrightarrow> (\<forall>(t, n) \<in> set G. bucket_end bs t + R \<le> d))))"

lemma covers_Nil [simp]: "covers hash deadline clock [] s key"
  by (cases key) (simp add: covers_def)

lemma covers_prefix: "covers hash deadline clock (G @ E) s key \<Longrightarrow> covers hash deadline clock G s key"
  by (cases key) (auto simp: covers_def intro: le_trans [OF le_add1])

lemma covers_cong:
  "hash s' k = hash s k \<Longrightarrow> deadline s' k = deadline s k \<Longrightarrow> clock s' = clock s \<Longrightarrow>
    covers hash deadline clock G s' (k, bs, R) = covers hash deadline clock G s (k, bs, R)"
  by (simp add: covers_def)

lemma tidy_key_idle:
  assumes "idle hash deadline clock serves K s s'" and "k \<in> K" and "tidy_key hash serves s k"
  shows "tidy_key hash serves s' k"
proof -
  have "serves s k" using assms(3) by (simp add: tidy_key_def)
  from assms(1) [unfolded idle_def, THEN conjunct2, rule_format, OF assms(2) this]
  show ?thesis using assms(3) by (auto simp: tidy_key_def)
qed

lemma covers_idle:
  assumes idle: "idle hash deadline clock serves K s s'" and k: "k \<in> K" and srv: "serves s k"
    and cov: "covers hash deadline clock G s (k, bs, R)"
  shows "covers hash deadline clock G s' (k, bs, R)"
proof -
  have le: "clock s \<le> clock s'" using idle by (simp add: idle_def)
  from idle [unfolded idle_def, THEN conjunct2, rule_format, OF k srv]
  consider (kept) "hash s' k = hash s k" "deadline s' k = deadline s k"
    | (gone) d where "deadline s k = Some d" "d \<le> clock s'" "hash s' k = Map.empty" by blast
  then show ?thesis
  proof cases
    case kept
    then show ?thesis using cov le_less_trans [OF le] by (simp add: covers_def)
  next
    case gone
    have "logged G (\<lambda>t. t div bs = b) = 0" if reach: "clock s' < (b + 1) * bs + R" for b
    proof (cases "hash s k = Map.empty")
      case True
      have "clock s < (b + 1) * bs + R" using reach le by linarith
      then have "logged G (\<lambda>t. t div bs = b) \<le> bucket_count (hash s k) b" using cov by (simp add: covers_def)
      then show ?thesis by (simp add: True)
    next
      case False
      show ?thesis
      proof (rule logged_none)
        fix t n assume "(t, n) \<in> set G"
        then have "bucket_end bs t + R \<le> clock s'" using False cov gone by (fastforce simp: covers_def)
        then show "t div bs \<noteq> b" using reach by (auto simp: bucket_end_def)
      qed
    qed
    then show ?thesis using gone by (simp add: covers_def)
  qed
qed

text \<open>The buckets within reach of a window hold at least the window's part of the log.\<close>

lemma covers_window:
  assumes cov: "covers hash deadline clock G s (k, bs, R)" and "span \<le> R" and em: "fetched_from (hash s k) em"
  shows "logged G (\<lambda>t. clock s < bucket_end bs t + span) \<le> window_count (hash s k) (clock s) bs span"
proof -
  let ?m = "hash s k" and ?in = "\<lambda>b. clock s < (b + 1) * bs + span"
  let ?bl = "remdups (filter ?in (map (\<lambda>(t, n). t div bs) G))"
  have reach: "logged G (\<lambda>t. t div bs = b) \<le> bucket_count ?m b" if "?in b" for b
    using cov that assms(2) by (auto simp: covers_def)
  have fin: "finite {b. show_nat b \<in> dom ?m \<and> ?in b}" by (rule fetched_finite [OF em])
  have "logged G (\<lambda>t. clock s < bucket_end bs t + span) = logged G (\<lambda>t. t div bs \<in> set ?bl)"
    by (rule logged_cong) (force simp: bucket_end_def)
  also have "\<dots> = (\<Sum>b \<in> set ?bl. logged G (\<lambda>t. t div bs = b))"
    using logged_buckets [of ?bl G bs] by (simp add: sum_list_distinct_conv_sum_set del: set_remdups set_filter)
  also have "\<dots> \<le> (\<Sum>b \<in> set ?bl. bucket_count ?m b)"
    by (rule sum_mono) (use reach in auto)
  also have "\<dots> = (\<Sum>b \<in> {b \<in> set ?bl. show_nat b \<in> dom ?m}. bucket_count ?m b)"
    by (rule sum.mono_neutral_right) (auto simp: bucket_count_def domIff split: option.split)
  also have "\<dots> \<le> window_count ?m (clock s) bs span"
    unfolding window_count_def by (rule sum_mono2 [OF fin]) auto
  finally show ?thesis .
qed

context hash_server
begin

section \<open>The script, phase by phase\<close>

lemma fetch_tidy:
  assumes "tidy_key hash serves s k"
  shows "\<exists>fvs em. cmd_hgetall cmds s k = Inr fvs \<and> parse_fields fvs None = Inr em \<and> fetched_from (hash s k) em"
proof -
  let ?c = "bucket_count (hash s k)"
  from assms have "serves s k" by (simp add: tidy_key_def)
  from hgetall_law [OF this] obtain fvs where
    F: "cmd_hgetall cmds s k = Inr (flat_pairs fvs)" "distinct (map fst fvs)" "map_of fvs = hash s k"
    by blast
  have shape: "\<exists>b. f = show_nat b \<and> v = show_nat (?c b)" if "(f, v) \<in> set fvs" for f v
  proof -
    from that F(2,3) have f: "hash s k f = Some v" by (metis map_of_is_SomeI)
    with assms obtain b c where "f = show_nat b" "v = show_nat c" by (fastforce simp: tidy_key_def)
    with f show ?thesis by (auto simp: bucket_count_def decimal_simps)
  qed
  define bl where "bl = map (\<lambda>(f, v). the (parse_digits f)) fvs"
  have fvs: "fvs = map (\<lambda>b. (show_nat b, show_nat (?c b))) bl"
    unfolding bl_def map_map by (rule map_idI [symmetric]) (use shape in \<open>fastforce simp: decimal_simps\<close>)
  then have names: "map fst fvs = map show_nat bl" by (simp add: comp_def)
  have "distinct bl" using F(2) unfolding names by (simp add: distinct_map)
  moreover have "dom (hash s k) = show_nat ` set bl"
    using F(3) names by (metis dom_map_of_conv_image_fst list.set_map)
  ultimately show ?thesis
    using F(1) parse_fields_decimal [of ?c bl None] unfolding fvs by (auto simp: fetched_from_def)
qed

lemma fetch_all_tidy:
  assumes "\<forall>key \<in> set kl. tidy_key hash serves s (fst key)"
  shows "\<exists>ems. fetch_buckets cmds s (map fst kl) (map (\<lambda>(k, bs, R). int bs) kl) = Inr ems
    \<and> list_all2 (\<lambda>key. fetched_from (hash s (fst key))) kl ems"
  using assms
proof (induction kl)
  case Nil
  then show ?case by simp
next
  case (Cons key kl)
  obtain k bs R where key: "key = (k, bs, R)" by (cases key)
  then have "tidy_key hash serves s k" using Cons.prems by auto
  from fetch_tidy [OF this] obtain fvs em where "cmd_hgetall cmds s k = Inr fvs"
    "parse_fields fvs None = Inr em" "fetched_from (hash s k) em" by blast
  moreover from Cons obtain ems where
    "fetch_buckets cmds s (map fst kl) (map (\<lambda>(k, bs, R). int bs) kl) = Inr ems"
    "list_all2 (\<lambda>key. fetched_from (hash s (fst key))) kl ems" by auto
  ultimately show ?case by (auto simp: key)
qed

text \<open>The windows are checked against what the hashes hold.\<close>

lemma check_windows_tidy:
  assumes "list_all2 (\<lambda>key. fetched_from (hash s (fst key))) kl ems"
    and "\<forall>w \<in> set ws. key_index w < length kl"
  shows "check_windows (int now) (int n) (map (\<lambda>(k, bs, R). int bs) kl) ems (map lua_window_of ws)
    = Inr (\<forall>w \<in> set ws. n + window_count (hash s (fst (kl ! key_index w))) now (fst (snd (kl ! key_index w)))
        (unat (span_secs w)) \<le> unat (limit w))"
  using assms(2)
proof (induction ws)
  case Nil
  then show ?case by simp
next
  case (Cons w ws)
  let ?i = "key_index w"
  obtain k bs R where key: "kl ! ?i = (k, bs, R)" by (cases "kl ! ?i")
  from Cons.prems have i: "?i < length kl" by simp
  obtain es mi where em: "ems ! ?i = (es, mi)" by (cases "ems ! ?i")
  have len: "length ems = length kl" using list_all2_lengthD [OF assms(1)] by simp
  have "fetched_from (hash s k) (es, mi)"
    using list_all2_nthD [OF assms(1) i(1)] by (simp add: key em)
  note tot = window_total_fetched [OF this, of bs now "unat (span_secs w)" n]
  show ?case
    using i(1) len tot Cons
    by (simp add: lua_index_Suc key em int_gt_uint del: of_nat_add)
qed

text \<open>Recording on one key, completed or cut short by \<open>unpack\<close>.\<close>

lemma record_key_covers:
  assumes tidy: "tidy_key hash serves s k" and bs: "0 < bs" and small: "R + bs < 2 ^ 53"
    and room: "bucket_count (hash s k) (clock s div bs) + n < 2 ^ 32"
    and em: "fetched_from (hash s k) em"
    and cov: "covers hash deadline clock G s (k, bs, R)" and past: "\<forall>(t, m) \<in> set G. t \<le> clock s"
  obtains r s' where "record_key cmds (int (clock s)) (int n) k (int bs) (Some (int R)) em s = (r, s')"
    and "tidy_key hash serves s' k" and "covers hash deadline clock (G @ [(clock s, n)]) s' (k, bs, R)"
    and "clock s' = clock s" and "serves s' = serves s"
proof -
  let ?b = "clock s div bs" and ?c = "bucket_count (hash s k)"
  obtain bl where bl: "em = (map (\<lambda>b. (Some (int b), Some (int (?c b)))) bl, map_option int (min_opt None bl))"
    "dom (hash s k) = show_nat ` set bl"
    using em by (auto simp: fetched_from_def)
  have val: "hash s k (show_nat ?b) = Some (show_nat (?c ?b)) \<or> hash s k (show_nat ?b) = None \<and> ?c ?b = 0"
  proof (cases "hash s k (show_nat ?b)")
    case (Some v)
    then obtain c where "v = show_nat c" using tidy by (fastforce simp: tidy_key_def)
    with Some show ?thesis by (simp add: bucket_count_def decimal_simps)
  qed (simp add: bucket_count_def)
  have srv: "serves s k" using tidy by (simp add: tidy_key_def)
  define M where "M = (hash s k)(show_nat ?b \<mapsto> show_nat (?c ?b + n))"
  define stale where "stale = {b. show_nat b \<in> dom (hash s k) \<and> (b + 1) * bs + R \<le> clock s}"
  obtain r s' where run: "record_key cmds (int (clock s)) (int n) k (int bs) (Some (int R)) em s = (r, s')"
    and hash': "hash s' k = M |` (- show_nat ` stale) \<or> hash s' k = M"
    and dl: "deadline s' k = Some (clock s + (R + bs))" and same: "clock s' = clock s" "serves s' = serves s"
  proof (rule record_key_effect [OF srv bs small room val bl(2), of ?c])
    fix r s' assume "record_key cmds (int (clock s)) (int n) k (int bs) (Some (int R))
        (map (\<lambda>b. (Some (int b), Some (int (?c b)))) bl, map_option int (min_opt None bl)) s = (r, s')"
      and "r = Inr () \<and> hash s' = (hash s)(k := (hash s k)(show_nat ?b \<mapsto> show_nat (?c ?b + n))
           |` (- show_nat ` {b. show_nat b \<in> dom (hash s k) \<and> (b + 1) * bs + R \<le> clock s}))
       \<or> 8000 \<le> length bl \<and> r = Inl Unpack_Error
         \<and> hash s' = (hash s)(k := (hash s k)(show_nat ?b \<mapsto> show_nat (?c ?b + n)))"
      and "deadline s' = (deadline s)(k := Some (clock s + (R + bs)))" "clock s' = clock s" "serves s' = serves s"
    then show thesis
      by (intro that [of r s']) (auto simp: bl(1) M_def stale_def simp del: restrict_map_upds restrict_fun_upd)
  qed
  have sub: "hash s' k f = Some v \<Longrightarrow> M f = Some v" for f v
    using hash' by (auto simp: restrict_map_def split: if_splits)
  have "tidy_key hash serves s' k"
    unfolding tidy_key_def
  proof (intro conjI allI impI)
    fix f v assume "hash s' k f = Some v"
    from sub [OF this] show "\<exists>b c. f = show_nat b \<and> v = show_nat c \<and> c < 2 ^ 32"
      using tidy room by (auto simp: M_def tidy_key_def split: if_splits)
  qed (simp add: same srv)
  moreover have "covers hash deadline clock (G @ [(clock s, n)]) s' (k, bs, R)"
    unfolding covers_def prod.case
  proof (intro conjI allI impI)
    fix b assume reach: "clock s' < (b + 1) * bs + R"
    then have "b \<notin> stale" by (simp add: stale_def same)
    then have "hash s' k (show_nat b) = M (show_nat b)" using hash' by (auto simp: restrict_map_def)
    then have "bucket_count (hash s' k) b = (if b = ?b then ?c ?b + n else ?c b)"
      by (simp add: M_def bucket_count_def decimal_simps)
    moreover have "logged G (\<lambda>t. t div bs = b) \<le> ?c b" using cov reach by (simp add: covers_def same)
    ultimately show "logged (G @ [(clock s, n)]) (\<lambda>t. t div bs = b) \<le> bucket_count (hash s' k) b"
      by (cases "b = ?b") simp_all
  next
    fix d assume "deadline s' k = Some d"
    then have d: "d = clock s + (R + bs)" using dl by simp
    have "bucket_end bs t + R \<le> d" if "t \<le> clock s" for t using bucket_end_le [of bs t] that d by linarith
    then show "\<forall>(t, m) \<in> set (G @ [(clock s, n)]). bucket_end bs t + R \<le> d" using past by auto
  qed
  ultimately show thesis using that run same by blast
qed

lemma record_keys_covers:
  assumes "list_all2 (\<lambda>key. fetched_from (hash s (fst key))) kl ems"
    and "\<forall>(k, bs, R) \<in> set kl. tidy_key hash serves s k \<and> 0 < bs \<and> R + bs < 2 ^ 53
      \<and> bucket_count (hash s k) (clock s div bs) + n < 2 ^ 32"
    and "\<forall>key \<in> set kl. covers hash deadline clock G s key"
    and "distinct (map fst kl)" and "\<forall>(t, m) \<in> set G. t \<le> clock s"
  shows "\<exists>r s'. record_keys cmds (int (clock s)) (int n) (map fst kl) (map (\<lambda>(k, bs, R). int bs) kl)
        (map (\<lambda>(k, bs, R). int R) kl) ems s = (r, s')
    \<and> (\<forall>key \<in> set kl. tidy_key hash serves s' (fst key)) \<and> (\<forall>key \<in> set kl. covers hash deadline clock G s' key)
    \<and> (r = Inr () \<longrightarrow> (\<forall>key \<in> set kl. covers hash deadline clock (G @ [(clock s, n)]) s' key))
    \<and> clock s' = clock s \<and> serves s' = serves s"
  using assms
proof (induction kl arbitrary: ems s)
  case Nil
  then show ?case by simp
next
  case (Cons key kl)
  obtain k bs R where key: "key = (k, bs, R)" by (cases key)
  from Cons.prems(1) obtain em ems' where ems: "ems = em # ems'"
    and fetched: "fetched_from (hash s k) em" "list_all2 (\<lambda>key. fetched_from (hash s (fst key))) kl ems'"
    by (auto simp: list_all2_Cons1 key)
  from Cons.prems(2,3) have k: "tidy_key hash serves s k" "0 < bs" "R + bs < 2 ^ 53"
    "bucket_count (hash s k) (clock s div bs) + n < 2 ^ 32" "covers hash deadline clock G s (k, bs, R)"
    by (auto simp: key)
  from record_key_covers [OF k(1-4) fetched(1) k(5) Cons.prems(5)] obtain r1 s1 where
    s1: "record_key cmds (int (clock s)) (int n) k (int bs) (Some (int R)) em s = (r1, s1)"
      "tidy_key hash serves s1 k" "covers hash deadline clock (G @ [(clock s, n)]) s1 (k, bs, R)"
      "clock s1 = clock s" "serves s1 = serves s" by blast
  have other: "fst key' \<noteq> k" if "key' \<in> set kl" for key'
    using Cons.prems(4) that by (auto simp: key)
  have frame: "hash s1 k' = hash s k'" "deadline s1 k' = deadline s k'" if "k' \<noteq> k" for k'
    using record_key_frame [OF s1(1) that] by (simp_all add: same_key_def)
  have rest: "\<forall>(k, bs, R) \<in> set kl. tidy_key hash serves s1 k \<and> 0 < bs \<and> R + bs < 2 ^ 53
      \<and> bucket_count (hash s1 k) (clock s1 div bs) + n < 2 ^ 32"
    "\<forall>key \<in> set kl. covers hash deadline clock G s1 key"
    using Cons.prems(2,3) other frame s1(4,5)
    by (fastforce simp: tidy_key_def, fastforce simp: covers_def)
  show ?case
  proof (cases r1)
    case (Inl e)
    have "\<forall>key' \<in> set (key # kl). tidy_key hash serves s1 (fst key')"
      "\<forall>key' \<in> set (key # kl). covers hash deadline clock G s1 key'"
      using rest s1(2) covers_prefix [OF s1(3)] by (auto simp: key)
    then show ?thesis using s1(1,4,5) by (simp add: key ems Inl)
  next
    case (Inr x)
    have fetched1: "list_all2 (\<lambda>key. fetched_from (hash s1 (fst key))) kl ems'"
      using fetched(2)
    proof (rule list.rel_mono_strong)
      fix key' em' assume "key' \<in> set kl" "fetched_from (hash s (fst key')) em'"
      then show "fetched_from (hash s1 (fst key')) em'"
        using other [of key'] frame(1) by (cases key') auto
    qed
    from Cons.IH [OF this rest] Cons.prems(4,5) s1(4) obtain r2 s2 where
      s2: "record_keys cmds (int (clock s)) (int n) (map fst kl) (map (\<lambda>(k, bs, R). int bs) kl)
          (map (\<lambda>(k, bs, R). int R) kl) ems' s1 = (r2, s2)"
        "\<forall>key \<in> set kl. tidy_key hash serves s2 (fst key)" "\<forall>key \<in> set kl. covers hash deadline clock G s2 key"
        "r2 = Inr () \<longrightarrow> (\<forall>key \<in> set kl. covers hash deadline clock (G @ [(clock s, n)]) s2 key)"
        "clock s2 = clock s" "serves s2 = serves s" by (auto simp: s1(5))
    have "k \<notin> set (map fst kl)" using other by auto
    from record_keys_frame [OF s2(1) this] have k2: "hash s2 k = hash s1 k" "deadline s2 k = deadline s1 k"
      by (simp_all add: same_key_def)
    have "covers hash deadline clock (G @ [(clock s, n)]) s2 (k, bs, R)" "tidy_key hash serves s2 k"
      using s1(2-5) s2(5,6) k2 by (simp_all add: covers_def tidy_key_def)
    then have "\<forall>key' \<in> set (key # kl). tidy_key hash serves s2 (fst key')"
      "\<forall>key' \<in> set (key # kl). covers hash deadline clock G s2 key'"
      "r2 = Inr () \<longrightarrow> (\<forall>key' \<in> set (key # kl). covers hash deadline clock (G @ [(clock s, n)]) s2 key')"
      using s2(2-4) covers_prefix by (auto simp: key)
    then show ?thesis using s1(1) s2(1,5,6) by (simp add: key ems Inr)
  qed
qed

text \<open>
  The script as a whole. What it accepts is admitted on any log that the hashes cover, and is
  covered afterwards, however its run ends.
\<close>

lemma check_and_record_covers:
  assumes wf: "plan_wf p" and fine: "plan_fine p" and codec: "codec_ok codec"
    and tidy: "\<forall>key \<in> set (plan_keys pre u p). tidy_key hash serves s (fst key)"
    and cov: "\<forall>key \<in> set (plan_keys pre u p). covers hash deadline clock G s key"
    and past: "\<forall>(t, m) \<in> set G. t \<le> clock s"
  shows "\<exists>r s'. check_and_record cmds codec (map (sender_key pre u) (bucket_sizes p))
        (to_text codec (check_request_json n None p)) s = (r, s')
    \<and> (\<forall>key \<in> set (plan_keys pre u p). tidy_key hash serves s' (fst key)) \<and> clock s' = clock s
    \<and> (\<forall>key \<in> set (plan_keys pre u p). covers hash deadline clock G s' key)
    \<and> (r = Inr 1 \<longrightarrow> plan_admits p G (clock s) (unat n)
        \<and> (\<forall>key \<in> set (plan_keys pre u p). covers hash deadline clock (G @ [(clock s, unat n)]) s' key))"
proof -
  let ?kl = "plan_keys pre u p" and ?now = "clock s"
  note arrays = plan_keys_arrays [OF wf, of pre u]
  from fetch_all_tidy [OF tidy] obtain ems where
    ems: "fetch_buckets cmds s (map fst ?kl) (map (\<lambda>(k, bs, R). int bs) ?kl) = Inr ems"
      "list_all2 (\<lambda>key. fetched_from (hash s (fst key))) ?kl ems" by blast
  obtain us where "cmd_time cmds s = Inr [show_nat ?now, us]" using time_law by blast
  then have now: "server_now cmds s = Inr (int ?now)" by (simp add: decimal_simps)
  note nth = plan_keys_nth [OF wf plan_wf_window(1) [OF wf], of _ pre u]
  define fits where "fits \<longleftrightarrow> (\<forall>w \<in> set (windows p). unat n + window_count (hash s (sender_key pre u (bucket_sizes p ! key_index w))) ?now
      (unat (bucket_sizes p ! key_index w)) (unat (span_secs w)) \<le> unat (limit w))"
  have "\<forall>w \<in> set (windows p). key_index w < length ?kl" by (simp add: arrays(4) plan_wf_window [OF wf])
  from check_windows_tidy [OF ems(2) this, of ?now "unat n"]
  have decide: "check_windows (int ?now) (uint n) (map uint (bucket_sizes p)) ems (map lua_window_of (windows p)) = Inr fits"
    by (simp add: arrays(2) nth fits_def)
  note run = check_and_record_def check_request_reads [OF codec wf fine] decode_check_request
  have em: "\<exists>em. fetched_from (hash s k) em" if key: "(k, bs, R) \<in> set ?kl" for k bs R
  proof -
    obtain i where i: "i < length ?kl" "?kl ! i = (k, bs, R)" using key by (auto simp: in_set_conv_nth)
    from list_all2_nthD [OF ems(2) i(1)] show ?thesis unfolding i(2) fst_conv by (rule exI)
  qed
  show ?thesis
  proof (cases fits)
    case False
    then have "check_and_record cmds codec (map (sender_key pre u) (bucket_sizes p))
        (to_text codec (check_request_json n None p)) s = (Inr 0, s)"
      using ems(1) now decide by (simp add: run arrays del: server_now.simps)
    then show ?thesis using tidy cov by simp
  next
    case True
    have keys: "tidy_key hash serves s k \<and> 0 < bs \<and> R + bs < 2 ^ 53 \<and> bucket_count (hash s k) (?now div bs) + unat n < 2 ^ 32"
      if key: "(k, bs, R) \<in> set ?kl" for k bs R
    proof -
      obtain w where w: "w \<in> set (windows p)" "bs = unat (bucket_sizes p ! key_index w)" "R = unat (span_secs w)" "0 < bs"
        "k = sender_key pre u (bucket_sizes p ! key_index w)"
        by (rule plan_key_window [OF wf key])
      note fine = plan_fine_window [OF fine w(1), folded w(2,3)]
      have "unat n + window_count (hash s k) ?now bs R \<le> unat (limit w)" using True w by (auto simp: fits_def)
      moreover have "unat (limit w) < 2 ^ 32" using unsigned_less [of "limit w", where ?'a = nat] by simp
      ultimately have "bucket_count (hash s k) (?now div bs) + unat n < 2 ^ 32"
        using em [OF key] bucket_count_room w(4) by blast
      then show ?thesis using tidy key w(4) fine(3,4) by auto
    qed
    have admits: "plan_admits p G ?now (unat n)"
      unfolding plan_admits_def window_admits_def
    proof
      fix w assume w: "w \<in> set (windows p)"
      let ?i = "key_index w"
      let ?key = "(sender_key pre u (bucket_sizes p ! ?i), unat (bucket_sizes p ! ?i), unat (retention_secs p ! ?i))"
      have in_kl: "?key \<in> set ?kl"
        using nth_mem [of ?i ?kl] plan_wf_window(1) [OF wf w] nth [OF w] arrays(4) by simp
      obtain em where "fetched_from (hash s (sender_key pre u (bucket_sizes p ! ?i))) em" using em [OF in_kl] by blast
      from covers_window [OF bspec [OF cov in_kl] plan_wf_window(2) [OF wf w] this]
      show "unat n + logged G (\<lambda>t. ?now < bucket_end (unat (bucket_sizes p ! ?i)) t + unat (span_secs w)) \<le> unat (limit w)"
        using True w by (fastforce simp: fits_def)
    qed
    have "\<forall>(k, bs, R) \<in> set ?kl. tidy_key hash serves s k \<and> 0 < bs \<and> R + bs < 2 ^ 53
        \<and> bucket_count (hash s k) (?now div bs) + unat n < 2 ^ 32" using keys by blast
    from record_keys_covers [OF ems(2) this cov plan_keys_distinct [OF wf] past] obtain r s' where
      s': "record_keys cmds (int ?now) (int (unat n)) (map fst ?kl) (map (\<lambda>(k, bs, R). int bs) ?kl)
          (map (\<lambda>(k, bs, R). int R) ?kl) ems s = (r, s')"
        "\<forall>key \<in> set ?kl. tidy_key hash serves s' (fst key)" "\<forall>key \<in> set ?kl. covers hash deadline clock G s' key"
        "r = Inr () \<longrightarrow> (\<forall>key \<in> set ?kl. covers hash deadline clock (G @ [(?now, unat n)]) s' key)"
        "clock s' = clock s" by blast
    have "check_and_record cmds codec (map (sender_key pre u) (bucket_sizes p))
        (to_text codec (check_request_json n None p)) s = (case r of Inl e \<Rightarrow> (Inl e, s') | Inr _ \<Rightarrow> (Inr 1, s'))"
      using True ems(1) now decide s'(1) by (simp add: run arrays del: server_now.simps)
    then show ?thesis using s'(2-5) admits by (cases r) auto
  qed
qed

lemma check_sasl_covers:
  assumes wf: "plan_wf p" and fine: "plan_fine p" and codec: "codec_ok codec"
    and tidy: "\<forall>key \<in> set (plan_keys pre u p). tidy_key hash serves s (fst key)"
    and cov: "\<forall>key \<in> set (plan_keys pre u p). covers hash deadline clock G s key"
    and past: "\<forall>(t, m) \<in> set G. t \<le> clock s"
    and check: "check_sasl cmds codec net pre u n p None s = (r, s')"
  shows "tidy_key hash serves s k \<Longrightarrow> tidy_key hash serves s' k" and "clock s' = clock s"
    and "\<forall>key \<in> set (plan_keys pre u p). covers hash deadline clock G s' key"
    and "r = Inr True \<Longrightarrow> plan_admits p G (clock s) (unat n)
      \<and> (\<forall>key \<in> set (plan_keys pre u p). covers hash deadline clock (G @ [(clock s, unat n)]) s' key)"
proof -
  let ?kl = "plan_keys pre u p"
  obtain q t where run: "check_and_record cmds codec (map (sender_key pre u) (bucket_sizes p))
        (to_text codec (check_request_json n None p)) s = (q, t)"
    and t: "\<forall>key \<in> set ?kl. tidy_key hash serves t (fst key)" "clock t = clock s"
      "\<forall>key \<in> set ?kl. covers hash deadline clock G t key"
      "q = Inr 1 \<longrightarrow> plan_admits p G (clock s) (unat n)
        \<and> (\<forall>key \<in> set ?kl. covers hash deadline clock (G @ [(clock s, unat n)]) t key)"
    using check_and_record_covers [OF wf fine codec tidy cov past, of n] by blast
  have tidy_t: "tidy_key hash serves t k'" if "tidy_key hash serves s k'" for k'
  proof (cases "k' \<in> set (map (sender_key pre u) (bucket_sizes p))")
    case True
    then show ?thesis using t(1) plan_keys_arrays(1) [OF wf, of pre u] by (metis image_iff list.set_map)
  next
    case False
    from check_and_record_frame [OF run this] show ?thesis using that by (simp add: same_key_def tidy_key_def)
  qed
  consider (none) "bucket_sizes p = []" "s' = s" | (lost) "s' = s" "r = Inl Transport_Error"
    | (ran) "s' = t" "r = Inr True \<longrightarrow> q = Inr 1"
    using check run by (cases net) (auto simp: check_sasl_def Let_def split: if_splits sum.splits)
  then have "(tidy_key hash serves s k \<longrightarrow> tidy_key hash serves s' k) \<and> clock s' = clock s
    \<and> (\<forall>key \<in> set ?kl. covers hash deadline clock G s' key)
    \<and> (r = Inr True \<longrightarrow> plan_admits p G (clock s) (unat n)
      \<and> (\<forall>key \<in> set ?kl. covers hash deadline clock (G @ [(clock s, unat n)]) s' key))"
  proof cases
    case none
    then have "windows p = []" using wf by (cases "windows p") (auto simp: plan_wf_def)
    with none show ?thesis by (simp add: plan_keys_def plan_admits_def)
  next
    case lost
    then show ?thesis using cov by simp
  next
    case ran
    then show ?thesis using t tidy_t by blast
  qed
  then show "tidy_key hash serves s k \<Longrightarrow> tidy_key hash serves s' k" "clock s' = clock s"
    "\<forall>key \<in> set ?kl. covers hash deadline clock G s' key"
    "r = Inr True \<Longrightarrow> plan_admits p G (clock s) (unat n)
      \<and> (\<forall>key \<in> set ?kl. covers hash deadline clock (G @ [(clock s, unat n)]) s' key)" by blast+
qed

text \<open>Another sender's check leaves a cover alone, and keeps every hash tidy.\<close>

lemma covers_other:
  assumes "check_sasl cmds codec net pre v n q None s = (r, s')" and "v \<noteq> u"
    and "covers hash deadline clock G s key" and "key \<in> set (plan_keys pre u p)"
  shows "covers hash deadline clock G s' key"
proof -
  obtain k bs R where key: "key = (k, bs, R)" by (cases key)
  obtain b where "k = sender_key pre u b" using assms(4) by (auto simp: plan_keys_def key)
  then show ?thesis using check_sasl_other [OF assms(1,2), of b] assms(3)
    by (simp add: key covers_def same_key_def)
qed

end

end
