(* ===== verification/Plan_Changes.thy ===== *)
theory Plan_Changes
  imports Tasks_Correct Coverage
begin

text \<open>
  Runs in which reloads change a sender's own plan, the key prefix or the policy. Nothing is known
  of the log that the new plan finds on the server, but that all hashes are tidy; from the moment
  at which the state and all checks in hand have the new plan, what the sender is granted keeps
  within its limits.
\<close>

section \<open>Tidy servers\<close>

definition tidy_server :: "('s \<Rightarrow> string \<Rightarrow> (string \<rightharpoonup> string)) \<Rightarrow> ('s \<Rightarrow> string \<Rightarrow> bool) \<Rightarrow> 's \<Rightarrow> bool" where
  "tidy_server hash serves s \<longleftrightarrow> (\<forall>k \<in> bucket_keys. tidy_key hash serves s k)"

definition tidy_tasks :: "('ci, 'rs, 're, 'e) platform \<Rightarrow> ('ci, 'rs, 'cn, 'ad, 'pr) client_lib \<Rightarrow>
    ('cn \<Rightarrow> 's server_cmds) \<Rightarrow> ('s \<Rightarrow> string \<Rightarrow> (string \<rightharpoonup> string)) \<Rightarrow> ('s \<Rightarrow> string \<Rightarrow> bool) \<Rightarrow>
    ('ci, 're, 'cn, 's, 'r) tasks \<Rightarrow> bool" where
  "tidy_tasks P C V hash serves x \<longleftrightarrow>
     tidy_server hash serves (server (shared x)) \<and> runtime_ok P C V (runtime (shared x)) \<and>
     (\<forall>i current req. busy x i = Some (Checking current req) \<longrightarrow> runtime_ok P C V current)"

lemma plan_key_tidy:
  "tidy_server hash serves s \<Longrightarrow> key \<in> set (plan_keys pre u p) \<Longrightarrow> tidy_key hash serves s (fst key) \<and> fst key \<in> bucket_keys"
  by (auto simp: plan_keys_def tidy_server_def)

lemma tidy_tasks_step:
  assumes servers: "\<And>cn. hash_server (V cn) hash deadline clock serves" and codec: "codec_ok codec"
    and step: "task_step P C V codec rd L path hash deadline clock serves x y" and ok: "tidy_tasks P C V hash serves x"
  shows "tidy_tasks P C V hash serves y"
proof -
  have tidy: "tidy_server hash serves (server (shared x))" and rt: "runtime_ok P C V (runtime (shared x))"
    and held: "\<And>i current req. busy x i = Some (Checking current req) \<Longrightarrow> runtime_ok P C V current"
    using ok by (auto simp: tidy_tasks_def)
  have "tidy_server hash serves (server (shared y))"
    using step
  proof (cases rule: task_step_effect)
    case quiet
    then show ?thesis using tidy tidy_key_idle by (fastforce simp: tidy_server_def)
  next
    case (decided net i current req)
    note plans = held [OF decided(1), unfolded runtime_ok_def, THEN conjunct1, rule_format]
    from decided(2) show ?thesis
    proof (cases rule: decide_cases)
      case untouched
      then show ?thesis using tidy by (simp add: tidy_server_def tidy_key_def)
    next
      case (checked v n r action)
      have "\<forall>key \<in> set (plan_keys (limiter_key_prefix (limiter_of_state current)) v (plan_for P (config_of_state current) v)).
          tidy_key hash serves (server (shared x)) (fst key)" using plan_key_tidy [OF tidy] by blast
      from hash_server.check_sasl_covers(1) [OF servers plans(1) [THEN conjunct1] plans(1) [THEN conjunct2] codec this _ _
          checked(1), of "[]"] tidy
      show ?thesis by (simp add: tidy_server_def)
    qed
  qed
  moreover have "runtime_ok P C V current" if "busy y i = Some (Checking current req)" for i current req
    using in_hand_step [OF step that] held rt by blast
  ultimately show ?thesis using task_runtime_ok [OF step rt] by (simp add: tidy_tasks_def)
qed

lemma tidy_tasks_steps:
  assumes "\<And>cn. hash_server (V cn) hash deadline clock serves" and "codec_ok codec"
    and "(task_step P C V codec rd L path hash deadline clock serves)\<^sup>*\<^sup>* x y" and "tidy_tasks P C V hash serves x"
  shows "tidy_tasks P C V hash serves y"
  using assms(3,4) by (induction rule: rtranclp_induct) (auto intro: tidy_tasks_step [OF assms(1,2)])

section \<open>Phases with one plan\<close>

definition keeps :: "('ci, 'rs, 're, 'e) platform \<Rightarrow> string \<Rightarrow> string \<Rightarrow> check_plan \<Rightarrow> ('ci, 're, 'cn) runtime_state \<Rightarrow> bool" where
  "keeps P pre u p state \<longleftrightarrow> plan_for P (config_of_state state) u = p \<and>
     limiter_key_prefix (limiter_of_state state) = pre \<and> on_redis_error (config_of_state state) = Defer"

definition all_keep :: "('ci, 'rs, 're, 'e) platform \<Rightarrow> string \<Rightarrow> string \<Rightarrow> check_plan \<Rightarrow>
    ('ci, 're, 'cn, 's, 'r) tasks \<Rightarrow> bool" where
  "all_keep P pre u p x \<longleftrightarrow> (\<forall>i current req. busy x i = Some (Checking current req) \<longrightarrow> keeps P pre u p current)"

text \<open>The answers from the \<open>i\<close>th on are admitted by the plan, and the server covers them.\<close>

definition phase_log :: "('s \<Rightarrow> string \<Rightarrow> (string \<rightharpoonup> string)) \<Rightarrow> ('s \<Rightarrow> string \<Rightarrow> nat option) \<Rightarrow> ('s \<Rightarrow> nat) \<Rightarrow>
    string \<Rightarrow> string \<Rightarrow> check_plan \<Rightarrow> log \<Rightarrow> 's \<Rightarrow> bool" where
  "phase_log hash deadline clock pre u p G s \<longleftrightarrow> sorted (map fst G) \<and> (\<forall>(t, n) \<in> set G. t \<le> clock s) \<and>
     admitted (plan_admits p) G \<and> (\<forall>key \<in> set (plan_keys pre u p). covers hash deadline clock G s key)"

lemma phase_log_idle:
  assumes "idle hash deadline clock serves bucket_keys s s'" and "tidy_server hash serves s"
    and "phase_log hash deadline clock pre u p G s"
  shows "phase_log hash deadline clock pre u p G s'"
proof -
  have "clock s \<le> clock s'" using assms(1) by (simp add: idle_def)
  moreover have "covers hash deadline clock G s' key" if key: "key \<in> set (plan_keys pre u p)" for key
  proof -
    obtain k bs R where k: "key = (k, bs, R)" by (cases key)
    have "serves s k" "k \<in> bucket_keys" using plan_key_tidy [OF assms(2) key] by (simp_all add: k tidy_key_def)
    then show ?thesis using covers_idle [OF assms(1)] assms(3) key by (simp add: k phase_log_def)
  qed
  ultimately show ?thesis using assms(3) by (fastforce simp: phase_log_def)
qed

lemma phase_log_check:
  assumes server: "hash_server cmds hash deadline clock serves" and codec: "codec_ok codec"
    and wf: "plan_wf p" and fine: "plan_fine p" and tidy: "tidy_server hash serves s"
    and check: "check_sasl cmds codec net pre v n q None s = (r, s')" and plan: "v = u \<Longrightarrow> q = p"
    and "phase_log hash deadline clock pre u p G s"
  shows "phase_log hash deadline clock pre u p (if v = u \<and> r = Inr True then G @ [(clock s, unat n)] else G) s'"
proof -
  have G: "sorted (map fst G)" "\<forall>(t, m) \<in> set G. t \<le> clock s" "admitted (plan_admits p) G"
    "\<forall>key \<in> set (plan_keys pre u p). covers hash deadline clock G s key"
    using assms(8) by (auto simp: phase_log_def)
  show ?thesis
  proof (cases "v = u")
    case True
    have "\<forall>key \<in> set (plan_keys pre u p). tidy_key hash serves s (fst key)" using plan_key_tidy [OF tidy] by blast
    note C = hash_server.check_sasl_covers [OF server wf fine codec this G(4,2) check [unfolded True plan [OF True]]]
    have "\<forall>(t, m) \<in> set G. t \<le> clock s'" using G(2) C(2) by simp
    then show ?thesis using G C(2-4) True by (auto simp: phase_log_def sorted_append)
  next
    case False
    from hash_server.check_sasl_other [OF server check False] have "clock s' = clock s" by (simp add: same_key_def)
    then show ?thesis using G hash_server.covers_other [OF server check False] False by (simp add: phase_log_def)
  qed
qed

lemma phase_step:
  assumes servers: "\<And>cn. hash_server (V cn) hash deadline clock serves" and codec: "codec_ok codec"
    and step: "task_step P C V codec rd L path hash deadline clock serves x y"
    and tidy: "tidy_tasks P C V hash serves x" and keep: "keeps P pre u p (runtime (shared x))" "all_keep P pre u p x"
    and phase: "m \<le> length (answers (shared x))"
      "phase_log hash deadline clock pre u p (granted u (drop m (answers (shared x)))) (server (shared x))"
  shows "all_keep P pre u p y" and "m \<le> length (answers (shared y))"
    and "phase_log hash deadline clock pre u p (granted u (drop m (answers (shared y)))) (server (shared y))"
proof -
  show "all_keep P pre u p y" using in_hand_step [OF step] keep by (fastforce simp: all_keep_def)
  have srv: "tidy_server hash serves (server (shared x))" using tidy by (simp add: tidy_tasks_def)
  have plan: "plan_wf p" "plan_fine p" using tidy keep(1) by (auto simp: tidy_tasks_def keeps_def runtime_ok_def)
  have "m \<le> length (answers (shared y)) \<and>
    phase_log hash deadline clock pre u p (granted u (drop m (answers (shared y)))) (server (shared y))"
    using step
  proof (cases rule: task_step_effect)
    case quiet
    then show ?thesis using phase phase_log_idle [OF _ srv] by simp
  next
    case (decided net i current req)
    have held: "keeps P pre u p current" using keep(2) decided(1) by (auto simp: all_keep_def)
    from decided(2) show ?thesis
    proof (cases rule: decide_cases)
      case untouched
      then show ?thesis using phase by simp
    next
      case (checked v n r action)
      have dunno: "action = ACTION_DUNNO \<longleftrightarrow> r = Inr True"
        using checked(3) held by (auto simp: keeps_def ACTION_DUNNO_def ACTION_RATE_LIMITED_def
          ACTION_SERVICE_UNAVAILABLE_def split: sum.splits bool.splits)
      have "limiter_key_prefix (limiter_of_state current) = pre" "v = u \<Longrightarrow> plan_for P (config_of_state current) v = p"
        using held by (simp_all add: keeps_def)
      from phase_log_check [OF servers codec plan srv checked(1) [unfolded this(1)] this(2) phase(2)]
      show ?thesis using phase(1) by (cases "v = u \<and> r = Inr True") (auto simp: checked(2) dunno)
    qed
  qed
  then show "m \<le> length (answers (shared y))"
    "phase_log hash deadline clock pre u p (granted u (drop m (answers (shared y)))) (server (shared y))" by auto
qed

lemma phase_run:
  assumes servers: "\<And>cn. hash_server (V cn) hash deadline clock serves" and codec: "codec_ok codec"
    and run: "run_within (task_step P C V codec rd L path hash deadline clock serves)
      (\<lambda>x. keeps P pre u p (runtime (shared x))) x y"
    and tidy: "tidy_tasks P C V hash serves x" and keep: "all_keep P pre u p x"
  shows "phase_log hash deadline clock pre u p (granted u (drop (length (answers (shared x))) (answers (shared y))))
    (server (shared y))"
proof -
  let ?m = "length (answers (shared x))"
  let ?inv = "\<lambda>z. tidy_tasks P C V hash serves z \<and> all_keep P pre u p z \<and> ?m \<le> length (answers (shared z)) \<and>
    phase_log hash deadline clock pre u p (granted u (drop ?m (answers (shared z)))) (server (shared z))"
  have "?inv y"
  proof (rule run_within_invariant [OF run, where Inv = ?inv])
    show "?inv x" using tidy keep by (simp add: phase_log_def granted_def)
    fix y z assume step: "task_step P C V codec rd L path hash deadline clock serves y z"
      and keep: "keeps P pre u p (runtime (shared y))" and inv: "?inv y"
    then have tidy: "tidy_tasks P C V hash serves y" by blast
    with inv show "?inv z" using phase_step [OF servers codec step tidy keep] tidy_tasks_step [OF servers codec step tidy]
      by blast
  qed
  then show ?thesis by blast
qed

lemma phase_within:
  assumes "phase_log hash deadline clock pre u p G s" and wf: "plan_wf p" and w: "w \<in> set (windows p)"
  shows "logged G (\<lambda>t. t \<le> \<tau> \<and> \<tau> < t + unat (span_secs w)) \<le> unat (limit w)"
proof (rule sliding_log.window_never_exceeded [OF plan_window_contract [OF wf w]])
  show "admitted (window_admits (unat (bucket_sizes p ! key_index w)) (unat (span_secs w)) (unat (limit w))) G"
    using assms(1) admitted_mono [OF plan_admits_window [OF _ w]] by (auto simp: phase_log_def)
  show "sorted (map fst G)" using assms(1) by (simp add: phase_log_def)
qed

end
