(* ===== verification/Hangup.thy ===== *)
theory Hangup
  imports Tasks_Correct
begin

text \<open>
  The daemon and its SIGHUP worker together: the tasks, the two threads of the reload, and the
  files that someone edits meanwhile. Here the state is swapped by the worker alone, once per
  pass, and what it loads is what the files held at some moments of that pass. Every such run is
  a run of the tasks and a run of the worker.
\<close>

section \<open>State and steps\<close>

text \<open>
  \<open>disk\<close> is what reading a path gives now. A pass reads several files, at different times:
  \<open>disks\<close> has all that the disk was since the current pass began.
\<close>

record ('ci, 're, 'cn, 's, 'r, 'e) system =
  live :: "('ci, 're, 'cn, 's, 'r) tasks"
  worker :: reload_sys
  disk :: "path \<Rightarrow> 'e + string"
  disks :: "(path \<Rightarrow> 'e + string) set"

definition system_boot :: "('ci, 're, 'cn, 's, 'r) tasks \<Rightarrow> (path \<Rightarrow> 'e + string) \<Rightarrow>
    ('ci, 're, 'cn, 's, 'r, 'e) system" where
  "system_boot x D = \<lparr>live = x, worker = reload_init, disk = D, disks = {}\<rparr>"

text \<open>
  The signal is handled by the accept loop, between its other steps; the worker runs until
  \<open>main\<close> returns. A step of either thread other than the reload itself is one of
  \<open>reload_step\<close>; the first step of a pass, \<open>load_generation\<close>, starts its view of the disk anew.
\<close>

inductive system_step ::
    "('ci, 'rs, 're, 'e) platform \<Rightarrow> ('ci, 'rs, 'cn, 'ad, 'pr) client_lib \<Rightarrow> ('cn \<Rightarrow> 's server_cmds) \<Rightarrow>
     'txt json_text \<Rightarrow> 'r line_source \<Rightarrow> 'id rpc_lib \<Rightarrow> path \<Rightarrow>
     ('s \<Rightarrow> string \<Rightarrow> (string \<rightharpoonup> string)) \<Rightarrow> ('s \<Rightarrow> string \<Rightarrow> nat option) \<Rightarrow> ('s \<Rightarrow> nat) \<Rightarrow> ('s \<Rightarrow> string \<Rightarrow> bool) \<Rightarrow>
     ('ci, 're, 'cn, 's, 'r, 'e) system \<Rightarrow> ('ci, 're, 'cn, 's, 'r, 'e) system \<Rightarrow> bool"
  for P C V codec read_line L path hash deadline clock serves where
  edited: "system_step P C V codec read_line L path hash deadline clock serves x
      (x\<lparr>disk := D, disks := insert D (disks x)\<rparr>)"
| lives: "task_step P C V codec read_line L path hash deadline clock serves (live x) y \<Longrightarrow>
    runtime (shared y) = runtime (shared (live x)) \<Longrightarrow>
    main_at (worker x) = Bumped \<longrightarrow> phase y = phase (live x) \<Longrightarrow>
    system_step P C V codec read_line L path hash deadline clock serves x (x\<lparr>live := y\<rparr>)"
| sighup: "phase (live x) = Accepting \<Longrightarrow> reload_step (worker x) w \<Longrightarrow> sent w = sent (worker x) + 1 \<Longrightarrow>
    system_step P C V codec read_line L path hash deadline clock serves x (x\<lparr>worker := w\<rparr>)"
| works: "phase (live x) \<in> {Accepting, Draining} \<Longrightarrow> reload_step (worker x) w \<Longrightarrow> sent w = sent (worker x) \<Longrightarrow>
    served w = served (worker x) \<Longrightarrow> worker_at w = worker_at (worker x) \<or> (\<forall>g. worker_at (worker x) \<noteq> Loading g) \<Longrightarrow>
    system_step P C V codec read_line L path hash deadline clock serves x
      (x\<lparr>worker := w, disks := (if worker_at (worker x) = Loop_Top \<and> worker_at w \<noteq> Loop_Top then {disk x} else disks x)\<rparr>)"
| reloads: "phase (live x) \<in> {Accepting, Draining} \<Longrightarrow> worker_at (worker x) = Loading g \<Longrightarrow>
    (\<forall>p. \<exists>D \<in> disks x. files p = D p) \<Longrightarrow> dials C dial \<Longrightarrow>
    reload_config (P\<lparr>read_to_string := files\<rparr>) (C\<lparr>open_manager := dial\<rparr>) V (server (shared (live x))) path
      (runtime (shared (live x))) = Some (err, state') \<Longrightarrow>
    system_step P C V codec read_line L path hash deadline clock serves x
      (x\<lparr>live := (live x)\<lparr>shared := (shared (live x))\<lparr>runtime := state'\<rparr>\<rparr>,
         worker := (worker x)\<lparr>worker_at := Comparing g, served := seen (worker x)\<rparr>\<rparr>)"

section \<open>The two projections\<close>

lemma system_step_live:
  assumes "system_step P C V codec rd L path hash deadline clock serves x y"
  shows "live y = live x \<or> task_step P C V codec rd L path hash deadline clock serves (live x) (live y)"
  using assms
proof cases
  case (reloads g files dial err state')
  have "task_step P C V codec rd L path hash deadline clock serves (live x)
      ((live x)\<lparr>shared := (shared (live x))\<lparr>runtime := state'\<rparr>\<rparr>)"
    by (rule task_step.background [OF reloads(2) background_step.swap [OF reloads(5,6)]])
  then show ?thesis using reloads(1) by simp
qed auto

lemma system_live:
  "(system_step P C V codec rd L path hash deadline clock serves)\<^sup>*\<^sup>* x y \<Longrightarrow>
    (task_step P C V codec rd L path hash deadline clock serves)\<^sup>*\<^sup>* (live x) (live y)"
proof (induction rule: rtranclp_induct)
  case (step y z)
  from system_step_live [OF step(2)] step(3) show ?case
    by (auto intro: rtranclp.rtrancl_into_rtrancl)
qed simp

lemma system_step_worker:
  assumes "system_step P C V codec rd L path hash deadline clock serves x y"
  shows "worker y = worker x \<or> reload_step (worker x) (worker y)"
  using assms by cases (auto intro: reload_step.reloaded)

lemma system_worker:
  "(system_step P C V codec rd L path hash deadline clock serves)\<^sup>*\<^sup>* x y \<Longrightarrow>
    reload_step\<^sup>*\<^sup>* (worker x) (worker y)"
proof (induction rule: rtranclp_induct)
  case (step y z)
  from system_step_worker [OF step(2)] step(3) show ?case
    by (auto intro: rtranclp.rtrancl_into_rtrancl)
qed simp

section \<open>The config in force\<close>

text \<open>The state is what a reload made of the files \<open>D\<close>: their config, or the state that it kept
  when it reported an error.\<close>

definition reload_outcome :: "('ci, 'rs, 're, 'e) platform \<Rightarrow> ('ci, 'rs, 'cn, 'ad, 'pr) client_lib \<Rightarrow>
    ('cn \<Rightarrow> 's server_cmds) \<Rightarrow> path \<Rightarrow> (path \<Rightarrow> 'e + string) \<Rightarrow> ('ci, 're, 'cn) runtime_state \<Rightarrow> bool" where
  "reload_outcome P C V path D state \<longleftrightarrow>
     config_load (P\<lparr>read_to_string := D\<rparr>) path = Some (Inr (config_of_state state)) \<or>
     (\<exists>dial s e. dials C dial \<and>
        reload_config (P\<lparr>read_to_string := D\<rparr>) (C\<lparr>open_manager := dial\<rparr>) V s path state = Some (Some e, state))"

lemma reload_has_outcome:
  assumes dial: "dials C dial"
    and reload: "reload_config (P\<lparr>read_to_string := D\<rparr>) (C\<lparr>open_manager := dial\<rparr>) V s path state = Some (err, state')"
  shows "reload_outcome P C V path D state'"
  using reload
proof (cases rule: reload_config_cases)
  case (1 e)
  then show ?thesis using dial reload by (auto simp: reload_outcome_def)
qed (simp add: reload_outcome_def)

definition hangup_inv :: "('ci, 'rs, 're, 'e) platform \<Rightarrow> ('ci, 'rs, 'cn, 'ad, 'pr) client_lib \<Rightarrow>
    ('cn \<Rightarrow> 's server_cmds) \<Rightarrow> path \<Rightarrow> (path \<Rightarrow> 'e + string) \<Rightarrow> nat \<Rightarrow> ('ci, 're, 'cn, 's, 'r, 'e) system \<Rightarrow> bool" where
  "hangup_inv P C V path D n x \<longleftrightarrow>
     reload_inv (worker x) \<and> disk x = D \<and> (n < seen (worker x) \<longrightarrow> disks x = {D}) \<and>
     (n < served (worker x) \<longrightarrow> reload_outcome P C V path D (runtime (shared (live x))))"

lemma hangup_inv_start:
  "reload_inv (worker x) \<Longrightarrow> disk x = D \<Longrightarrow> hangup_inv P C V path D (sent (worker x)) x"
  by (auto simp: hangup_inv_def reload_inv_def)

text \<open>Only the first step of a pass reads the number of signals.\<close>

lemma seen_step:
  assumes "reload_step x y"
  shows "seen y = seen x \<or> worker_at x = Loop_Top \<and> worker_at y \<noteq> Loop_Top"
  using assms by cases auto

lemma hangup_inv_step:
  assumes step: "system_step P C V codec rd L path hash deadline clock serves x y"
    and inv: "hangup_inv P C V path D n x" and disk: "disk y = D" and few: "sent (worker y) < 2 ^ 64"
  shows "hangup_inv P C V path D n y"
proof -
  have x: "reload_inv (worker x)" "disk x = D" "n < seen (worker x) \<Longrightarrow> disks x = {D}"
    "n < served (worker x) \<Longrightarrow> reload_outcome P C V path D (runtime (shared (live x)))"
    using inv by (auto simp: hangup_inv_def)
  have y: "reload_inv (worker y)" using system_step_worker [OF step] reload_inv_step [OF _ x(1) few] x(1) by auto
  from step have "(n < seen (worker y) \<longrightarrow> disks y = {D}) \<and>
      (n < served (worker y) \<longrightarrow> reload_outcome P C V path D (runtime (shared (live y))))"
  proof cases
    case (edited D')
    then show ?thesis using x disk by auto
  next
    case (lives y')
    then show ?thesis using x by simp
  next
    case (sighup w)
    from sighup(3,4) have "seen w = seen (worker x) \<and> served w = served (worker x)" by cases auto
    then show ?thesis using sighup x by simp
  next
    case (works w)
    then show ?thesis using x seen_step [OF works(3)] by auto
  next
    case (reloads g files dial err state')
    show ?thesis
    proof (cases "n < seen (worker x)")
      case True
      then have "files = D" using reloads(4) x(3) by auto
      with reload_has_outcome [OF reloads(5,6)] have "reload_outcome P C V path D state'" by simp
      then show ?thesis using reloads(1) x(3) True by simp
    qed (simp add: reloads(1))
  qed
  then show ?thesis using y disk by (simp add: hangup_inv_def)
qed

lemma hangup_inv_run:
  assumes run: "run_within (system_step P C V codec rd L path hash deadline clock serves) (\<lambda>x. disk x = D) x y"
    and inv: "reload_inv (worker x)" and few: "sent (worker y) < 2 ^ 64"
  shows "hangup_inv P C V path D (sent (worker x)) y"
  using run few inv
proof (induction rule: run_within.induct)
  case (stays x)
  then show ?case using hangup_inv_start by blast
next
  case (moves x y z)
  have "sent (worker y) \<le> sent (worker z)"
    using system_step_worker [OF moves(2)] reload_sent_mono by auto
  then show ?case using moves hangup_inv_step [OF moves(2)] by simp
qed

lemma hangup_takes_effect:
  assumes run: "run_within (system_step P C V codec rd L path hash deadline clock serves) (\<lambda>x. disk x = D) x y"
    and inv: "reload_inv (worker x)" and few: "sent (worker y) < 2 ^ 64"
    and signal: "sent (worker x) < sent (worker y)" and rest: "at_rest (worker y)" "\<not> missed (worker y)"
  shows "reload_outcome P C V path D (runtime (shared (live y)))"
proof -
  have "hangup_inv P C V path D (sent (worker x)) y" by (rule hangup_inv_run [OF run inv few])
  moreover from this have "served (worker y) = sent (worker y)"
    using rest by (simp add: hangup_inv_def reload_inv_def at_rest_def)
  ultimately show ?thesis using signal by (simp add: hangup_inv_def)
qed

section \<open>Coming to rest\<close>

lemma at_rest_stays: "at_rest x \<Longrightarrow> reload_step x y \<Longrightarrow> sent y = sent x \<Longrightarrow> at_rest y"
  by (erule reload_step.cases) (auto simp: at_rest_def)

lemma system_work:
  assumes "system_step P C V codec rd L path hash deadline clock serves x y" and "sent (worker y) = sent (worker x)"
  shows "worker y = worker x \<or> reload_work (worker y) < reload_work (worker x)"
  using system_step_worker [OF assms(1)] reload_work_decreases assms(2) by blast

text \<open>
  Without further signals, and when the two threads get to run again and again while they have
  something to do, they come to rest, whatever else the daemon does.
\<close>

lemma hangups_come_to_rest:
  assumes steps: "\<And>i. system_step P C V codec rd L path hash deadline clock serves (f i) (f (Suc i))"
    and quiet: "\<And>i. sent (worker (f (Suc i))) = sent (worker (f i))"
    and fair: "\<And>i. \<exists>j \<ge> i. worker (f (Suc j)) \<noteq> worker (f j) \<or> at_rest (worker (f j))"
  obtains n where "\<And>i. n \<le> i \<Longrightarrow> at_rest (worker (f i))"
proof -
  have mono: "reload_work (worker (f j)) \<le> reload_work (worker (f i))" if "i \<le> j" for i j
    using that
  proof (induction j rule: dec_induct)
    case (step j)
    then show ?case using system_work [OF steps [of j] quiet [of j]] by auto
  qed simp
  have "\<exists>n. at_rest (worker (f n))"
  proof (rule ccontr)
    assume never: "\<nexists>n. at_rest (worker (f n))"
    have "\<exists>i. reload_work (worker (f i)) + k \<le> reload_work (worker (f 0))" for k
    proof (induction k)
      case (Suc k)
      then obtain i where i: "reload_work (worker (f i)) + k \<le> reload_work (worker (f 0))" by blast
      from fair [of i] never obtain j where "i \<le> j" "worker (f (Suc j)) \<noteq> worker (f j)" by blast
      then have "reload_work (worker (f (Suc j))) < reload_work (worker (f i))"
        using system_work [OF steps [of j] quiet [of j]] mono [of i j] by auto
      with i show ?case by (intro exI [of _ "Suc j"]) simp
    qed auto
    from this [of "Suc (reload_work (worker (f 0)))"] show False by simp
  qed
  then obtain n where n: "at_rest (worker (f n))" by blast
  have "at_rest (worker (f i))" if "n \<le> i" for i
    using that
  proof (induction i rule: dec_induct)
    case (step i)
    then show ?case using system_step_worker [OF steps [of i]] at_rest_stays quiet [of i] by metis
  qed (rule n)
  then show thesis by (rule that)
qed

text \<open>And until then they can always run.\<close>

definition disks_known :: "('ci, 're, 'cn, 's, 'r, 'e) system \<Rightarrow> bool" where
  "disks_known x \<longleftrightarrow> ((\<exists>g. worker_at (worker x) = Loading g) \<longrightarrow> disks x \<noteq> {})"

lemma disks_known_step:
  assumes "system_step P C V codec rd L path hash deadline clock serves x y" and "disks_known x"
  shows "disks_known y"
  using assms(1)
proof cases
  case (sighup w)
  from sighup(3,4) have "worker_at w = worker_at (worker x)" by cases auto
  then show ?thesis using sighup assms(2) by (simp add: disks_known_def)
next
  case (works w)
  from works(3) have "worker_at w = Loading g \<Longrightarrow> worker_at (worker x) = Loading g \<or> worker_at (worker x) = Loop_Top" for g
    by cases auto
  then show ?thesis using works assms(2) by (auto simp: disks_known_def)
qed (use assms(2) in \<open>auto simp: disks_known_def\<close>)

lemma hangups_not_stuck:
  assumes inv: "reload_inv (worker x)" and known: "disks_known x" and running: "phase (live x) \<in> {Accepting, Draining}"
    and busy: "\<not> at_rest (worker x)"
  obtains y where "system_step P C V codec rd L path hash deadline clock serves x y" and "worker y \<noteq> worker x"
    and "sent (worker y) = sent (worker x)" and "disk y = disk x" and "phase (live y) = phase (live x)"
proof (cases "\<exists>g. worker_at (worker x) = Loading g")
  case True
  then obtain g where g: "worker_at (worker x) = Loading g" by blast
  with known obtain D where D: "D \<in> disks x" by (auto simp: disks_known_def)
  obtain err state' where r: "reload_config (P\<lparr>read_to_string := D\<rparr>) (C\<lparr>open_manager := open_manager C\<rparr>) V
      (server (shared (live x))) path (runtime (shared (live x))) = Some (err, state')"
    using reload_config_returns [of "P\<lparr>read_to_string := D\<rparr>" "C\<lparr>open_manager := open_manager C\<rparr>" V
      "server (shared (live x))" path "runtime (shared (live x))"] by (elim exE)
  have "worker x \<noteq> (worker x)\<lparr>worker_at := Comparing g, served := seen (worker x)\<rparr>"
  proof
    assume "worker x = (worker x)\<lparr>worker_at := Comparing g, served := seen (worker x)\<rparr>"
    from arg_cong [OF this, of worker_at] show False by (simp add: g)
  qed
  with D show thesis by (intro that [OF system_step.reloads [OF running g _ dials_always r]]) auto
next
  case False
  obtain w where w: "reload_step (worker x) w" "sent w = sent (worker x)"
    using reload_not_stuck [OF inv busy] by blast
  then have "w \<noteq> worker x" using reload_work_decreases by fastforce
  moreover have "served w = served (worker x)" using w(1) False by cases auto
  ultimately show thesis
    by (intro that [OF system_step.works [OF running w]]) (use False w(2) in auto)
qed

text \<open>What every reachable state has.\<close>

lemma system_reachable:
  assumes "(system_step P C V codec rd L path hash deadline clock serves)\<^sup>*\<^sup>* (system_boot x D) y"
    and "sent (worker y) < 2 ^ 64"
  shows "reload_inv (worker y)" and "disks_known y"
proof -
  show "reload_inv (worker y)"
    using system_worker [OF assms(1)] reload_inv_reachable assms(2) by (simp add: system_boot_def)
  show "disks_known y" using assms(1)
  proof (induction rule: rtranclp_induct)
    case base
    show ?case by (simp add: disks_known_def system_boot_def reload_init_def)
  next
    case (step y z)
    then show ?case by (blast intro: disks_known_step)
  qed
qed

text \<open>\<open>reload_can_move x\<close>: one of the two threads has a step of the reload to take.\<close>

definition reload_can_move ::
    "('ci, 'rs, 're, 'e) platform \<Rightarrow> ('ci, 'rs, 'cn, 'ad, 'pr) client_lib \<Rightarrow> ('cn \<Rightarrow> 's server_cmds) \<Rightarrow>
     'txt json_text \<Rightarrow> 'r line_source \<Rightarrow> 'id rpc_lib \<Rightarrow> path \<Rightarrow>
     ('s \<Rightarrow> string \<Rightarrow> (string \<rightharpoonup> string)) \<Rightarrow> ('s \<Rightarrow> string \<Rightarrow> nat option) \<Rightarrow> ('s \<Rightarrow> nat) \<Rightarrow> ('s \<Rightarrow> string \<Rightarrow> bool) \<Rightarrow>
     ('ci, 're, 'cn, 's, 'r, 'e) system \<Rightarrow> bool" where
  "reload_can_move P C V codec read_line L path hash deadline clock serves x \<longleftrightarrow>
     (\<exists>y. system_step P C V codec read_line L path hash deadline clock serves x y \<and> worker y \<noteq> worker x
        \<and> sent (worker y) = sent (worker x))"

lemma fair_hangups_come_to_rest:
  assumes start: "(system_step P C V codec rd L path hash deadline clock serves)\<^sup>*\<^sup>* (system_boot x D) (f 0)"
      "sent (worker (f 0)) < 2 ^ 64"
    and steps: "\<And>i. system_step P C V codec rd L path hash deadline clock serves (f i) (f (Suc i))"
    and quiet: "\<And>i. sent (worker (f (Suc i))) = sent (worker (f i))"
    and running: "\<And>i. phase (live (f i)) \<in> {Accepting, Draining}"
    and fair: "\<And>i. \<exists>j \<ge> i. worker (f (Suc j)) \<noteq> worker (f j)
      \<or> \<not> reload_can_move P C V codec rd L path hash deadline clock serves (f j)"
  obtains n where "\<And>i. n \<le> i \<Longrightarrow> at_rest (worker (f i))"
proof -
  have few: "sent (worker (f i)) < 2 ^ 64" for i using start(2) by (induction i) (simp_all add: quiet)
  have reach: "(system_step P C V codec rd L path hash deadline clock serves)\<^sup>*\<^sup>* (system_boot x D) (f i)" for i
  proof (induction i)
    case (Suc i)
    then show ?case using steps [of i] by (rule rtranclp.rtrancl_into_rtrancl)
  qed (rule start(1))
  have "at_rest (worker (f i))" if "\<not> reload_can_move P C V codec rd L path hash deadline clock serves (f i)" for i
  proof (rule ccontr)
    assume "\<not> at_rest (worker (f i))"
    then obtain y where "system_step P C V codec rd L path hash deadline clock serves (f i) y"
      "worker y \<noteq> worker (f i)" "sent (worker y) = sent (worker (f i))"
      by (rule hangups_not_stuck [OF system_reachable [OF reach few] running])
    then show False using that by (auto simp: reload_can_move_def)
  qed
  with fair have rest: "\<exists>j \<ge> i. worker (f (Suc j)) \<noteq> worker (f j) \<or> at_rest (worker (f j))" for i by meson
  from hangups_come_to_rest [OF steps quiet rest] that show thesis by blast
qed

section \<open>One signal, and one that comes too late\<close>

text \<open>A worker that starts, loads what is on the disk and finds no further signal.\<close>

lemma one_pass:
  assumes "worker x = reload_init" and "phase (live x) = Accepting" and "dials C dial"
    and "reload_config (P\<lparr>read_to_string := disk x\<rparr>) (C\<lparr>open_manager := dial\<rparr>) V (server (shared (live x))) path
      (runtime (shared (live x))) = Some (err, state')"
  shows "run_within (system_step P C V codec rd L path hash deadline clock serves) (\<lambda>z. disk z = disk x) x
    (x\<lparr>live := (live x)\<lparr>shared := (shared (live x))\<lparr>runtime := state'\<rparr>\<rparr>, worker := worker_leaving, disks := {disk x}\<rparr>)"
    (is "run_within ?step ?Q x ?z")
proof -
  define a where "a = x\<lparr>worker := reload_init\<lparr>reload_requests := 1, sent := 1, main_at := Bumped\<rparr>\<rparr>"
  define b where "b = a\<lparr>worker := (worker a)\<lparr>reload_in_progress := True, main_at := Waiting, worker_at := Loop_Top\<rparr>\<rparr>"
  define c where "c = b\<lparr>worker := (worker b)\<lparr>worker_at := Loading 1, seen := 1\<rparr>, disks := {disk x}\<rparr>"
  define d where "d = c\<lparr>live := (live x)\<lparr>shared := (shared (live x))\<lparr>runtime := state'\<rparr>\<rparr>,
    worker := (worker c)\<lparr>worker_at := Comparing 1, served := 1\<rparr>\<rparr>"
  note states = d_def c_def b_def a_def reload_init_def
  have s1: "?step x a"
    unfolding a_def using hangup [of "worker x"] assms(1,2)
    by (intro system_step.sighup) (simp_all add: reload_init_def)
  have s2: "?step a b"
    using system_step.works [of a "worker b"] spawn [of "worker a"] assms(2) by (simp add: states)
  have s3: "?step b c"
    using system_step.works [of b "worker c"] load_generation [of "worker b"] assms(2) by (simp add: states)
  have s4: "?step c d"
    using system_step.reloads [of c 1 "disk x" C dial P V path err state'] assms by (simp add: states)
  have s5: "?step d ?z"
    using system_step.works [of d worker_leaving] break_out [of "worker d" 1] assms(2)
    by (simp add: states worker_leaving_def one_served_def)
  have q: "disk a = disk x" "disk b = disk x" "disk c = disk x" "disk d = disk x" by (simp_all add: states)
  have r0: "run_within ?step ?Q x x" by (rule run_within.stays) simp
  have r1: "run_within ?step ?Q x a" by (rule run_within.moves [OF r0 s1]) (simp_all add: q)
  have r2: "run_within ?step ?Q x b" by (rule run_within.moves [OF r1 s2]) (simp_all add: q)
  have r3: "run_within ?step ?Q x c" by (rule run_within.moves [OF r2 s3]) (simp_all add: q)
  have r4: "run_within ?step ?Q x d" by (rule run_within.moves [OF r3 s4]) (simp_all add: q)
  show ?thesis by (rule run_within.moves [OF r4 s5]) (simp_all add: q)
qed

lemma pass_ends:
  assumes "worker x = worker_leaving" and "phase (live x) = Accepting"
  shows "run_within (system_step P C V codec rd L path hash deadline clock serves) (\<lambda>z. disk z = disk x) x
    (x\<lparr>worker := one_served\<rparr>)" (is "run_within ?step ?Q x ?z")
proof -
  have s1: "?step x ?z"
    using system_step.works [of x one_served] clear_flag [of worker_leaving] assms
    by (simp add: worker_leaving_def one_served_def)
  have r0: "run_within ?step ?Q x x" by (rule run_within.stays) simp
  show ?thesis by (rule run_within.moves [OF r0 s1]) simp_all
qed

text \<open>A signal that is handled while the worker is leaving is counted, and nothing else happens.\<close>

lemma late_signal:
  assumes "worker x = worker_leaving" and "phase (live x) = Accepting"
  shows "run_within (system_step P C V codec rd L path hash deadline clock serves) (\<lambda>z. disk z = disk x) x
    (x\<lparr>worker := one_missed\<rparr>)" (is "run_within ?step ?Q x ?z")
proof -
  define a where "a = x\<lparr>worker := worker_leaving\<lparr>reload_requests := 2, sent := 2, main_at := Bumped\<rparr>\<rparr>"
  define b where "b = a\<lparr>worker := (worker a)\<lparr>main_at := Waiting, missed := True\<rparr>\<rparr>"
  note states = b_def a_def worker_leaving_def one_served_def one_missed_def
  have s1: "?step x a"
    unfolding a_def using hangup [of worker_leaving] assms
    by (intro system_step.sighup) (simp_all add: worker_leaving_def one_served_def numeral_2_eq_2)
  have s2: "?step a b"
    using system_step.works [of a "worker b"] leave_to_worker [of "worker a"] assms(2) by (simp add: states)
  have s3: "?step b ?z"
    using system_step.works [of b one_missed] clear_flag [of "worker b"] assms(2) by (simp add: states)
  have q: "disk a = disk x" "disk b = disk x" by (simp_all add: states)
  have r0: "run_within ?step ?Q x x" by (rule run_within.stays) simp
  have r1: "run_within ?step ?Q x a" by (rule run_within.moves [OF r0 s1]) (simp_all add: q)
  have r2: "run_within ?step ?Q x b" by (rule run_within.moves [OF r1 s2]) (simp_all add: q)
  show ?thesis by (rule run_within.moves [OF r2 s3]) (simp_all add: q)
qed

end
