(* ===== verification/Progress.thy ===== *)
theory Progress
  imports Tasks_Correct
begin

text \<open>
  Every request that a task has read is decided, with the state that was loaded when it had been
  read, and its answer is written or found impossible to write - as long as the task gets to run and \<open>main\<close>
  does not return before.
\<close>

section \<open>The steps of one connection\<close>

lemma checking_step:
  assumes "task_step P C V codec rd L path hash deadline clock serves x y"
    and "busy x i = Some (Checking current req)" and "busy y i \<noteq> busy x i"
  obtains net where "y = decide P V codec clock net i current req x"
  using assms(1)
proof cases
  case (reads j r)
  from reads(4) show thesis
    by (cases rule: read_step_cases) (use assms(2,3) reads(3) in \<open>auto split: if_splits\<close>)
next
  case (decides j current' req' net)
  have "j = i" using decides(1) assms(3) by (auto simp: decide_def Let_def split: prod.splits if_splits)
  then show thesis using decides that assms(2) by simp
next
  case (replies j action fails)
  then show thesis using assms(2,3) by (auto split: if_splits)
qed (use assms(3) in auto)

lemma replying_step:
  assumes "task_step P C V codec rd L path hash deadline clock serves x y"
    and "busy x i = Some (Replying action)" and "busy y i \<noteq> busy x i"
  obtains fails where "y = reply fails i x"
  using assms(1)
proof cases
  case (reads j r)
  from reads(4) show thesis
    by (cases rule: read_step_cases) (use assms(2,3) reads(3) in \<open>auto split: if_splits\<close>)
next
  case (decides j current' req' net)
  then show thesis using assms(2,3) by (auto simp: decide_def Let_def split: prod.splits if_splits)
next
  case (replies j action' fails)
  have "j = i" using replies(1) assms(3) by (auto split: if_splits)
  then show thesis using replies that by simp
qed (use assms(3) in auto)

text \<open>\<open>connection_can_move\<close>: the task of the connection can go on with the request in hand.\<close>

definition connection_can_move ::
    "('ci, 'rs, 're, 'e) platform \<Rightarrow> ('ci, 'rs, 'cn, 'ad, 'pr) client_lib \<Rightarrow> ('cn \<Rightarrow> 's server_cmds) \<Rightarrow>
     'txt json_text \<Rightarrow> 'r line_source \<Rightarrow> 'id rpc_lib \<Rightarrow> path \<Rightarrow>
     ('s \<Rightarrow> string \<Rightarrow> (string \<rightharpoonup> string)) \<Rightarrow> ('s \<Rightarrow> string \<Rightarrow> nat option) \<Rightarrow> ('s \<Rightarrow> nat) \<Rightarrow> ('s \<Rightarrow> string \<Rightarrow> bool) \<Rightarrow>
     nat \<Rightarrow> ('ci, 're, 'cn, 's, 'r) tasks \<Rightarrow> bool" where
  "connection_can_move P C V codec read_line L path hash deadline clock serves i x \<longleftrightarrow>
     (\<exists>y. task_step P C V codec read_line L path hash deadline clock serves x y \<and> busy y i \<noteq> busy x i)"

lemma in_hand_can_move:
  assumes "phase x \<in> {Accepting, Draining}" and "busy x i \<noteq> None"
  shows "connection_can_move P C V codec rd L path hash deadline clock serves i x"
proof (cases "busy x i")
  case (Some a)
  show ?thesis
  proof (cases a)
    case (Checking current req)
    from task_step.decides [OF assms(1) Some [unfolded Checking]]
    have "task_step P C V codec rd L path hash deadline clock serves x (decide P V codec clock Delivered i current req x)" .
    moreover have "busy (decide P V codec clock Delivered i current req x) i \<noteq> busy x i"
      by (auto simp: decide_def Some Checking Let_def split: prod.splits)
    ultimately show ?thesis unfolding connection_can_move_def by blast
  next
    case (Replying action)
    from task_step.replies [OF assms(1) Some [unfolded Replying]]
    have "task_step P C V codec rd L path hash deadline clock serves x (reply None i x)" .
    moreover have "busy (reply None i x) i \<noteq> busy x i" by (simp add: Some)
    ultimately show ?thesis unfolding connection_can_move_def by blast
  qed
qed (use assms(2) in simp)

section \<open>Fair runs\<close>

lemma first_change:
  fixes g :: "nat \<Rightarrow> 'a"
  assumes "k \<le> j" and "g (Suc j) \<noteq> g j"
  obtains m where "k \<le> m" and "g m = g k" and "g (Suc m) \<noteq> g m"
proof -
  let ?Q = "\<lambda>m. k \<le> m \<and> g (Suc m) \<noteq> g m"
  define m where "m = (LEAST m. ?Q m)"
  have m: "?Q m" unfolding m_def using assms by (intro LeastI) blast
  have "g i = g k" if "k \<le> i" "i \<le> m" for i
    using that
  proof (induction i rule: dec_induct)
    case (step i)
    then have "\<not> ?Q i" unfolding m_def by (intro not_less_Least) (simp add: m_def [symmetric])
    then show ?case using step by simp
  qed simp
  then show thesis using that m by blast
qed

lemma request_answered:
  assumes steps: "\<And>k. task_step P C V codec rd L path hash deadline clock serves (f k) (f (Suc k))"
    and running: "\<And>k. phase (f k) \<in> {Accepting, Draining}"
    and fair: "\<And>k. busy (f k) i \<noteq> None \<Longrightarrow> \<exists>j \<ge> k. busy (f (Suc j)) i \<noteq> busy (f j) i
      \<or> \<not> connection_can_move P C V codec rd L path hash deadline clock serves i (f j)"
    and read: "busy (f k) i = Some (Checking current req)"
  obtains j m net fails action where "k \<le> j" and "f (Suc j) = decide P V codec clock net i current req (f j)"
    and "busy (f (Suc j)) i = Some (Replying action)" and "j < m" and "f (Suc m) = reply fails i (f m)"
    and "busy (f m) i = Some (Replying action)" and "busy (f (Suc m)) i = None"
proof -
  have moves: "\<exists>j \<ge> n. busy (f (Suc j)) i \<noteq> busy (f j) i" if now: "busy (f n) i \<noteq> None" for n
  proof (rule ccontr)
    assume still: "\<not> ?thesis"
    have same: "busy (f j) i = busy (f n) i" if "n \<le> j" for j
      using that
    proof (induction j rule: dec_induct)
      case (step j)
      then have "busy (f (Suc j)) i = busy (f j) i" using still by blast
      with step show ?case by simp
    qed simp
    have hand: "busy (f j) i \<noteq> None" if "n \<le> j" for j using same [OF that] now by simp
    obtain j where j: "n \<le> j" "busy (f (Suc j)) i \<noteq> busy (f j) i
      \<or> \<not> connection_can_move P C V codec rd L path hash deadline clock serves i (f j)"
      using fair [OF now] by (elim exE conjE)
    from in_hand_can_move [OF running hand [OF j(1)]] j still show False by blast
  qed
  obtain j0 where "k \<le> j0" "busy (f (Suc j0)) i \<noteq> busy (f j0) i" using moves [of k] read by auto
  then obtain j where j: "k \<le> j" "busy (f j) i = busy (f k) i" "busy (f (Suc j)) i \<noteq> busy (f j) i"
    by (rule first_change [where g = "\<lambda>n. busy (f n) i"])
  obtain net where net: "f (Suc j) = decide P V codec clock net i current req (f j)"
    by (rule checking_step [OF steps _ j(3)]) (use j(2) read in auto)
  then obtain action where action: "busy (f (Suc j)) i = Some (Replying action)"
    by (auto simp: decide_def Let_def split: prod.splits)
  obtain m0 where "Suc j \<le> m0" "busy (f (Suc m0)) i \<noteq> busy (f m0) i" using moves [of "Suc j"] action by auto
  then obtain m where m: "Suc j \<le> m" "busy (f m) i = busy (f (Suc j)) i" "busy (f (Suc m)) i \<noteq> busy (f m) i"
    by (rule first_change [where g = "\<lambda>n. busy (f n) i"])
  obtain fails where fails: "f (Suc m) = reply fails i (f m)"
    by (rule replying_step [OF steps _ m(3)]) (use m(2) action in auto)
  have "busy (f m) i = Some (Replying action)" "j < m" "busy (f (Suc m)) i = None"
    using m(1,2) action fails by auto
  with that j(1) net action fails show thesis by blast
qed

end
