(* ===== verification/Example.thy ===== *)
theory Example
  imports Command_Line Rpc_Wire Plan_Changes Hangup Progress
begin

text \<open>
  A small concrete instance of every parameter, on which the general theorems are applied: a
  config with one window of two recipients a minute, the in-memory store, JSON values that
  travel as themselves, and one connection on which the sender ann submits two messages.
\<close>

definition ex_window :: window where
  "ex_window = \<lparr>count = 2, duration = Duration 60 0\<rparr>"

definition ex_doc :: config_doc where
  "ex_doc = \<lparr>doc_url = ''redis://localhost'', doc_db = None, doc_password_file = None, doc_key_prefix = None,
     doc_socket = ''/run/rl/policy'', doc_on_redis_error = None, doc_warn_on_unauthenticated = None,
     doc_control_socket = Some ''/run/rl/control'',
     doc_sasl = [RawDefault (Some [ex_window]) None, RawUsername ''root'' None (Some True),
       RawRegex ''bot'' (Some [ex_window]) None]\<rparr>"

definition ex_lax_window :: window where
  "ex_lax_window = \<lparr>count = 5, duration = Duration 60 0\<rparr>"

definition ex_lax_doc :: config_doc where
  "ex_lax_doc = ex_doc\<lparr>doc_sasl := [RawDefault (Some [ex_lax_window]) None]\<rparr>"

text \<open>Every file holds \<open>ex_doc\<close>, but for one text; a regex matches the one name it spells.\<close>

definition ex_platform :: "(string, string option, string, unit) platform" where
  "ex_platform = \<lparr>read_to_string = (\<lambda>p. if p = ''/missing'' then Inl () else Inr p),
     toml_from_str = (\<lambda>t. Inr (if t = ''lax'' then ex_lax_doc else ex_doc)), into_connection_info = Inr, redis_settings = (\<lambda>_. None),
     set_redis_settings = (\<lambda>_ i. i), set_db = (\<lambda>_ r. r), password = (\<lambda>r. r), set_password = (\<lambda>p _. Some p),
     regex_new = Inr, is_match = (\<lambda>r u. r = u)\<rparr>"

definition ex_client :: "(string, string option, unit, string, unit) client_lib" where
  "ex_client = \<lparr>open_manager = (\<lambda>_ _. Inr ()), ci_addr = (\<lambda>i. i), rs_db = (\<lambda>_. 0), rs_username = (\<lambda>_. None),
     rs_protocol = (\<lambda>_. ())\<rparr>"

definition ex_commands :: "unit \<Rightarrow> store server_cmds" where
  "ex_commands = (\<lambda>_. store_cmds)"

definition ex_plan :: check_plan where
  "ex_plan = \<lparr>bucket_sizes = [1], windows = [\<lparr>key_index = 0, span_secs = 60, limit = 2\<rparr>], retention_secs = [60]\<rparr>"

definition ex_config :: "(string, string) config" where
  "ex_config = \<lparr>redis_connection_info = ''redis://localhost'', redis_key_prefix = ''postfix-ratelimitd'',
     on_redis_error = Defer, warn_on_unauthenticated = True, socket = ''/run/rl/policy'',
     control_socket = Some ''/run/rl/control'',
     sasl_limits = [\<lparr>matcher = Username ''root'', plan = \<lparr>bucket_sizes = [], windows = [], retention_secs = []\<rparr>\<rparr>,
       \<lparr>matcher = Regex ''bot'', plan = ex_plan\<rparr>],
     default_plan = ex_plan\<rparr>"

definition ex_lax_plan :: check_plan where
  "ex_lax_plan = \<lparr>bucket_sizes = [1], windows = [\<lparr>key_index = 0, span_secs = 60, limit = 5\<rparr>], retention_secs = [60]\<rparr>"

definition ex_lax_config :: "(string, string) config" where
  "ex_lax_config = ex_config\<lparr>sasl_limits := [], default_plan := ex_lax_plan\<rparr>"

definition ex_runtime :: "(string, string, unit) runtime_state" where
  "ex_runtime = \<lparr>config_of_state = ex_config,
     limiter_of_state = \<lparr>connection_manager = (), limiter_key_prefix = ''postfix-ratelimitd''\<rparr>\<rparr>"

definition ex_lax_runtime :: "(string, string, unit) runtime_state" where
  "ex_lax_runtime = ex_runtime\<lparr>config_of_state := ex_lax_config\<rparr>"

definition ex_attributes :: "(string \<times> string) list" where
  "ex_attributes = [(''request'', ''smtpd_access_policy''), (''protocol_state'', ''DATA''),
     (''sasl_username'', ''ann''), (''recipient_count'', ''2'')]"

definition ex_daemon :: "(string, string, unit, store, string) daemon" where
  "ex_daemon = \<lparr>runtime = ex_runtime, counters = zero_stats\<lparr>connections_accepted := 1\<rparr>, active = 1,
     policy_conns = [0 \<mapsto> encode_request ex_attributes @ encode_request ex_attributes],
     control_conns = Map.empty, server = empty_store 1000, answers = [], journal = []\<rparr>"

definition ex_env :: turn_env where
  "ex_env = \<lparr>cancelled = False, network = Delivered, write_error = None\<rparr>"

definition ex_turn :: "(string, string, unit, store, string) daemon \<Rightarrow> (string, string, unit, store, string) daemon" where
  "ex_turn d = the (serve_turn ex_platform ex_commands text_codec buffer_read_line store_clock ex_env 0 d)"

lemma ex_bucket: "bucket_size (Duration 60 0) = Duration 1 0"
  by (simp add: bucket_size_def plan_simps while_unfold Let_def)

lemma ex_plan_new: "CheckPlan_new [ex_window] = ex_plan"
  by (simp add: CheckPlan_new_def plan_add_def ex_window_def ex_bucket ex_plan_def Let_def)

lemma ex_lax_plan_new: "CheckPlan_new [ex_lax_window] = ex_lax_plan"
  by (simp add: CheckPlan_new_def plan_add_def ex_lax_window_def ex_bucket ex_lax_plan_def Let_def)

lemma ex_window_ok: "window_ok ex_window" "window_ok ex_lax_window"
  by (simp_all add: window_ok_def ex_window_def ex_lax_window_def)

lemma ex_plan_ok: "plan_wf ex_plan" "plan_fine ex_plan"
  unfolding ex_plan_new [symmetric] using CheckPlan_new_wf CheckPlan_new_fine [of "[ex_window]"] ex_window_ok
  by auto

lemma ex_lax_plan_ok: "plan_wf ex_lax_plan" "plan_fine ex_lax_plan"
  unfolding ex_lax_plan_new [symmetric] using CheckPlan_new_wf CheckPlan_new_fine [of "[ex_lax_window]"] ex_window_ok
  by auto

lemma ex_plan_for: "plan_for ex_platform ex_config ''ann'' = ex_plan"
  by (simp add: plan_for_def rule_matches_def ex_platform_def ex_config_def)

lemma ex_lax_plan_for: "plan_for ex_platform ex_lax_config u = ex_lax_plan"
  by (simp add: plan_for_def ex_lax_config_def)

lemma ex_fields [simp]:
  "config_of_state ex_runtime = ex_config" "on_redis_error ex_config = Defer"
  "connection_manager (limiter_of_state ex_runtime) = ()"
  "limiter_key_prefix (limiter_of_state ex_runtime) = ''postfix-ratelimitd''"
  "ex_commands cn = store_cmds"
  by (simp_all add: ex_runtime_def ex_config_def ex_commands_def)

lemma ex_request:
  "length (encode_request ex_attributes) \<le> 100" "\<forall>kv \<in> set ex_attributes. attribute_ok kv"
  by (simp_all add: encode_request_def attribute_line_def ex_attributes_def attribute_ok_def)

lemma ex_checkable: "checkable \<lparr>attributes = Map.empty ++ map_of (rev ex_attributes)\<rparr> = Some (''ann'', 2)"
proof -
  have "leading WHITE_SPACE ''ann'' = None" "leading (map rev WHITE_SPACE) ''nna'' = None"
    by (simp_all add: leading_def WHITE_SPACE_def)
  then have "trim ''ann'' = ''ann''" by (simp add: trim_def trim_start.simps)
  moreover have "parse_u32 ''2'' = Some 2"
    by (simp add: parse_u32_def parse_unsigned_def parse_digits_def char_digit_def)
  ultimately show ?thesis
    by (simp add: checkable_def protocol_state_def sasl_username_def recipient_count_def ex_attributes_def
        EXPECTED_PROTOCOL_STATES_def)
qed

lemma ex_keeps:
  "keeps ex_platform ''postfix-ratelimitd'' ''ann'' ex_plan ex_runtime"
  "keeps ex_platform ''postfix-ratelimitd'' ''ann'' ex_lax_plan ex_lax_runtime"
  by (simp_all add: keeps_def ex_plan_for ex_lax_plan_for ex_lax_runtime_def) (simp add: ex_lax_config_def)

lemma ex_turn_step:
  assumes r: "policy_conns d 0 = Some (encode_request ex_attributes @ rest)"
    and rt: "keeps ex_platform ''postfix-ratelimitd'' ''ann'' p (runtime d)" and wf: "plan_wf p" "plan_fine p"
    and rep: "sender_rep store_hash expiry store_clock store_serves ''postfix-ratelimitd'' ''ann'' p H (server d)"
  defines "adm \<equiv> plan_admits p H (store_clock (server d)) 2"
  shows "serve_turn ex_platform ex_commands text_codec buffer_read_line store_clock ex_env 0 d = Some (ex_turn d)
    \<and> answers (ex_turn d) = answers d
        @ [(store_clock (server d), ''ann'', 2, if adm then ACTION_DUNNO else ACTION_RATE_LIMITED)]
    \<and> policy_conns (ex_turn d) 0 = Some rest \<and> runtime (ex_turn d) = runtime d
    \<and> store_clock (server (ex_turn d)) = store_clock (server d)
    \<and> sender_rep store_hash expiry store_clock store_serves ''postfix-ratelimitd'' ''ann'' p
        (if adm then H @ [(store_clock (server d), 2)] else H) (server (ex_turn d))"
proof -
  let ?req = "\<lparr>attributes = Map.empty ++ map_of (rev ex_attributes)\<rparr>" and ?s = "server d"
  have read: "read_from buffer_read_line (encode_request ex_attributes @ rest) = Some (Inr (Some ?req), rest)"
    using buffer.read_loop_encoded [of "encode_request ex_attributes @ rest" ex_attributes rest MAX_REQUEST_BYTES
        Map.empty] ex_request
    by (auto simp: read_from_def MAX_REQUEST_BYTES_def)
  obtain action ls st s' where h: "handle_request False ex_platform ex_commands text_codec Delivered ?req
      (config_of_state (runtime d)) (limiter_of_state (runtime d)) (counters d) ?s = (action, ls, st, s')"
    by (metis prod.exhaust)
  have turn: "serve_turn ex_platform ex_commands text_codec buffer_read_line store_clock ex_env 0 d =
    Some (d\<lparr>counters := st, server := s', answers := answers d @ [(store_clock ?s, ''ann'', 2, action)], journal := journal d @ ls,
      active := active d, policy_conns := (policy_conns d)(0 \<mapsto> rest)\<rparr>)"
    using r read h ex_checkable by (simp add: serve_turn_def connection_turn_def noted_def ex_env_def)
  from handle_request_checked [OF ex_checkable h] obtain res where
    c: "check_sasl store_cmds text_codec Delivered ''postfix-ratelimitd'' ''ann'' 2 p None ?s = (res, s')"
    and act: "action = (case res of Inr True \<Rightarrow> ACTION_DUNNO | Inr False \<Rightarrow> ACTION_RATE_LIMITED
        | Inl e \<Rightarrow> ACTION_SERVICE_UNAVAILABLE)"
    using rt by (auto simp: now_override_def keeps_def cong: sum.case_cong)
  from mem.check_sasl_correct [OF wf text_codec_ok rep, of 2] c
  have "res = Inr adm" "store_clock s' = store_clock ?s"
    "sender_rep store_hash expiry store_clock store_serves ''postfix-ratelimitd'' ''ann'' p
        (if adm then H @ [(store_clock ?s, 2)] else H) s'"
    by (auto simp: adm_def)
  then show ?thesis using turn act by (simp add: ex_turn_def)
qed

lemma ex_empty_rep:
  "sender_rep store_hash expiry store_clock store_serves ''postfix-ratelimitd'' ''ann'' ex_plan [] (empty_store t)"
  using sender_rep_fresh [of ex_plan store_serves "empty_store t" "''postfix-ratelimitd''" "''ann''" store_hash]
    ex_plan_ok(1) by simp

lemma ex_decisions: "plan_admits ex_plan [] 1000 2" "\<not> plan_admits ex_plan [(1000, 2)] 1000 2"
  by (simp_all add: plan_admits_def ex_plan_def window_admits_def bucket_end_def)

lemma ex_first:
  "serve_turn ex_platform ex_commands text_codec buffer_read_line store_clock ex_env 0 ex_daemon = Some (ex_turn ex_daemon)"
  "answers (ex_turn ex_daemon) = [(1000, ''ann'', 2, ACTION_DUNNO)]"
  "policy_conns (ex_turn ex_daemon) 0 = Some (encode_request ex_attributes)"
  "runtime (ex_turn ex_daemon) = ex_runtime" "store_clock (server (ex_turn ex_daemon)) = 1000"
  "sender_rep store_hash expiry store_clock store_serves ''postfix-ratelimitd'' ''ann'' ex_plan [(1000, 2)]
    (server (ex_turn ex_daemon))"
  using ex_turn_step [of ex_daemon "encode_request ex_attributes" ex_plan "[]"] ex_empty_rep [of 1000] ex_decisions(1) ex_plan_ok
    ex_keeps(1)
  by (auto simp: ex_daemon_def)

lemma ex_second:
  "serve_turn ex_platform ex_commands text_codec buffer_read_line store_clock ex_env 0 (ex_turn ex_daemon)
    = Some (ex_turn (ex_turn ex_daemon))"
  "answers (ex_turn (ex_turn ex_daemon))
    = [(1000, ''ann'', 2, ACTION_DUNNO), (1000, ''ann'', 2, ACTION_RATE_LIMITED)]"
  "runtime (ex_turn (ex_turn ex_daemon)) = ex_runtime"
  using ex_turn_step [of "ex_turn ex_daemon" "[]" ex_plan "[(1000, 2)]"] ex_first ex_decisions(2) ex_plan_ok ex_keeps(1) by auto

lemma ex_steady: "runtime d = ex_runtime \<Longrightarrow>
    steady ex_platform ex_commands store_cmds ''postfix-ratelimitd'' ''ann'' ex_plan deferring d"
  using ex_plan_for by (simp add: steady_def)

lemma ex_run: "service_run ex_platform ex_client ex_commands text_codec buffer_read_line text_rpc ''/etc/rl.toml''
    store_hash expiry store_clock store_serves
    (steady ex_platform ex_commands store_cmds ''postfix-ratelimitd'' ''ann'' ex_plan deferring)
    ex_daemon (ex_turn (ex_turn ex_daemon))"
proof (rule service_run.more [OF service_run.more [OF service_run.start]])
  show "steady ex_platform ex_commands store_cmds ''postfix-ratelimitd'' ''ann'' ex_plan deferring ex_daemon"
    by (rule ex_steady) (simp add: ex_daemon_def)
  show "service_step ex_platform ex_client ex_commands text_codec buffer_read_line text_rpc ''/etc/rl.toml''
      store_hash expiry store_clock store_serves ex_daemon (ex_turn ex_daemon)"
    by (rule service_step.serve [OF ex_first(1)])
  show "service_step ex_platform ex_client ex_commands text_codec buffer_read_line text_rpc ''/etc/rl.toml''
      store_hash expiry store_clock store_serves (ex_turn ex_daemon) (ex_turn (ex_turn ex_daemon))"
    by (rule service_step.serve [OF ex_second(1)])
qed (use ex_first ex_second in \<open>auto intro: ex_steady\<close>)

text \<open>The same two turns as schedules of the connection's task.\<close>

definition ex_tasks :: "(string, string, unit, store, string) tasks" where
  "ex_tasks = \<lparr>shared = ex_daemon, busy = Map.empty, phase = Accepting, taken = 0, settled = 0\<rparr>"

abbreviation ex_step :: "(string, string, unit, store, string) tasks \<Rightarrow>
    (string, string, unit, store, string) tasks \<Rightarrow> bool" where
  "ex_step \<equiv> task_step ex_platform ex_client ex_commands text_codec buffer_read_line text_rpc ''/etc/rl.toml''
     store_hash expiry store_clock store_serves"

abbreviation ex_run_within :: "bool \<Rightarrow> (string, string, unit, store, string) tasks \<Rightarrow>
    (string, string, unit, store, string) tasks \<Rightarrow> bool" where
  "ex_run_within deferring \<equiv> run_within ex_step
     (\<lambda>x. steady ex_platform ex_commands store_cmds ''postfix-ratelimitd'' ''ann'' ex_plan deferring (shared x))"

lemma ex_turn_schedule:
  assumes "serve_turn ex_platform ex_commands text_codec buffer_read_line store_clock ex_env 0 (shared x) = Some d'"
    and "busy x = Map.empty" and "phase x = Accepting"
  obtains y where "run_within ex_step (\<lambda>z. runtime (shared z) = runtime (shared x)) x y" and "shared y = d'"
    and "busy y = Map.empty" and "phase y = Accepting"
proof -
  have "\<not> cancelled ex_env" by (simp add: ex_env_def)
  from turn_is_schedule [OF assms(1) this, where C = ex_client and L = text_rpc and path = "''/etc/rl.toml''"
      and hash = store_hash and deadline = expiry and serves = store_serves] assms(2,3) that
  show thesis by auto
qed

text \<open>The first message, the reload and the second message, as a run of the tasks.\<close>

lemma ex_first_schedule:
  obtains x where "ex_run_within deferring ex_tasks x" and "shared x = ex_turn ex_daemon" and "busy x = Map.empty"
    and "phase x = Accepting"
proof -
  obtain x where x: "run_within ex_step (\<lambda>z. runtime (shared z) = runtime (shared ex_tasks)) ex_tasks x"
    "shared x = ex_turn ex_daemon" "busy x = Map.empty" "phase x = Accepting"
    by (rule ex_turn_schedule [of ex_tasks]) (simp_all add: ex_tasks_def ex_first(1))
  have "ex_run_within deferring ex_tasks x"
    by (rule run_within_mono [OF x(1)]) (rule ex_steady, simp add: ex_tasks_def ex_daemon_def)
  then show thesis using that x by blast
qed

lemma ex_schedule:
  obtains y where "ex_run_within deferring ex_tasks y" and "shared y = ex_turn (ex_turn ex_daemon)"
    and "busy y = Map.empty" and "phase y = Accepting"
proof -
  obtain x where x: "ex_run_within deferring ex_tasks x" "shared x = ex_turn ex_daemon" "busy x = Map.empty"
    "phase x = Accepting" by (rule ex_first_schedule)
  obtain y where y: "run_within ex_step (\<lambda>z. runtime (shared z) = runtime (shared x)) x y"
    "shared y = ex_turn (ex_turn ex_daemon)" "busy y = Map.empty" "phase y = Accepting"
    by (rule ex_turn_schedule [of x "ex_turn (ex_turn ex_daemon)"]) (simp_all add: x(2-4) ex_second(1))
  have "ex_run_within deferring x y"
    by (rule run_within_mono [OF y(1)]) (rule ex_steady, simp add: x(2) ex_first(4))
  then show thesis using that run_within_trans [OF _ x(1)] y by blast
qed

lemma ex_doc_valid: "doc_valid ex_platform ex_doc"
  using ex_window_ok
  by (simp add: doc_valid_def ex_doc_def rule_valid_def windows_valid_def ex_platform_def path_eq_def
      path_components_def)

lemma ex_load: "config_load ex_platform ''/etc/rl.toml'' = Some (Inr ex_config)"
proof -
  have parsed: "read_to_string ex_platform ''/etc/rl.toml'' = Inr ''/etc/rl.toml''"
    "toml_from_str ex_platform ''/etc/rl.toml'' = Inr ex_doc"
    "resolve_connection ex_platform (raw_redis (raw_config_of ex_doc)) = Inr ''redis://localhost''"
    by (simp_all add: ex_platform_def resolve_connection_def raw_config_of_def ex_doc_def)
  have "ex_config = config_of ex_doc ''redis://localhost'' (List.map_filter (loaded ex_platform) (doc_sasl ex_doc))
      (raw_plan (RawDefault (Some [ex_window]) None))"
    by (simp add: ex_config_def config_of_def ex_doc_def ex_platform_def raw_plan_def or_default_def
        default_key_prefix_def ex_plan_new)
  then show ?thesis using config_load_parsed [OF parsed] ex_doc_valid by (simp add: ex_doc_def)
qed

text \<open>Later the file has become another one, which allows five recipients.\<close>

lemma ex_lax_load: "config_load (ex_platform\<lparr>read_to_string := (\<lambda>_. Inr ''lax'')\<rparr>) path = Some (Inr ex_lax_config)"
proof -
  let ?P = "ex_platform\<lparr>read_to_string := (\<lambda>_. Inr ''lax'')\<rparr>"
  have parsed: "read_to_string ?P path = Inr ''lax''" "toml_from_str ?P ''lax'' = Inr ex_lax_doc"
    "resolve_connection ?P (raw_redis (raw_config_of ex_lax_doc)) = Inr ''redis://localhost''"
    by (simp_all add: ex_platform_def resolve_connection_def raw_config_of_def ex_lax_doc_def ex_doc_def)
  have "doc_valid ?P ex_lax_doc"
    using ex_window_ok by (simp add: doc_valid_def ex_lax_doc_def ex_doc_def rule_valid_def windows_valid_def
      ex_platform_def path_eq_def path_components_def)
  moreover have "ex_lax_config = config_of ex_lax_doc ''redis://localhost'' (List.map_filter (loaded ?P) (doc_sasl ex_lax_doc))
      (raw_plan (RawDefault (Some [ex_lax_window]) None))"
    by (simp add: ex_lax_config_def ex_config_def config_of_def ex_lax_doc_def ex_doc_def raw_plan_def or_default_def
        default_key_prefix_def ex_lax_plan_new)
  ultimately show ?thesis using config_load_parsed [OF parsed] by (simp add: ex_lax_doc_def)
qed

lemma ex_reload:
  "reload_config (ex_platform\<lparr>read_to_string := (\<lambda>_. Inr ''lax'')\<rparr>) (ex_client\<lparr>open_manager := dial\<rparr>)
    ex_commands s path ex_runtime = Some (None, ex_lax_runtime)"
proof -
  have "path_eq (socket ex_lax_config) (socket ex_config)" "path_opt_eq (control_socket ex_lax_config) (control_socket ex_config)"
    "redis_connection_info ex_lax_config = redis_connection_info ex_config" "redis_key_prefix ex_lax_config = redis_key_prefix ex_config"
    by (simp_all add: ex_lax_config_def)
  then show ?thesis
    by (simp add: reload_config_def ex_lax_load ex_lax_runtime_def ex_runtime_def)
qed

definition ex_reloaded :: "(string, string, unit, store, string) daemon" where
  "ex_reloaded = (ex_turn ex_daemon)\<lparr>runtime := ex_lax_runtime\<rparr>"

lemma ex_third:
  "serve_turn ex_platform ex_commands text_codec buffer_read_line store_clock ex_env 0 ex_reloaded
    = Some (ex_turn ex_reloaded)"
  "answers (ex_turn ex_reloaded) = [(1000, ''ann'', 2, ACTION_DUNNO), (1000, ''ann'', 2, ACTION_DUNNO)]"
proof -
  have "sender_rep store_hash expiry store_clock store_serves ''postfix-ratelimitd'' ''ann'' ex_lax_plan [(1000, 2)]
      (server ex_reloaded)"
    using ex_first(6) by (simp add: ex_reloaded_def sender_rep_def ex_plan_def ex_lax_plan_def plan_keys_def)
  moreover have "plan_admits ex_lax_plan [(1000, 2)] 1000 2"
    by (simp add: plan_admits_def ex_lax_plan_def window_admits_def bucket_end_def)
  ultimately show "serve_turn ex_platform ex_commands text_codec buffer_read_line store_clock ex_env 0 ex_reloaded
    = Some (ex_turn ex_reloaded)"
  "answers (ex_turn ex_reloaded) = [(1000, ''ann'', 2, ACTION_DUNNO), (1000, ''ann'', 2, ACTION_DUNNO)]"
    using ex_turn_step [of ex_reloaded "[]" ex_lax_plan "[(1000, 2)]"] ex_first
      ex_lax_plan_ok ex_keeps(2) by (auto simp: ex_reloaded_def)
qed

lemma ex_reload_schedule:
  obtains x y where "ex_step\<^sup>*\<^sup>* ex_tasks x" and "shared x = ex_reloaded" and "busy x = Map.empty"
    and "run_within ex_step (\<lambda>z. runtime (shared z) = ex_lax_runtime) x y" and "shared y = ex_turn ex_reloaded"
proof -
  obtain x where x: "ex_run_within True ex_tasks x" "shared x = ex_turn ex_daemon" "busy x = Map.empty"
    "phase x = Accepting" by (rule ex_first_schedule)
  define x' where "x' = x\<lparr>shared := ex_reloaded\<rparr>"
  have x': "shared x' = ex_reloaded" "busy x' = Map.empty" "phase x' = Accepting" by (simp_all add: x'_def x)
  have rt: "runtime (shared x') = ex_lax_runtime" by (simp add: x'_def ex_reloaded_def)
  obtain y where y: "run_within ex_step (\<lambda>z. runtime (shared z) = runtime (shared x')) x' y"
    "shared y = ex_turn ex_reloaded" "busy y = Map.empty" "phase y = Accepting"
    by (rule ex_turn_schedule [of x' "ex_turn ex_reloaded"]) (simp_all add: x' ex_third(1))
  have "ex_step x x'"
    unfolding x'_def ex_reloaded_def x(2) [symmetric]
    using background_step.swap [OF dials_always ex_reload [of "open_manager ex_client" "server (shared x)"
        "''/etc/rl.toml''", folded ex_first(4), folded x(2)]] x(4)
    by (intro task_step.background) simp_all
  then have "ex_step\<^sup>*\<^sup>* ex_tasks x'"
    using run_within_steps [OF x(1)] by (rule rtranclp.rtrancl_into_rtrancl [rotated])
  from that [OF this x'(1,2) y(1) [unfolded rt] y(2)] show thesis .
qed

lemma ex_runtime_ok: "runtime_ok ex_platform ex_client ex_commands ex_runtime"
  using config_plans_ok [OF ex_load]
  by (auto simp: runtime_ok_def ex_client_def same_redis_connection_def ex_config_def check_command_support_def
      store_cmds_def REQUIRED_COMMANDS_def)

text \<open>No files, no locks, and the umask 022.\<close>

definition ex_files :: files where
  "ex_files = \<lparr>files_mode = Map.empty, files_umask = 0x12, files_live = (\<lambda>_. False), files_locked = (\<lambda>_. False)\<rparr>"

lemma ex_limiter: "Limiter_new ex_client ex_commands s info ''postfix-ratelimitd'' = Inr (limiter_of_state ex_runtime)"
  by (simp add: Limiter_new_def ex_client_def check_command_support_def store_cmds_def REQUIRED_COMMANDS_def
      ex_runtime_def ex_commands_def)

lemma ex_startup:
  obtains locks ls w' where "startup_main False False ex_platform ex_client ex_commands (empty_store 0) files_os
    ''/etc/rl.toml'' False ex_files = Some (Serving ex_runtime locks ls, w')"
proof -
  have c: "socket ex_config = ''/run/rl/policy''" "control_socket ex_config = Some ''/run/rl/control''"
    "redis_key_prefix ex_config = ''postfix-ratelimitd''"
    "\<lparr>config_of_state = ex_config, limiter_of_state = limiter_of_state ex_runtime\<rparr> = ex_runtime"
    by (simp_all add: ex_config_def ex_runtime_def)
  show thesis
    using that by (simp add: startup_main_def ex_load c ex_limiter acquire_startup_lock_or_fatal_def
        acquire_startup_lock_def bind_socket_def set_umask_def socket_is_live_def files_os_def ex_files_def
        LOCK_FILE_SUFFIX_def)
qed

definition ex_cli :: daemon_cli where
  "ex_cli = daemon_cli_of (Some ''/etc/rl.toml'') False None None None"

definition ex_main_env :: main_env where
  "ex_main_env = \<lparr>env_var = Map.empty, syslog_connect = (\<lambda>_. Some ''refused''), signal_error = (\<lambda>_. None)\<rparr>"

lemma ex_cli_path [simp]: "cli_config_path ex_cli = ''/etc/rl.toml''"
  by (simp add: ex_cli_def daemon_cli_of_def or_default_def)

text \<open>The run of the example starts when the daemon has accepted the connection.\<close>

lemma ex_accepted:
  "task_step ex_platform ex_client ex_commands text_codec buffer_read_line text_rpc (cli_config_path ex_cli)
    store_hash expiry store_clock store_serves (boot ex_runtime (empty_store 1000)) ex_tasks"
proof -
  have "ex_tasks = (boot ex_runtime (empty_store 1000))\<lparr>shared := accept_connection Policy 0
      (encode_request ex_attributes @ encode_request ex_attributes) (shared (boot ex_runtime (empty_store 1000)))\<rparr>"
    by (simp add: ex_tasks_def ex_daemon_def boot_def accept_connection_def admit_connection_def MAX_CONNECTIONS_def
        zero_stats_def Let_def)
  also have "task_step ex_platform ex_client ex_commands text_codec buffer_read_line text_rpc (cli_config_path ex_cli)
    store_hash expiry store_clock store_serves (boot ex_runtime (empty_store 1000)) \<dots>"
    by (rule task_step.accepted) (simp_all add: boot_def accept_control_def)
  finally show ?thesis .
qed

text \<open>The SIGHUP worker: a reload of the edited file, and an edit whose signal comes too late.\<close>

abbreviation lax_disk :: "path \<Rightarrow> unit + string" where
  "lax_disk \<equiv> (\<lambda>_. Inr ''lax'')"

abbreviation ex_system_step :: "(string, string, unit, store, string, unit) system \<Rightarrow>
    (string, string, unit, store, string, unit) system \<Rightarrow> bool" where
  "ex_system_step \<equiv> system_step ex_platform ex_client ex_commands text_codec buffer_read_line text_rpc ''/etc/rl.toml''
     store_hash expiry store_clock store_serves"

definition ex_system :: "(string, string, unit, store, string, unit) system" where
  "ex_system = system_boot (boot ex_runtime (empty_store 0)) (read_to_string ex_platform)"

definition ex_edited :: "(string, string, unit, store, string, unit) system" where
  "ex_edited = ex_system\<lparr>disk := lax_disk, disks := {lax_disk}\<rparr>"

lemma ex_edited_reachable: "ex_system_step\<^sup>*\<^sup>* ex_system ex_edited"
proof -
  have "ex_system_step ex_system (ex_system\<lparr>disk := lax_disk, disks := insert lax_disk (disks ex_system)\<rparr>)"
    by (rule system_step.edited)
  moreover have "disks ex_system = {}" by (simp add: ex_system_def system_boot_def)
  ultimately show ?thesis by (simp add: ex_edited_def r_into_rtranclp)
qed

lemma ex_system_simps [simp]:
  "worker ex_system = reload_init" "worker ex_edited = reload_init" "disk ex_edited = lax_disk"
  "disk ex_system = read_to_string ex_platform"
  "phase (live ex_system) = Accepting" "phase (live ex_edited) = Accepting"
  "runtime (shared (live ex_system)) = ex_runtime" "runtime (shared (live ex_edited)) = ex_runtime"
  by (simp_all add: ex_edited_def ex_system_def system_boot_def boot_def)

definition ex_leaving :: "(string, string, unit, store, string, unit) system" where
  "ex_leaving = ex_edited\<lparr>live := (live ex_edited)\<lparr>shared := (shared (live ex_edited))\<lparr>runtime := ex_lax_runtime\<rparr>\<rparr>,
     worker := worker_leaving, disks := {lax_disk}\<rparr>"

lemma ex_hangup:
  "run_within ex_system_step (\<lambda>z. disk z = lax_disk) ex_edited ex_leaving"
  "run_within ex_system_step (\<lambda>z. disk z = lax_disk) ex_edited (ex_leaving\<lparr>worker := one_served\<rparr>)"
proof -
  have e: "worker ex_edited = reload_init" "phase (live ex_edited) = Accepting" by simp_all
  have r: "reload_config (ex_platform\<lparr>read_to_string := disk ex_edited\<rparr>) (ex_client\<lparr>open_manager := open_manager ex_client\<rparr>)
      ex_commands (server (shared (live ex_edited))) ''/etc/rl.toml'' (runtime (shared (live ex_edited)))
    = Some (None, ex_lax_runtime)" unfolding ex_system_simps by (rule ex_reload)
  show first: "run_within ex_system_step (\<lambda>z. disk z = lax_disk) ex_edited ex_leaving"
    using one_pass [OF e dials_always r] by (simp add: ex_leaving_def)
  have l: "worker ex_leaving = worker_leaving" "phase (live ex_leaving) = Accepting" by (simp_all add: ex_leaving_def)
  have d: "disk ex_leaving = lax_disk" by (simp add: ex_leaving_def)
  show "run_within ex_system_step (\<lambda>z. disk z = lax_disk) ex_edited (ex_leaving\<lparr>worker := one_served\<rparr>)"
    by (rule run_within_trans [OF pass_ends [OF l, unfolded d] first])
qed

text \<open>A worker that loaded the old file is about to clear its flag when the file is edited.\<close>

definition ex_late :: "(string, string, unit, store, string, unit) system" where
  "ex_late = ex_system\<lparr>worker := worker_leaving, disk := lax_disk,
     disks := {lax_disk, read_to_string ex_platform}\<rparr>"

lemma ex_late_reachable: "ex_system_step\<^sup>*\<^sup>* ex_system ex_late"
proof -
  let ?D = "read_to_string ex_platform"
  have load: "config_load (ex_platform\<lparr>read_to_string := ?D\<rparr>) ''/etc/rl.toml'' = Some (Inr ex_config)" using ex_load by simp
  have r: "reload_config (ex_platform\<lparr>read_to_string := disk ex_system\<rparr>) (ex_client\<lparr>open_manager := open_manager ex_client\<rparr>)
      ex_commands (server (shared (live ex_system))) ''/etc/rl.toml'' (runtime (shared (live ex_system))) = Some (None, ex_runtime)"
    using load by (simp add: reload_config_def)
  have e: "worker ex_system = reload_init" "phase (live ex_system) = Accepting" by simp_all
  define a where "a = ex_system\<lparr>worker := worker_leaving, disks := {?D}\<rparr>"
  have same: "ex_system\<lparr>live := (live ex_system)\<lparr>shared := (shared (live ex_system))\<lparr>runtime := ex_runtime\<rparr>\<rparr>,
      worker := worker_leaving, disks := {?D}\<rparr> = a"
    by (simp add: a_def ex_system_def system_boot_def boot_def)
  have late: "a\<lparr>disk := lax_disk, disks := insert lax_disk (disks a)\<rparr> = ex_late" by (simp add: a_def ex_late_def)
  have "ex_system_step a ex_late" unfolding late [symmetric] by (rule system_step.edited)
  moreover have "ex_system_step\<^sup>*\<^sup>* ex_system a"
    using run_within_steps [OF one_pass [OF e dials_always r]] by (simp only: ex_system_simps same)
  ultimately show ?thesis by (rule rtranclp.rtrancl_into_rtrancl [rotated])
qed

lemma ex_too_late: "run_within ex_system_step (\<lambda>z. disk z = lax_disk) ex_late (ex_late\<lparr>worker := one_missed\<rparr>)"
proof -
  have l: "worker ex_late = worker_leaving" "phase (live ex_late) = Accepting" by (simp_all add: ex_late_def)
  have d: "disk ex_late = lax_disk" by (simp add: ex_late_def)
  from late_signal [OF l] show ?thesis by (simp only: d)
qed

lemma ex_stale: "\<not> reload_outcome ex_platform ex_client ex_commands path lax_disk ex_runtime"
proof -
  have "reload_config (ex_platform\<lparr>read_to_string := lax_disk\<rparr>) (ex_client\<lparr>open_manager := dial\<rparr>) ex_commands s path ex_runtime
      = Some (None, ex_lax_runtime)" for dial s
    by (rule ex_reload)
  moreover have "ex_lax_config \<noteq> ex_config"
  proof
    assume "ex_lax_config = ex_config"
    from arg_cong [OF this, of sasl_limits] show False by (simp add: ex_lax_config_def ex_config_def)
  qed
  ultimately show ?thesis by (simp add: reload_outcome_def ex_lax_load)
qed

text \<open>The worker clears its flag, and nothing happens any more but edits that change nothing.\<close>

definition ex_settling :: "nat \<Rightarrow> (string, string, unit, store, string, unit) system" where
  "ex_settling i = (if i = 0 then ex_leaving else ex_leaving\<lparr>worker := one_served\<rparr>)"

lemma one_served_rests: "reload_step one_served w \<Longrightarrow> sent w = sent one_served \<Longrightarrow> w = one_served"
  by (erule reload_step.cases) (auto simp: one_served_def)

lemma ex_settling:
  "ex_system_step\<^sup>*\<^sup>* ex_system (ex_settling 0)" "sent (worker (ex_settling 0)) < 2 ^ 64"
  "ex_system_step (ex_settling i) (ex_settling (Suc i))"
  "sent (worker (ex_settling (Suc i))) = sent (worker (ex_settling i))"
  "phase (live (ex_settling i)) \<in> {Accepting, Draining}"
  "\<exists>j \<ge> i. worker (ex_settling (Suc j)) \<noteq> worker (ex_settling j) \<or> \<not> reload_can_move ex_platform ex_client ex_commands
    text_codec buffer_read_line text_rpc ''/etc/rl.toml'' store_hash expiry store_clock store_serves (ex_settling j)"
proof -
  have w: "worker ex_leaving = worker_leaving" "phase (live ex_leaving) = Accepting" by (simp_all add: ex_leaving_def)
  show "ex_system_step\<^sup>*\<^sup>* ex_system (ex_settling 0)"
    using rtranclp_trans [OF ex_edited_reachable run_within_steps [OF ex_hangup(1)]] by (simp add: ex_settling_def)
  show "ex_system_step (ex_settling i) (ex_settling (Suc i))"
  proof (cases "i = 0")
    case True
    have "ex_system_step ex_leaving (ex_leaving\<lparr>worker := one_served, disks := disks ex_leaving\<rparr>)"
      using system_step.works [of ex_leaving one_served] clear_flag [of worker_leaving] w
      by (simp add: worker_leaving_def one_served_def)
    with True show ?thesis by (simp add: ex_settling_def)
  next
    case False
    define y where "y = ex_leaving\<lparr>worker := one_served\<rparr>"
    have same: "y\<lparr>disk := lax_disk, disks := insert lax_disk (disks y)\<rparr> = y"
      by (simp add: y_def ex_leaving_def ex_edited_def)
    have "ex_system_step y (y\<lparr>disk := lax_disk, disks := insert lax_disk (disks y)\<rparr>)" by (rule system_step.edited)
    then have "ex_system_step y y" by (simp only: same)
    with False show ?thesis by (simp add: ex_settling_def y_def)
  qed
  have "\<not> reload_can_move ex_platform ex_client ex_commands text_codec buffer_read_line text_rpc ''/etc/rl.toml''
      store_hash expiry store_clock store_serves (ex_settling (Suc i))"
    using system_step_worker one_served_rests by (fastforce simp: reload_can_move_def ex_settling_def)
  then show "\<exists>j \<ge> i. worker (ex_settling (Suc j)) \<noteq> worker (ex_settling j) \<or> \<not> reload_can_move ex_platform ex_client
      ex_commands text_codec buffer_read_line text_rpc ''/etc/rl.toml'' store_hash expiry store_clock store_serves (ex_settling j)"
    by (intro exI [of _ "Suc i"]) simp
qed (simp_all add: ex_settling_def ex_leaving_def worker_leaving_def one_served_def)

lemma ex_tidy: "tidy_server store_hash store_serves (empty_store t)"
  by (simp add: tidy_server_def tidy_key_def store_hash_def store_serves_def empty_store_def)

lemma ex_main:
  obtains locks ls w' where "daemon_main False ex_main_env ex_platform ex_client ex_commands (empty_store 0) files_os
    ex_cli ex_files = Some (Serves (Env_Logger Log_Info) ex_runtime locks ls, w')"
proof -
  obtain locks ls w' where up: "startup_main False False ex_platform ex_client ex_commands (empty_store 0) files_os
    ''/etc/rl.toml'' False ex_files = Some (Serving ex_runtime locks ls, w')" by (rule ex_startup)
  show thesis
    by (rule that [of locks ls w']) (simp add: daemon_main_def ex_cli_def daemon_cli_of_def or_default_def ex_main_env_def acknowledged_test_build_def
        init_logging_def install_def up)
qed

text \<open>One request of the example, read, decided and answered; then nothing happens any more.\<close>

definition ex_message :: request where
  "ex_message = \<lparr>attributes = Map.empty ++ map_of (rev ex_attributes)\<rparr>"

definition ex_taken :: "(string, string, unit, store, string) tasks" where
  "ex_taken = ex_tasks\<lparr>shared := ex_daemon\<lparr>policy_conns := [0 \<mapsto> encode_request ex_attributes]\<rparr>,
     busy := [0 \<mapsto> Checking ex_runtime ex_message], taken := 1\<rparr>"

definition ex_decided :: "(string, string, unit, store, string) tasks" where
  "ex_decided = decide ex_platform ex_commands text_codec store_clock Delivered 0 ex_runtime ex_message ex_taken"

definition ex_answering :: "nat \<Rightarrow> (string, string, unit, store, string) tasks" where
  "ex_answering n = (if n = 0 then ex_taken else if n = 1 then ex_decided else reply None 0 ex_decided)"

lemma ex_decided: "phase ex_decided = Accepting" "\<exists>action. busy ex_decided 0 = Some (Replying action)"
  by (auto simp: ex_decided_def decide_def ex_taken_def ex_tasks_def Let_def split: prod.splits)

lemma ex_answering:
  "ex_step (ex_answering k) (ex_answering (Suc k))"
  "phase (ex_answering k) \<in> {Accepting, Draining}"
  "busy (ex_answering k) 0 \<noteq> None \<Longrightarrow> \<exists>j \<ge> k. busy (ex_answering (Suc j)) 0 \<noteq> busy (ex_answering j) 0
    \<or> \<not> connection_can_move ex_platform ex_client ex_commands text_codec buffer_read_line text_rpc ''/etc/rl.toml''
      store_hash expiry store_clock store_serves 0 (ex_answering j)"
  "busy (ex_answering 0) 0 = Some (Checking ex_runtime ex_message)"
proof -
  obtain action where action: "busy ex_decided 0 = Some (Replying action)" using ex_decided(2) by blast
  have taken: "phase ex_taken = Accepting" "busy ex_taken 0 = Some (Checking ex_runtime ex_message)"
    by (simp_all add: ex_taken_def ex_tasks_def)
  have still: "ex_step x x" if "phase x = Accepting" for x
  proof -
    have "idle store_hash expiry store_clock store_serves bucket_keys (server (shared x)) (server (shared x))"
      by (rule idle_refl)
    from task_step.background [OF _ background_step.time_passes [OF this]] that show ?thesis by simp
  qed
  show "ex_step (ex_answering k) (ex_answering (Suc k))"
  proof -
    consider "k = 0" | "k = 1" | "2 \<le> k" by linarith
    then show ?thesis
    proof cases
      case 1
      with task_step.decides [where x = ex_taken and i = 0 and current = ex_runtime and req = ex_message] taken show ?thesis
        by (simp add: ex_answering_def ex_decided_def)
    next
      case 2
      with task_step.replies [where x = ex_decided and i = 0 and action = action] action ex_decided(1) show ?thesis by (simp add: ex_answering_def)
    next
      case 3
      with still [of "reply None 0 ex_decided"] ex_decided(1) show ?thesis by (simp add: ex_answering_def)
    qed
  qed
  show "phase (ex_answering k) \<in> {Accepting, Draining}"
    using taken(1) ex_decided(1) by (simp add: ex_answering_def)
  show "busy (ex_answering 0) 0 = Some (Checking ex_runtime ex_message)" using taken(2) by (simp add: ex_answering_def)
  show "\<exists>j \<ge> k. busy (ex_answering (Suc j)) 0 \<noteq> busy (ex_answering j) 0
    \<or> \<not> connection_can_move ex_platform ex_client ex_commands text_codec buffer_read_line text_rpc ''/etc/rl.toml''
      store_hash expiry store_clock store_serves 0 (ex_answering j)" if "busy (ex_answering k) 0 \<noteq> None"
    using that taken(2) action
    by (intro exI [of _ k]) (auto simp: ex_answering_def split: if_splits)
qed

text \<open>A client that asks for the status of ann after the first message.\<close>

definition ex_status_request :: "u64 rpc_request" where
  "ex_status_request = \<lparr>rpc_method = LIMITS_SASL_METHOD,
     rpc_params = Some (limits_sasl_params_json ''ann''), rpc_id = Some 1\<rparr>"

definition ex_query :: string where
  "ex_query = request_text text_rpc ex_status_request @ [CHR 0x0A]"

definition ex_peer :: peer where
  "ex_peer = \<lparr>peer_connect = (\<lambda>_. None), peer_set_timeout = (\<lambda>_. None), peer_write = (\<lambda>_. None),
     peer_read_line = line_read_from (control_turn text_rpc ex_platform ex_commands buffer_read_line False False ex_runtime
       ex_query (server (ex_turn ex_daemon)))\<rparr>"

definition ex_formats :: formats where
  "ex_formats = \<lparr>format_span = (\<lambda>s. show_nat (unat s) @ ''s''), format_time = (\<lambda>t. Some (show_nat (unat t))),
     format_percent = (\<lambda>a b. show_nat (100 * unat a div unat b)), pretty_json = print_json\<rparr>"

lemma ex_query_new: "new_limits_sasl_request text_rpc ''ann'' 1 = Some ex_status_request"
  by (simp add: method_names_fit ex_status_request_def text_rpc_def)

lemma ex_query_short: "length (request_text text_rpc ex_status_request) < MAX_CONTROL_REQUEST_BYTES"
  by (simp add: text_rpc_def ex_status_request_def request_json_def LIMITS_SASL_METHOD_def limits_sasl_params_json_def
      id_json_def print_string_def escape_char_def show_int_def MAX_CONTROL_REQUEST_BYTES_def show_nat.simps)

lemma ex_shown: "show_nat 1000 = ''1000''" "show_nat 60 = ''60''" "show_nat 2 = ''2''" "show_nat 100 = ''100''"
  by (simp_all add: show_nat.simps)

lemma ex_printed:
  "map (\<lambda>w. print_window ex_formats (status_of_log ex_plan [(1000, 2)] 1000 w)) (windows ex_plan) = [''  60s: 2/2 (100%)'']"
  by (simp add: status_of_log_def ex_plan_def bucket_end_def ex_formats_def print_window_def ex_shown)

end
