(* ===== verification/Config_Properties.thy ===== *)
theory Config_Properties
  imports Example
begin

text \<open>
  The properties of the planner and of \<open>Config::load\<close> (Plan, Config), and of the keys under which
  a sender is counted (Limiter).
\<close>

section \<open>Configuration and plans\<close>

text \<open>C14: A loaded config enforces on a sender the windows of the first entry of the file, in
  file order, that is for the sender by name or by regex, and those of the one default entry,
  wherever it stands in the file, when there is none.\<close>
theorem first_matching_rule_applies:
  assumes "read_to_string P path = Inr body" and "toml_from_str P body = Inr doc"
    and "config_load P path = Some (Inr c)"
  shows "map_option raw_plan
      (find (raw_applies P u) (filter (\<lambda>r. \<not> is_default r) (doc_sasl doc) @ filter is_default (doc_sasl doc)))
    = Some (plan_for P c u)"
proof -
  obtain info d where doc: "doc_valid P doc" "filter is_default (doc_sasl doc) = [d]"
    "c = config_of doc info (List.map_filter (loaded P) (doc_sasl doc)) (raw_plan d)"
    using config_load_Inr [OF assms(3)] assms(1,2) by (metis sum.inject(2))
  let ?rs = "filter (\<lambda>r. \<not> is_default r) (doc_sasl doc) @ filter is_default (doc_sasl doc)"
  have "raw_applies P u d" using filter_single [OF doc(2)] default_applies by blast
  then obtain r where r: "find (raw_applies P u) ?rs = Some r"
    using filter_single [OF doc(2)] by (cases "find (raw_applies P u) ?rs") (auto simp: find_None_iff)
  then show ?thesis using plan_for_first_match [OF doc r] by simp
qed

theorem first_matching_rule_applies_witness:
  "plan_for ex_platform ex_config ''bot'' = ex_plan \<and> plan_for ex_platform ex_config ''root'' = CheckPlan_new []"
proof -
  have doc: "read_to_string ex_platform ''/etc/rl.toml'' = Inr ''/etc/rl.toml''"
    "toml_from_str ex_platform ''/etc/rl.toml'' = Inr ex_doc"
    by (simp_all add: ex_platform_def)
  have "map_option raw_plan (find (raw_applies ex_platform u)
      (filter (\<lambda>r. \<not> is_default r) (doc_sasl ex_doc) @ filter is_default (doc_sasl ex_doc)))
    = Some (plan_for ex_platform ex_config u)" for u
    by (rule first_matching_rule_applies [OF doc ex_load])
  from this [of "''bot''"] this [of "''root''"] show ?thesis
    by (simp add: ex_doc_def ex_platform_def raw_plan_def or_default_def ex_plan_new)
qed

text \<open>C15: Every plan that a loaded config can hand to the script is well formed (parallel arrays,
  distinct nonzero bucket sizes, indices in range, retention equal to the longest span) and
  fine grained: every window spans between one minute and 31 days and at least fifty, fewer
  than a hundred, of its buckets.\<close>
theorem loaded_plans_sound:
  assumes "config_load P path = Some (Inr c)"
  shows "plan_wf (plan_for P c u) \<and>
    (\<forall>w \<in> set (windows (plan_for P c u)).
       60 \<le> unat (span_secs w) \<and> unat (span_secs w) \<le> 31 * 86400 \<and>
       50 * unat (bucket_sizes (plan_for P c u) ! key_index w) \<le> unat (span_secs w) \<and>
       unat (span_secs w) < 100 * unat (bucket_sizes (plan_for P c u) ! key_index w))"
proof -
  have ok: "plan_wf (plan_for P c u)" "plan_fine (plan_for P c u)" using config_plans_ok [OF assms] by auto
  have "60 \<le> unat (span_secs w)" if "w \<in> set (windows (plan_for P c u))" for w
    using ok(2) that by (simp add: plan_fine_def)
  then show ?thesis using ok(1) plan_fine_window [OF ok(2)] by (auto simp: mult.commute)
qed

theorem loaded_plans_sound_witness:
  "config_load ex_platform ''/etc/rl.toml'' = Some (Inr ex_config)
   \<and> plan_wf (plan_for ex_platform ex_config ''ann'')"
  using loaded_plans_sound [OF ex_load, of "''ann''"] ex_load by blast

text \<open>C16: A plan rejects exactly what the configured windows reject: for any totals per span, every
  planned window is within its limit just when every configured window is, so that collapsing
  windows of equal duration and sharing keys loses nothing.\<close>
theorem plan_equivalent_to_windows:
  "(\<forall>pw \<in> set (windows (CheckPlan_new ws)). totals (span_secs pw) \<le> unat (limit pw)) =
   (\<forall>w \<in> set ws. totals (as_secs (duration w)) \<le> unat (count w))"
  using CheckPlan_new_same_limits [of ws totals] by simp

theorem plan_equivalent_to_windows_witness:
  "(\<forall>pw \<in> set (windows ex_plan). unat (span_secs pw) div 30 \<le> unat (limit pw)) = True"
  unfolding ex_plan_new [symmetric]
  using plan_equivalent_to_windows [of "[ex_window]" "\<lambda>s. unat s div 30"] by (simp add: ex_window_def)

text \<open>C17: The bucket size is the largest power of two of seconds, up to a day, of which the
  duration spans at least fifty, and one second when there is none.\<close>
theorem bucket_size_largest:
  "\<exists>k. unat (as_secs (bucket_size d)) = 2 ^ k \<and> subsec_nanos (bucket_size d) = 0 \<and>
    (\<forall>j. 2 ^ j \<le> (86400 :: nat) \<and> 50 \<le> unat (as_secs d) div 2 ^ j \<longrightarrow> j \<le> k) \<and>
    (k = 0 \<or> 2 ^ k \<le> (86400 :: nat) \<and> 50 \<le> unat (as_secs d) div 2 ^ k)"
  by (rule bucket_size_greatest)

theorem bucket_size_largest_witness:
  "\<exists>k. unat (as_secs (bucket_size (Duration 3600 0))) = 2 ^ k \<and> 6 \<le> k"
proof -
  obtain k where k: "unat (as_secs (bucket_size (Duration 3600 0))) = 2 ^ k"
    "\<forall>j. 2 ^ j \<le> (86400 :: nat) \<and> 50 \<le> unat (as_secs (Duration 3600 0)) div 2 ^ j \<longrightarrow> j \<le> k"
    using bucket_size_largest [of "Duration 3600 0"] by blast
  have "6 \<le> k" using k(2) [THEN spec, of 6] by simp
  with k(1) show ?thesis by blast
qed

text \<open>C18: A config whose file reads and parses and whose connection settings resolve is accepted
  exactly when it has one default entry, every entry is valid and the two sockets differ.\<close>
theorem config_accepted_iff:
  assumes "read_to_string P path = Inr body" and "toml_from_str P body = Inr doc"
    and "resolve_connection P (raw_redis (raw_config_of doc)) = Inr info"
  shows "(\<exists>c. config_load P path = Some (Inr c)) \<longleftrightarrow>
    length (filter is_default (doc_sasl doc)) = 1 \<and> (\<forall>r \<in> set (doc_sasl doc). rule_valid P r) \<and>
    \<not> path_opt_eq (doc_control_socket doc) (Some (doc_socket doc))"
  using config_load_parsed [OF assms] by (auto simp: doc_valid_def length_Suc_conv)

theorem config_accepted_iff_witness: "\<exists>c. config_load ex_platform ''/etc/rl.toml'' = Some (Inr c)"
proof -
  have "read_to_string ex_platform ''/etc/rl.toml'' = Inr ''/etc/rl.toml''"
    "toml_from_str ex_platform ''/etc/rl.toml'' = Inr ex_doc"
    "resolve_connection ex_platform (raw_redis (raw_config_of ex_doc)) = Inr ''redis://localhost''"
    by (simp_all add: ex_platform_def resolve_connection_def raw_config_of_def ex_doc_def)
  from config_accepted_iff [OF this] ex_doc_valid show ?thesis by (simp add: doc_valid_def)
qed

text \<open>C19: An error in the list of entries names the first invalid entry: the index in the error is
  its position in the file, and every entry before it is valid.\<close>
theorem rule_error_names_first_invalid:
  assumes "load_rules P 0 raws [] None = Inl e"
  shows "\<exists>j < length raws. error_index e = Some j \<and> \<not> rule_valid P (raws ! j) \<and> (\<forall>k < j. rule_valid P (raws ! k))"
  using load_rules_error [OF assms] by simp

theorem rule_error_names_first_invalid_witness:
  "error_index (EmptyUsername 1 :: unit config_error) = Some 1
   \<and> \<not> rule_valid ex_platform (RawUsername [] (Some [ex_window]) None)"
proof -
  have e: "load_rules ex_platform 0 [RawDefault None (Some True), RawUsername [] (Some [ex_window]) None] [] None
    = Inl (EmptyUsername 1)" by simp
  from rule_error_names_first_invalid [OF e] show ?thesis by auto
qed



section \<open>Keys\<close>

text \<open>C21: A bucket key determines the identity's kind, its value and the bucket size, for every
  value: no two senders share a key, whatever characters their names have.\<close>
theorem bucket_keys_distinct:
  assumes "bucket_key pre (identity k u) b = bucket_key pre (identity k' v) b'"
    and "CHR '':'' \<notin> set k" and "CHR '':'' \<notin> set k'"
  shows "k = k' \<and> u = v \<and> b = b'"
  using bucket_key_inj_ident [OF assms(1)] identity_inj [OF _ assms(2,3)] by blast

theorem bucket_keys_distinct_witness:
  "''sasl'' = ''sasl'' \<and> ''a:b'' = ''a:b'' \<and> (64 :: u64) = 64"
  by (rule bucket_keys_distinct [of "''p''" "''sasl''" "''a:b''" 64 "''sasl''" "''a:b''" 64]) simp_all

end
