(* ===== verification/Journal.thy ===== *)
theory Journal
  imports Tasks_Correct
begin

text \<open>
  What the journal of a run says: the periodic reports, with the counters that are still to be
  reported, account for every event (\<open>report_stats\<close>), and the throttled messages stay few
  (\<open>log_throttled\<close>), however reports, reloads and the tasks of the connections interleave.
\<close>

section \<open>Reading the journal\<close>

text \<open>The sum of the counters at place \<open>i\<close> of the reports, and the number of reports.\<close>

fun reported :: "nat \<Rightarrow> log_line list \<Rightarrow> u64" where
  "reported i [] = 0"
| "reported i (Stats_Line secs values gauge # J) = values ! i + reported i J"
| "reported i (_ # J) = reported i J"

definition lines_of :: "(log_line \<Rightarrow> bool) \<Rightarrow> log_line list \<Rightarrow> nat" where
  "lines_of K J = length (filter K J)"

definition answered :: "string \<Rightarrow> answer list \<Rightarrow> nat" where
  "answered action A = length (filter (\<lambda>(t, u, n, a). a = action) A)"

lemma reported_append [simp]: "reported i (J @ J') = reported i J + reported i J'"
  by (induction i J rule: reported.induct) (simp_all add: add.assoc)

lemma reported_unless: "\<not> is_Stats_Line l \<Longrightarrow> reported i [l] = 0"
  by (cases l) simp_all

lemma lines_of_simps [simp]:
  "lines_of K [] = 0" "lines_of K (l # J) = (if K l then 1 else 0) + lines_of K J"
  "lines_of K (J @ J') = lines_of K J + lines_of K J'"
  by (simp_all add: lines_of_def)

lemma answered_simps [simp]:
  "answered action [] = 0" "answered action (A @ A') = answered action A + answered action A'"
  "answered action [(t, u, n, a)] = (if a = action then 1 else 0)"
  by (simp_all add: answered_def)

lemma report_stats_lines:
  assumes "report_stats k st = (ls, st')"
  shows "st' = zero_stats" and "ls = [Stats_Line (as_secs STATS_INTERVAL)
    [accepted st, rejected st, failed_deferred st, failed_permitted st, unauthenticated st,
     malformed st, connections_accepted st, connections_rejected st, accept_errors st] k]"
  using assms by (auto simp: report_stats_def zero_stats_def)

section \<open>What a decision does\<close>

lemma log_throttled_cases:
  assumes "log_throttled c kind line = (k, ls)"
  obtains "k = c + 1" and "ls = [line]" and "c < LOG_SUPPRESSION_LIMIT"
  | "k = c + 1" and "ls = [Suppressing kind]" and "c = LOG_SUPPRESSION_LIMIT"
  | "k = c + 1" and "ls = []" and "LOG_SUPPRESSION_LIMIT < c"
  using assms by (auto simp: log_throttled_def split: if_splits)

lemma handle_request_ways:
  assumes h: "handle_request tests P V codec net req c lm st s = (action, ls, st', s')"
  obtains (miswired) line k where "checkable req = None" and "action = ACTION_MISCONFIGURED"
      and "log_throttled (misconfigured st) WIRING line = (k, ls)" and "st' = st\<lparr>misconfigured := k\<rparr>"
      and "is_Unexpected_Protocol_State line \<or> is_No_Recipient_Count line"
  | (anonymous) "checkable req = None" and "action = ACTION_DUNNO" and "ls = []"
      and "st' = st\<lparr>unauthenticated := unauthenticated st + 1\<rparr>"
  | (warned) k where "checkable req = None" and "action = ACTION_DUNNO"
      and "log_throttled (unauthenticated st) ''unauthenticated request'' No_Sasl_Username = (k, ls)"
      and "st' = st\<lparr>unauthenticated := k\<rparr>"
  | (accepting) user n where "checkable req = Some (user, n)" and "action = ACTION_DUNNO"
      and "ls = [Accepted_Message user n]" and "st' = st\<lparr>accepted := accepted st + 1\<rparr>"
  | (rejecting) user n where "checkable req = Some (user, n)" and "action = ACTION_RATE_LIMITED"
      and "ls = [Rejected_Message user n]" and "st' = st\<lparr>rejected := rejected st + 1\<rparr>"
  | (deferring) user n err k where "checkable req = Some (user, n)" and "action = ACTION_SERVICE_UNAVAILABLE"
      and "log_throttled (failed_deferred st) ''valkey error checking rate limit'' (Valkey_Error user err) = (k, ls)"
      and "st' = st\<lparr>failed_deferred := k\<rparr>"
  | (permitting) user n err k where "checkable req = Some (user, n)" and "action = ACTION_DUNNO"
      and "log_throttled (failed_permitted st) ''valkey error checking rate limit'' (Valkey_Error user err) = (k, ls)"
      and "st' = st\<lparr>failed_permitted := k\<rparr>"
proof (cases "checkable req")
  case None
  then show thesis using h that(1-3)
    by (auto simp: handle_request_def checkable_def split: if_splits option.splits prod.splits)
next
  case (Some un)
  obtain user n where un: "un = (user, n)" by (cases un)
  obtain r s1 where r: "check_sasl (V (connection_manager lm)) codec net (limiter_key_prefix lm) user n
      (plan_for P c user) (now_override tests req) s = (r, s1)" by (metis prod.exhaust)
  have "\<not> (case protocol_state req of None \<Rightarrow> False | Some state \<Rightarrow> state \<notin> set EXPECTED_PROTOCOL_STATES)"
    "sasl_username req = Some user" "recipient_count req = Some n"
    using Some un by (auto simp: checkable_def split: if_splits option.splits)
  note way = h [unfolded handle_request_def if_not_P [OF this(1)] this(2,3) option.case r prod.case]
  show thesis
  proof (cases r)
    case (Inr b)
    then show thesis using way that(4,5) Some un by (cases b) auto
  next
    case (Inl err)
    then show thesis using way that(6,7) Some un by (cases "on_redis_error c") (auto split: prod.splits)
  qed
qed

section \<open>The reports account for every event\<close>

text \<open>Each counter, with what was reported of it, is the number of its events so far.\<close>

definition accounted :: "('ci, 're, 'cn, 's, 'r) daemon \<Rightarrow> bool" where
  "accounted d \<longleftrightarrow>
     reported 0 (journal d) + accepted (counters d) = of_nat (lines_of is_Accepted_Message (journal d)) \<and>
     reported 1 (journal d) + rejected (counters d) = of_nat (answered ACTION_RATE_LIMITED (answers d)) \<and>
     reported 2 (journal d) + failed_deferred (counters d) = of_nat (answered ACTION_SERVICE_UNAVAILABLE (answers d)) \<and>
     reported 3 (journal d) + failed_permitted (counters d)
       = of_nat (answered ACTION_DUNNO (answers d)) - of_nat (lines_of is_Accepted_Message (journal d)) \<and>
     reported 5 (journal d) + malformed (counters d) = of_nat (lines_of is_Request_Read_Error (journal d)) \<and>
     reported 8 (journal d) + accept_errors (counters d) = of_nat (lines_of ((=) Accept_Error) (journal d))"

definition moved :: "stats \<Rightarrow> stats \<Rightarrow> log_line list \<Rightarrow> answer list \<Rightarrow> bool" where
  "moved st st' ls A \<longleftrightarrow>
     (\<forall>i. reported i ls = 0) \<and>
     accepted st' = accepted st + of_nat (lines_of is_Accepted_Message ls) \<and>
     rejected st' = rejected st + of_nat (answered ACTION_RATE_LIMITED A) \<and>
     failed_deferred st' = failed_deferred st + of_nat (answered ACTION_SERVICE_UNAVAILABLE A) \<and>
     failed_permitted st'
       = failed_permitted st + (of_nat (answered ACTION_DUNNO A) - of_nat (lines_of is_Accepted_Message ls)) \<and>
     malformed st' = malformed st + of_nat (lines_of is_Request_Read_Error ls) \<and>
     accept_errors st' = accept_errors st + of_nat (lines_of ((=) Accept_Error) ls)"

lemma accounted_moved:
  assumes "accounted d" and "moved (counters d) (counters d') ls A"
    and "journal d' = journal d @ ls" and "answers d' = answers d @ A"
  shows "accounted d'"
  using assms unfolding accounted_def moved_def by (simp flip: add.assoc)

lemma accounted_reported:
  assumes "accounted d" and "report_stats k (counters d) = (ls, counters d')"
    and "journal d' = journal d @ ls" and "answers d' = answers d"
  shows "accounted d'"
  using assms(1,3,4) unfolding report_stats_lines(2) [OF assms(2)] accounted_def report_stats_lines(1) [OF assms(2)]
  by (simp add: zero_stats_def)

lemma throttled_moved:
  assumes "log_throttled c kind line = (k, ls)"
    and "\<not> is_Stats_Line line" "\<not> is_Accepted_Message line" "\<not> is_Request_Read_Error line" "line \<noteq> Accept_Error"
  shows "reported i ls = 0" and "lines_of is_Accepted_Message ls = 0" and "lines_of is_Request_Read_Error ls = 0"
    and "lines_of ((=) Accept_Error) ls = 0" and "k = c + 1"
  by (cases rule: log_throttled_cases [OF assms(1)]; use assms(2-) reported_unless in force)+

lemma handle_request_moved:
  assumes "handle_request tests P V codec net req c lm st s = (action, ls, st', s')"
  shows "moved st st' ls (case checkable req of None \<Rightarrow> [] | Some (user, n) \<Rightarrow> [(t, user, unat n, action)])"
proof (cases rule: handle_request_ways [OF assms])
  case (1 line k)
  then have "\<not> is_Stats_Line line" "\<not> is_Accepted_Message line" "\<not> is_Request_Read_Error line" "line \<noteq> Accept_Error"
    by (cases line; simp)+
  from throttled_moved [OF 1(3) this] 1 show ?thesis by (simp add: moved_def)
next
  case (3 k)
  from throttled_moved [OF 3(3)] 3 show ?thesis by (simp add: moved_def)
next
  case (6 user n err k)
  from throttled_moved [OF 6(3)] 6 show ?thesis by (simp add: moved_def)
next
  case (7 user n err k)
  from throttled_moved [OF 7(3)] 7 show ?thesis by (simp add: moved_def)
qed (simp_all add: moved_def)

lemma admit_connection_moved:
  assumes "admit_connection kind k st = (n, st', ls, spawned)"
  shows "moved st st' ls []"
  using assms
  by (auto simp: admit_connection_def log_throttled_def moved_def Let_def split: connection_kind.splits if_splits)

lemma accept_failed_moved:
  assumes "accept_failed kind st = (st', ls)"
  shows "moved st st' ls []"
  using assms by (auto simp: accept_failed_def moved_def split: connection_kind.splits)

lemma unwritten_lines:
  assumes "\<forall>l \<in> set ls. is_Response_Write_Error l"
  shows "reported i ls = 0" and "(\<And>err. \<not> K (Response_Write_Error err)) \<Longrightarrow> lines_of K ls = 0"
  using assms by (induction ls) (auto simp: is_Response_Write_Error_def)

text \<open>A step of the tasks is a report or adds its events, the time and the connections apart.\<close>

lemma task_step_journal:
  fixes x y :: "('ci, 're, 'cn, 's, 'r) tasks"
  assumes "task_step P C V codec rd L path hash deadline clock serves x y"
  obtains (reported) ls where "report_stats (active (shared x)) (counters (shared x)) = (ls, counters (shared y))"
      and "journal (shared y) = journal (shared x) @ ls" and "answers (shared y) = answers (shared x)"
  | (decided) net req and current :: "('ci, 're, 'cn) runtime_state" and t action ls s' where
      "handle_request False P V codec net req (config_of_state current) (limiter_of_state current)
        (counters (shared x)) (server (shared x)) = (action, ls, counters (shared y), s')"
      and "journal (shared y) = journal (shared x) @ ls"
      and "answers (shared y) = answers (shared x)
        @ (case checkable req of None \<Rightarrow> [] | Some (user, n) \<Rightarrow> [(t, user, unat n, action)])"
  | (admitted) kind n ls spawned where
      "admit_connection kind (active (shared x)) (counters (shared x)) = (n, counters (shared y), ls, spawned)"
      and "journal (shared y) = journal (shared x) @ ls" and "answers (shared y) = answers (shared x)"
  | (failed) kind ls where "accept_failed kind (counters (shared x)) = (counters (shared y), ls)"
      and "journal (shared y) = journal (shared x) @ ls" and "answers (shared y) = answers (shared x)"
  | (malformed) err where "journal (shared y) = journal (shared x) @ [Request_Read_Error err]"
      and "counters (shared y) = (counters (shared x))\<lparr>malformed := malformed (counters (shared x)) + 1\<rparr>"
      and "answers (shared y) = answers (shared x)"
  | (unwritten) ls where "journal (shared y) = journal (shared x) @ ls" and "\<forall>l \<in> set ls. is_Response_Write_Error l"
      and "counters (shared y) = counters (shared x)" and "answers (shared y) = answers (shared x)"
  using assms
proof cases
  case (background d')
  from background(3) show thesis by cases (use that(1) that(6) [of "[]"] background(1) in auto)
next
  case (accepted i kind r)
  obtain n st ls spawned where a: "admit_connection kind (active (shared x)) (counters (shared x)) = (n, st, ls, spawned)"
    by (metis prod.exhaust)
  show thesis by (rule that(3) [of kind n ls spawned])
      (use a accepted(1) in \<open>auto simp: accept_connection_def Let_def split: connection_kind.splits\<close>)
next
  case (accept_fails kind st ls)
  then show thesis using that(4) [of kind ls] by simp
next
  case (reads i r)
  then show thesis using that(5) that(6) [of "[]"]
    by (auto simp: read_step_def split: option.splits sum.splits)
next
  case (decides i current req net)
  obtain action ls st s' where h: "handle_request False P V codec net req (config_of_state current)
      (limiter_of_state current) (counters (shared x)) (server (shared x)) = (action, ls, st, s')" by (metis prod.exhaust)
  show thesis
    by (rule that(2) [of net req current action ls s' "clock (server (shared x))"])
      (use h decides(1) in \<open>auto simp: decide_def Let_def split: option.splits\<close>)
next
  case (replies i action fails)
  show thesis
    by (rule that(6) [of "case fails of None \<Rightarrow> [] | Some err \<Rightarrow> [Response_Write_Error err]"])
      (use replies(1) in \<open>auto simp: reply_def split: option.splits\<close>)
next
  case (controls is_cancelled write_fails i d')
  then show thesis using that(6) [of "[]"] by (auto simp: control_serve_def split: option.splits turn.splits)
qed (use that(6) [of "[]"] in auto)

lemma accounted_step:
  assumes "task_step P C V codec rd L path hash deadline clock serves x y" and ok: "accounted (shared x)"
  shows "accounted (shared y)"
proof (cases rule: task_step_journal [OF assms(1)])
  case (1 ls)
  then show ?thesis using accounted_reported [OF ok] by blast
next
  case (2 net req current t action ls s')
  show ?thesis by (rule accounted_moved [OF ok handle_request_moved [OF 2(1)] 2(2,3)])
next
  case (3 kind n ls spawned)
  show ?thesis by (rule accounted_moved [OF ok admit_connection_moved [OF 3(1)] 3(2)]) (simp add: 3)
next
  case (4 kind ls)
  show ?thesis by (rule accounted_moved [OF ok accept_failed_moved [OF 4(1)] 4(2)]) (simp add: 4)
next
  case (5 err)
  show ?thesis by (rule accounted_moved [OF ok _ 5(1), of "[]"]) (simp_all add: 5 moved_def)
next
  case (6 ls)
  show ?thesis
    by (rule accounted_moved [OF ok _ 6(1), of "[]"]) (simp_all add: 6 moved_def unwritten_lines [OF 6(2)])
qed

lemma accounted_steps:
  "(task_step P C V codec rd L path hash deadline clock serves)\<^sup>*\<^sup>* x y \<Longrightarrow> accounted (shared x) \<Longrightarrow>
    accounted (shared y)"
  by (induction rule: rtranclp_induct) (auto intro: accounted_step)

section \<open>Throttled messages\<close>

text \<open>How many of its messages, and of its notices, a counter has let through since the last report.\<close>

definition quota :: "u64 \<Rightarrow> nat" where
  "quota c = min 5 (unat c)"

definition notices :: "u64 \<Rightarrow> nat" where
  "notices c = (if 5 < unat c then 1 else 0)"

definition is_miswired :: "log_line \<Rightarrow> bool" where
  "is_miswired l \<longleftrightarrow> is_Unexpected_Protocol_State l \<or> is_No_Recipient_Count l"

text \<open>\<open>n\<close> bounds the counters: they do not wrap around within \<open>2 ^ 64\<close> steps.\<close>

definition throttled :: "nat \<Rightarrow> ('ci, 're, 'cn, 's, 'r) daemon \<Rightarrow> bool" where
  "throttled n d \<longleftrightarrow>
     (let st = counters d; J = journal d; reports = lines_of is_Stats_Line J
      in (\<forall>c \<in> {misconfigured, unauthenticated, failed_deferred, failed_permitted, connections_rejected}. unat (c st) \<le> n) \<and>
         lines_of is_miswired J \<le> 5 * reports + quota (misconfigured st) \<and>
         lines_of ((=) No_Sasl_Username) J \<le> 5 * reports + quota (unauthenticated st) \<and>
         lines_of ((=) At_Connection_Limit) J \<le> 5 * reports + quota (connections_rejected st) \<and>
         lines_of is_Valkey_Error J \<le> 10 * reports + (quota (failed_deferred st) + quota (failed_permitted st)) \<and>
         lines_of is_Suppressing J \<le> 5 * reports + (notices (misconfigured st) + notices (unauthenticated st)
           + notices (failed_deferred st) + notices (failed_permitted st) + notices (connections_rejected st)))"

lemma quota_0 [simp]: "quota 0 = 0" "notices 0 = 0"
  by (simp_all add: quota_def notices_def)

lemma quota_le: "quota c \<le> 5" "notices c \<le> 1"
  by (simp_all add: quota_def notices_def)

lemma log_throttled_quota:
  assumes "log_throttled c kind line = (k, ls)" and "unat c \<le> n" and "n < 2 ^ 64 - 1"
    and "\<not> is_Stats_Line line" and "\<not> is_Suppressing line"
  shows "unat k \<le> Suc n" and "lines_of is_Stats_Line ls = 0"
    and "\<not> K (Suppressing kind) \<Longrightarrow> lines_of K ls + quota c \<le> quota k"
    and "\<not> K (Suppressing kind) \<Longrightarrow> \<not> K line \<Longrightarrow> lines_of K ls = 0"
    and "lines_of is_Suppressing ls + notices c \<le> notices k"
proof -
  have "unat (c + 1) = Suc (unat c)" using assms(2,3) by (simp add: unat_word_ariths)
  moreover have "c < 5 \<longleftrightarrow> unat c < 5" "c = 5 \<longleftrightarrow> unat c = 5" "5 < c \<longleftrightarrow> 5 < unat c"
    by (simp_all add: word_less_nat_alt word_unat_eq_iff)
  ultimately show "unat k \<le> Suc n" "lines_of is_Stats_Line ls = 0"
    "\<not> K (Suppressing kind) \<Longrightarrow> lines_of K ls + quota c \<le> quota k"
    "\<not> K (Suppressing kind) \<Longrightarrow> \<not> K line \<Longrightarrow> lines_of K ls = 0"
    "lines_of is_Suppressing ls + notices c \<le> notices k"
    using assms by (cases rule: log_throttled_cases [OF assms(1)];
        simp add: LOG_SUPPRESSION_LIMIT_def quota_def notices_def)+
qed

lemma throttled_Suc: "throttled n d \<Longrightarrow> throttled (Suc n) d"
  by (auto simp: throttled_def Let_def)

text \<open>A step that moves one throttled counter, or none.\<close>

lemma throttled_quiet:
  assumes "throttled n d" and "journal d' = journal d @ ls"
    and "\<forall>c \<in> {misconfigured, unauthenticated, failed_deferred, failed_permitted, connections_rejected}.
      c (counters d') = c (counters d)"
    and "\<forall>K \<in> {is_Stats_Line, is_miswired, (=) No_Sasl_Username, (=) At_Connection_Limit, is_Valkey_Error, is_Suppressing}.
      lines_of K ls = 0"
  shows "throttled (Suc n) d'"
  using throttled_Suc [OF assms(1)] assms(2-4) by (simp add: throttled_def Let_def)

lemma throttled_counters:
  assumes "throttled n d"
  shows "unat (misconfigured (counters d)) \<le> n" and "unat (unauthenticated (counters d)) \<le> n"
    and "unat (failed_deferred (counters d)) \<le> n" and "unat (failed_permitted (counters d)) \<le> n"
    and "unat (connections_rejected (counters d)) \<le> n"
  using assms by (auto simp: throttled_def Let_def)

lemma throttled_bounds:
  assumes "throttled n d"
  defines "intervals \<equiv> lines_of is_Stats_Line (journal d) + 1"
  shows "lines_of is_miswired (journal d) \<le> 5 * intervals"
    and "lines_of ((=) No_Sasl_Username) (journal d) \<le> 5 * intervals"
    and "lines_of ((=) At_Connection_Limit) (journal d) \<le> 5 * intervals"
    and "lines_of is_Valkey_Error (journal d) \<le> 10 * intervals"
    and "lines_of is_Suppressing (journal d) \<le> 5 * intervals"
  using assms(1) quota_le [of "misconfigured (counters d)"] quota_le [of "unauthenticated (counters d)"]
    quota_le [of "failed_deferred (counters d)"] quota_le [of "failed_permitted (counters d)"]
    quota_le [of "connections_rejected (counters d)"]
  by (simp_all add: throttled_def Let_def intervals_def)

lemma throttled_reported:
  assumes ok: "throttled n d" and "report_stats k (counters d) = (ls, counters d')" and "journal d' = journal d @ ls"
  shows "throttled (Suc n) d'"
proof -
  have "lines_of K (journal d') = lines_of K (journal d) + lines_of K ls"
    "lines_of is_Stats_Line ls = 1" "lines_of is_miswired ls = 0" "lines_of ((=) No_Sasl_Username) ls = 0"
    "lines_of ((=) At_Connection_Limit) ls = 0" "lines_of is_Valkey_Error ls = 0" "lines_of is_Suppressing ls = 0" for K
    using report_stats_lines(2) [OF assms(2)] assms(3) by (simp_all add: is_miswired_def)
  then show ?thesis
    using throttled_bounds [OF ok] by (simp add: throttled_def Let_def report_stats_lines(1) [OF assms(2)] zero_stats_def)
qed

lemma throttled_decided:
  assumes ok: "throttled n d" and n: "n < 2 ^ 64 - 1"
    and "handle_request tests P V codec net req c lm (counters d) s = (action, ls, counters d', s')"
    and J: "journal d' = journal d @ ls"
  shows "throttled (Suc n) d'"
proof (cases rule: handle_request_ways [OF assms(3)])
  case (1 line k)
  then have "\<not> is_Stats_Line line" "\<not> is_Suppressing line" "line \<noteq> No_Sasl_Username" "line \<noteq> At_Connection_Limit"
    "\<not> is_Valkey_Error line" by (cases line; simp)+
  note q = log_throttled_quota [OF 1(3) throttled_counters(1) [OF ok] n this(1,2)] and l = this
  from throttled_Suc [OF ok] q(1,2,5) q(3) [of is_miswired] q(4) [of "(=) No_Sasl_Username"]
    q(4) [of "(=) At_Connection_Limit"] q(4) [of is_Valkey_Error] l
  show ?thesis by (simp add: throttled_def Let_def J 1(4) is_miswired_def)
next
  case (3 k)
  note q = log_throttled_quota [OF 3(3) throttled_counters(2) [OF ok] n]
  from throttled_Suc [OF ok] q(1,2,5) q(3) [of "(=) No_Sasl_Username"] q(4) [of is_miswired]
    q(4) [of "(=) At_Connection_Limit"] q(4) [of is_Valkey_Error]
  show ?thesis by (simp add: throttled_def Let_def J 3(4) is_miswired_def)
next
  case (6 user m err k)
  note q = log_throttled_quota [OF 6(3) throttled_counters(3) [OF ok] n]
  from throttled_Suc [OF ok] q(1,2,5) q(3) [of is_Valkey_Error] q(4) [of is_miswired]
    q(4) [of "(=) At_Connection_Limit"] q(4) [of "(=) No_Sasl_Username"]
  show ?thesis by (simp add: throttled_def Let_def J 6(4) is_miswired_def)
next
  case (7 user m err k)
  note q = log_throttled_quota [OF 7(3) throttled_counters(4) [OF ok] n]
  from throttled_Suc [OF ok] q(1,2,5) q(3) [of is_Valkey_Error] q(4) [of is_miswired]
    q(4) [of "(=) At_Connection_Limit"] q(4) [of "(=) No_Sasl_Username"]
  show ?thesis by (simp add: throttled_def Let_def J 7(4) is_miswired_def)
next
  case 2
  let ?c = "unauthenticated (counters d)"
  have c: "unat (?c + 1) = Suc (unat ?c)" using throttled_counters(2) [OF ok] n by (simp add: unat_word_ariths)
  then have "quota ?c \<le> quota (?c + 1)" "notices ?c \<le> notices (?c + 1)" by (simp_all add: quota_def notices_def)
  then show ?thesis using throttled_Suc [OF ok] throttled_counters(2) [OF ok] by (simp add: throttled_def Let_def J 2 c)
qed (rule throttled_quiet [OF ok J]; simp add: is_miswired_def)+

lemma throttled_admitted:
  assumes ok: "throttled n d" and n: "n < 2 ^ 64 - 1"
    and a: "admit_connection kind g (counters d) = (m, counters d', ls, spawned)" and J: "journal d' = journal d @ ls"
  shows "throttled (Suc n) d'"
proof (cases "kind = Policy \<and> MAX_CONNECTIONS \<le> g")
  case True
  then obtain k where k: "log_throttled (connections_rejected (counters d)) ''concurrent connection limit rejection''
      At_Connection_Limit = (k, ls)" "counters d' = (counters d)\<lparr>connections_rejected := k\<rparr>"
    using a by (auto simp: admit_connection_def Let_def split: prod.splits)
  note q = log_throttled_quota [OF k(1) throttled_counters(5) [OF ok] n]
  from throttled_Suc [OF ok] q(1,2,5) q(3) [of "(=) At_Connection_Limit"] q(4) [of is_miswired]
    q(4) [of is_Valkey_Error] q(4) [of "(=) No_Sasl_Username"]
  show ?thesis by (simp add: throttled_def Let_def J k(2) is_miswired_def)
next
  case False
  then have "counters d' \<in> {counters d, (counters d)\<lparr>connections_accepted := connections_accepted (counters d) + 1\<rparr>}"
    using a by (auto simp: admit_connection_def Let_def split: connection_kind.splits if_splits)
  moreover have "ls \<in> {[], [Control_At_Connection_Limit]}"
    using a False by (auto simp: admit_connection_def Let_def split: connection_kind.splits if_splits)
  ultimately show ?thesis by (intro throttled_quiet [OF ok J]) (auto simp: is_miswired_def)
qed

lemma throttled_step:
  assumes "task_step P C V codec rd L path hash deadline clock serves x y" and ok: "throttled n (shared x)"
    and n: "n < 2 ^ 64 - 1"
  shows "throttled (Suc n) (shared y)"
proof (cases rule: task_step_journal [OF assms(1)])
  case (1 ls)
  then show ?thesis using throttled_reported [OF ok] by blast
next
  case (2 net req current t action ls s')
  show ?thesis by (rule throttled_decided [OF ok n 2(1,2)])
next
  case (3 kind m ls spawned)
  show ?thesis by (rule throttled_admitted [OF ok n 3(1,2)])
next
  case (4 kind ls)
  show ?thesis
    by (rule throttled_quiet [OF ok 4(2)]; use 4(1) in \<open>cases kind\<close>)
      (auto simp: accept_failed_def is_miswired_def dest: sym)
next
  case (5 err)
  show ?thesis by (rule throttled_quiet [OF ok 5(1)]) (simp_all add: 5 is_miswired_def)
next
  case (6 ls)
  show ?thesis
    by (rule throttled_quiet [OF ok 6(1)]) (simp_all add: 6 unwritten_lines(2) [OF 6(2)] is_miswired_def)
qed

lemma throttled_steps:
  "((task_step P C V codec rd L path hash deadline clock serves) ^^ n) x y \<Longrightarrow> n < 2 ^ 64 \<Longrightarrow> throttled 0 (shared x) \<Longrightarrow>
    throttled n (shared y)"
proof (induction n arbitrary: y)
  case (Suc n)
  then show ?case by (auto intro!: throttled_step)
qed simp

end
