(* ===== verification/Request_Properties.thy ===== *)
theory Request_Properties
  imports Example Journal
begin

text \<open>
  The properties of the request path: reading a request (Protocol), and the decision, the counters
  and the log lines that it leads to (Daemon).
\<close>

section \<open>Requests\<close>

text \<open>C22: A request that Postfix writes within the size cap is read back as its attributes, the last
  value of a repeated name winning, and exactly its bytes are consumed: the next request on the
  connection starts where this one ended.\<close>
theorem read_from_roundtrip:
  assumes "line_reader read_line pending healthy" and "healthy r"
    and "pending r = encode_request kvs @ rest" and "\<forall>kv \<in> set kvs. attribute_ok kv"
    and "length (encode_request kvs) \<le> MAX_REQUEST_BYTES"
  shows "\<exists>r'. read_from read_line r = Some (Inr (Some \<lparr>attributes = map_of (rev kvs)\<rparr>), r') \<and> pending r' = rest"
  using line_reader.read_loop_encoded [OF assms(1-3,5,4), of Map.empty] by (auto simp: read_from_def)

theorem read_from_roundtrip_witness:
  "\<exists>r'. read_from buffer_read_line (encode_request ex_attributes @ ''request=x'')
    = Some (Inr (Some \<lparr>attributes = map_of (rev ex_attributes)\<rparr>), r') \<and> r' = ''request=x''"
  by (rule read_from_roundtrip [OF buffer.line_reader_axioms]) (use ex_request in \<open>auto simp: MAX_REQUEST_BYTES_def\<close>)

text \<open>C23: A peer that never sends an empty line gets an error once the cap is reached, an error when
  it closes inside a line, and a clean close only when it closes between lines.\<close>
theorem read_from_unfinished:
  assumes "line_reader read_line pending healthy" and "healthy r"
    and "blank_free (take MAX_REQUEST_BYTES (pending r))"
  shows "\<exists>r'. read_from read_line r = Some
    (if MAX_REQUEST_BYTES \<le> length (pending r) then Inl InvalidData
     else if pending r = [] \<or> last (pending r) = CHR 0x0A then Inr None
     else Inl UnexpectedEof, r')"
  unfolding read_from_def
  using line_reader.read_loop_blank_free [OF assms(1,3,2) refl, of Map.empty] by simp

theorem read_from_unfinished_witness:
  "\<exists>r'. read_from buffer_read_line ''sasl_username=ann'' = Some (Inl UnexpectedEof, r')"
  using read_from_unfinished [OF buffer.line_reader_axioms, of "''sasl_username=ann''"]
  by (simp add: MAX_REQUEST_BYTES_def blank_free.last_part)



text \<open>C25: The sender's name is what is left of the attribute between white space at both ends, is
  never empty, and starts and ends with no white space of its own.\<close>
theorem sasl_username_trimmed:
  assumes "sasl_username req = Some u"
  shows "u \<noteq> [] \<and> leading WHITE_SPACE u = None \<and> leading (map rev WHITE_SPACE) (rev u) = None \<and>
    (\<exists>v before after. attributes req ''sasl_username'' = Some v \<and> v = before @ u @ after)"
proof -
  from assms obtain v where v: "attributes req ''sasl_username'' = Some v" "u = trim v" "u \<noteq> []"
    by (auto simp: sasl_username_def split: option.splits if_splits)
  obtain p q where "v = p @ trim v @ q" "leading WHITE_SPACE (trim v) = None"
    "leading (map rev WHITE_SPACE) (rev (trim v)) = None" by (rule trim_clean [of v])
  then show ?thesis using v by metis
qed

theorem sasl_username_trimmed_witness: "leading WHITE_SPACE ''ann'' = None \<and> ''ann'' \<noteq> []"
proof -
  have "sasl_username \<lparr>attributes = Map.empty ++ map_of (rev ex_attributes)\<rparr> = Some ''ann''"
    using ex_checkable by (auto simp: checkable_def split: if_splits option.splits)
  from sasl_username_trimmed [OF this] show ?thesis by blast
qed

section \<open>Decisions, counters and the journal\<close>

text \<open>C26: When a request is answered \<open>dunno\<close>: it has an expected protocol state and no sender, or its
  check was answered with acceptance, or its check failed and the config permits on failure. A
  request that does not reach the limiter leaves the server alone.\<close>
theorem dunno_exactly_when:
  assumes "handle_request tests P V codec net req c lm st s = (action, ls, st', s')"
  shows "(action = ACTION_DUNNO \<longleftrightarrow>
      (protocol_state req = None \<or> protocol_state req \<in> {Some ''DATA'', Some ''END-OF-MESSAGE''}) \<and>
      (sasl_username req = None \<or>
       (\<exists>u n r. checkable req = Some (u, n) \<and>
          r = fst (check_sasl (V (connection_manager lm)) codec net (limiter_key_prefix lm) u n
                (plan_for P c u) (now_override tests req) s) \<and>
          (r = Inr True \<or> (\<exists>e. r = Inl e) \<and> on_redis_error c = Permit))))
    \<and> (checkable req = None \<longrightarrow> s' = s)"
proof (cases "checkable req")
  case None
  then show ?thesis using assms handle_request_unchecked [OF None assms]
    by (auto simp: handle_request_def checkable_def log_throttled_def EXPECTED_PROTOCOL_STATES_def
        split: if_splits option.splits)
next
  case (Some un)
  obtain u n where un: "un = (u, n)" by (cases un)
  have state: "protocol_state req = None \<or> protocol_state req \<in> {Some ''DATA'', Some ''END-OF-MESSAGE''}"
    "sasl_username req \<noteq> None"
    using Some by (auto simp: checkable_def EXPECTED_PROTOCOL_STATES_def split: if_splits option.splits)
  obtain r where r: "check_sasl (V (connection_manager lm)) codec net (limiter_key_prefix lm) u n
      (plan_for P c u) (now_override tests req) s = (r, s')"
    and action: "action = (case r of Inr True \<Rightarrow> ACTION_DUNNO | Inr False \<Rightarrow> ACTION_RATE_LIMITED
        | Inl e \<Rightarrow> (case on_redis_error c of Defer \<Rightarrow> ACTION_SERVICE_UNAVAILABLE | Permit \<Rightarrow> ACTION_DUNNO))"
    using handle_request_checked [OF Some [unfolded un] assms] by blast
  have "action = ACTION_DUNNO \<longleftrightarrow> r = Inr True \<or> (\<exists>e. r = Inl e) \<and> on_redis_error c = Permit"
    unfolding action by (cases r; cases "on_redis_error c") (auto split: bool.split)
  then show ?thesis using r Some state by (auto simp: un)
qed

theorem dunno_exactly_when_witness:
  "fst (handle_request False ex_platform ex_commands text_codec Request_Lost \<lparr>attributes = Map.empty\<rparr> ex_config
     (limiter_of_state ex_runtime) zero_stats (empty_store 0)) = ACTION_DUNNO"
proof -
  obtain a ls st s' where h: "handle_request False ex_platform ex_commands text_codec Request_Lost
      \<lparr>attributes = Map.empty\<rparr> ex_config (limiter_of_state ex_runtime) zero_stats (empty_store 0) = (a, ls, st, s')"
    by (metis prod.exhaust)
  from dunno_exactly_when [OF h] show ?thesis by (simp add: h protocol_state_def sasl_username_def)
qed

text \<open>C27: However requests, connections, reloads and reports interleave, the reports account for every
  event: what they printed of a counter, with what it holds now, is the number of its events so
  far - messages accepted, answers that refuse, that defer after an error, that permit, requests
  that could not be read, failures to accept. Counters are modulo \<open>2 ^ 64\<close>.\<close>
theorem reports_account_for_every_event:
  assumes "(task_step P C V codec rd L path hash deadline clock serves)\<^sup>*\<^sup>* (boot rt s) y"
  defines "J \<equiv> journal (shared y)" and "st \<equiv> counters (shared y)" and "A \<equiv> answers (shared y)"
  shows "reported 0 J + accepted st = of_nat (lines_of is_Accepted_Message J)
    \<and> reported 1 J + rejected st = of_nat (answered ACTION_RATE_LIMITED A)
    \<and> reported 2 J + failed_deferred st = of_nat (answered ACTION_SERVICE_UNAVAILABLE A)
    \<and> reported 0 J + accepted st + (reported 3 J + failed_permitted st) = of_nat (answered ACTION_DUNNO A)
    \<and> reported 5 J + malformed st = of_nat (lines_of is_Request_Read_Error J)
    \<and> reported 8 J + accept_errors st = of_nat (lines_of ((=) Accept_Error) J)"
proof -
  have "accounted (shared (boot rt s))" by (simp add: accounted_def boot_def zero_stats_def)
  from accounted_steps [OF assms(1) this] show ?thesis by (simp add: accounted_def J_def st_def A_def)
qed

theorem reports_account_for_every_event_witness:
  "\<exists>y. ex_step\<^sup>*\<^sup>* (boot ex_runtime (empty_store 1000)) y
    \<and> reported 1 (journal (shared y)) + rejected (counters (shared y)) = 1
    \<and> reported 0 (journal (shared y)) + accepted (counters (shared y))
        + (reported 3 (journal (shared y)) + failed_permitted (counters (shared y))) = 1"
proof -
  obtain y where y: "ex_run_within False ex_tasks y" "shared y = ex_turn (ex_turn ex_daemon)" by (rule ex_schedule)
  have run: "ex_step\<^sup>*\<^sup>* (boot ex_runtime (empty_store 1000)) y"
    using converse_rtranclp_into_rtranclp [OF ex_accepted run_within_steps [OF y(1), folded ex_cli_path]] by simp
  from reports_account_for_every_event [OF run] run show ?thesis by (auto simp: y(2) ex_second(2) answered_def)
qed



end
