(* ===== verification/Lifecycle_Properties.thy ===== *)
theory Lifecycle_Properties
  imports Example
begin

text \<open>
  The properties of the daemon's life apart from requests: reloads and SIGHUP (Reload, Hangup), the
  start (Command_Line, Startup), and the sockets it binds.
\<close>

section \<open>Reloading and starting\<close>



text \<open>C30: A reload never panics and is all or nothing: on any error the state is the old one; otherwise
  the state is the freshly loaded config, whose sockets are those already bound, with a limiter
  of that config's prefix.\<close>
theorem reload_all_or_nothing:
  "\<exists>err state'. reload_config P C V s path state = Some (err, state') \<and>
    (if err \<noteq> None then state' = state
     else config_load P path = Some (Inr (config_of_state state')) \<and>
       path_eq (socket (config_of_state state')) (socket (config_of_state state)) \<and>
       path_opt_eq (control_socket (config_of_state state')) (control_socket (config_of_state state)) \<and>
       (limiter_key_prefix (limiter_of_state state) = redis_key_prefix (config_of_state state) \<longrightarrow>
        limiter_key_prefix (limiter_of_state state') = redis_key_prefix (config_of_state state')))"
proof -
  obtain err state' where r: "reload_config P C V s path state = Some (err, state')"
    using reload_config_returns [of P C V s path state] by blast
  from r show ?thesis
    by (cases rule: reload_config_cases) (auto simp: r Limiter_new_Inr)
qed

theorem reload_all_or_nothing_witness:
  "\<exists>err. reload_config ex_platform ex_client ex_commands (empty_store 0) ''/missing'' ex_runtime
    = Some (Some err, ex_runtime)"
proof -
  have "config_load ex_platform ''/missing'' = Some (Inl (ReadError ''/missing'' ()))"
    by (simp add: config_load_def ex_platform_def)
  then show ?thesis
    using reload_all_or_nothing [of ex_platform ex_client ex_commands "empty_store 0" "''/missing''" ex_runtime]
    by (auto split: if_splits)
qed



text \<open>C32: That exception is real: the config file is edited and SIGHUP handled after the worker compared
  the counters and before it cleared \<open>reload_in_progress\<close>. The daemon comes to rest with the config
  from before the edit, although the new one would load without an error and the comment in
  \<open>main\<close> says that such a signal is not dropped.\<close>
theorem signal_can_be_missed:
  "\<exists>x y. ex_system_step\<^sup>*\<^sup>* (system_boot (boot ex_runtime (empty_store 0)) (read_to_string ex_platform)) x
    \<and> run_within ex_system_step (\<lambda>z. disk z = lax_disk) x y
    \<and> sent (worker x) < sent (worker y) \<and> at_rest (worker y) \<and> runtime (shared (live y)) = ex_runtime
    \<and> \<not> reload_outcome ex_platform ex_client ex_commands ''/etc/rl.toml'' lax_disk (runtime (shared (live y)))"
proof (intro exI conjI)
  show "ex_system_step\<^sup>*\<^sup>* (system_boot (boot ex_runtime (empty_store 0)) (read_to_string ex_platform)) ex_late"
    using ex_late_reachable by (simp only: ex_system_def)
  show "run_within ex_system_step (\<lambda>z. disk z = lax_disk) ex_late (ex_late\<lparr>worker := one_missed\<rparr>)" by (rule ex_too_late)
  show rt: "runtime (shared (live (ex_late\<lparr>worker := one_missed\<rparr>))) = ex_runtime" by (simp add: ex_late_def)
  show "\<not> reload_outcome ex_platform ex_client ex_commands ''/etc/rl.toml'' lax_disk
      (runtime (shared (live (ex_late\<lparr>worker := one_missed\<rparr>))))" unfolding rt by (rule ex_stale)
qed (simp_all add: ex_late_def worker_leaving_def one_missed_def one_served_def at_rest_def)

text \<open>C33: Reloading finishes: in every infinite run without further signals, before \<open>main\<close> returns, in which
  the two threads get to run again and again while one of them can, they are at rest from some
  moment on, whatever the files hold, whether servers can be reached, and whatever else runs.\<close>
theorem hangups_settle:
  assumes "(system_step P C V codec rd L path hash deadline clock serves)\<^sup>*\<^sup>* (system_boot (boot rt s) D0) (f 0)"
    and "sent (worker (f 0)) < 2 ^ 64"
    and "\<And>i. system_step P C V codec rd L path hash deadline clock serves (f i) (f (Suc i))"
    and "\<And>i. sent (worker (f (Suc i))) = sent (worker (f i))"
    and "\<And>i. phase (live (f i)) \<in> {Accepting, Draining}"
    and "\<And>i. \<exists>j \<ge> i. worker (f (Suc j)) \<noteq> worker (f j)
      \<or> \<not> reload_can_move P C V codec rd L path hash deadline clock serves (f j)"
  shows "\<exists>n. \<forall>i \<ge> n. at_rest (worker (f i))"
  using fair_hangups_come_to_rest [OF assms] by blast

theorem hangups_settle_witness: "\<exists>n. \<forall>i \<ge> n. at_rest (worker (ex_settling i))"
  by (rule hangups_settle [OF ex_settling(1) [unfolded ex_system_def] ex_settling(2-6)])

text \<open>C34: \<open>main\<close> never panics before the accept loop: it exits or serves. A daemon that serves has loaded
  the config of its command line, holds a sound runtime state, logs at the requested level,
  handles both kinds of signals and is not an unacknowledged test build; an exit before serving
  is a failure, with its message, unless only a check of the config was asked for.\<close>
theorem startup_sound:
  "\<exists>r w'. daemon_main tests env P C V s os_ops c w = Some (r, w') \<and>
    (case r of
       Serves logger rt locks ls \<Rightarrow> runtime_ok P C V rt
         \<and> config_load P (cli_config_path c) = Some (Inr (config_of_state rt)) \<and> logger_level logger = cli_log_level c
         \<and> (\<forall>k. signal_error env k = None) \<and> \<not> cli_check_config c \<and> (tests \<longrightarrow> acknowledged_test_build env)
     | Exits code message \<Rightarrow> (code = Exit_Success \<longleftrightarrow> message = None) \<and> (code = Exit_Success \<longrightarrow> cli_check_config c
         \<and> (\<exists>cfg. config_load P (cli_config_path c) = Some (Inr cfg))))"
proof -
  obtain r w' where r: "daemon_main tests env P C V s os_ops c w = Some (r, w')"
    using daemon_main_returns [of tests env P C V s os_ops c w] by blast
  show ?thesis
  proof (cases r)
    case (Exits code message)
    with r daemon_main_exits show ?thesis by fastforce
  next
    case (Serves logger rt locks ls)
    note up = daemon_main_serves [OF r [unfolded Serves]]
    from startup_runtime_ok [OF up(1)] startup_serving [OF up(1)] up(2,3) show ?thesis
      by (auto simp: r Serves)
  qed
qed

theorem startup_sound_witness:
  "\<exists>locks ls w'. daemon_main False ex_main_env ex_platform ex_client ex_commands (empty_store 0) files_os ex_cli ex_files
      = Some (Serves (Env_Logger Log_Info) ex_runtime locks ls, w') \<and> runtime_ok ex_platform ex_client ex_commands ex_runtime"
proof -
  obtain locks ls w' where up: "daemon_main False ex_main_env ex_platform ex_client ex_commands (empty_store 0) files_os
      ex_cli ex_files = Some (Serves (Env_Logger Log_Info) ex_runtime locks ls, w')" by (rule ex_main)
  with startup_sound [of False ex_main_env ex_platform ex_client ex_commands "empty_store 0" files_os ex_cli ex_files]
  show ?thesis by auto
qed

text \<open>C35: Binding a socket restores the umask on every path, leaves the socket with the requested mode
  when it succeeds, and touches nothing when another process listens on the path.\<close>
theorem bind_socket_restores_umask:
  assumes "socket_files os_ops umask_of mode_of" and "bind_socket os_ops sock mode w = (r, w')"
  shows "umask_of w' = umask_of w \<and> (\<forall>l. r = Inr l \<longrightarrow> mode_of w' sock = Some mode)
    \<and> (socket_is_live os_ops sock w \<longrightarrow> w' = w)"
proof (intro conjI impI allI)
  show "umask_of w' = umask_of w" by (rule socket_files.bind_socket_umask [OF assms])
  show "mode_of w' sock = Some mode" if "r = Inr l" for l
    by (rule socket_files.bind_socket_mode [OF assms(1) assms(2) [unfolded that]])
  show "w' = w" if "socket_is_live os_ops sock w" using assms(2) that by (simp add: bind_socket_def)
qed

theorem bind_socket_restores_umask_witness:
  "files_umask (snd (bind_socket files_os ''/run/rl/policy'' SOCKET_MODE ex_files
     :: (unit fatal_error + path) \<times> files)) AND 0x1FF = files_umask ex_files AND 0x1FF"
proof -
  obtain r :: "unit fatal_error + path" and w' where
    b: "bind_socket files_os ''/run/rl/policy'' SOCKET_MODE ex_files = (r, w')" by fastforce
  from bind_socket_restores_umask [OF files.socket_files_axioms b] show ?thesis by (simp add: b)
qed



end
