(* ===== verification/Control_Properties.thy ===== *)
theory Control_Properties
  imports Example
begin

text \<open>
  The properties of the control socket and of its client (Control_Socket, Ctl, Rpc_Wire).
\<close>

section \<open>The control socket\<close>



text \<open>C38: A control connection is framed by newlines: a line within the cap is answered with the reply
  to its text, less the line end, and the next request starts right after it; when no newline
  comes within the cap the peer gets an error that says why and the connection closes.\<close>
theorem control_line_framing:
  assumes "line_reader read_line pending healthy" and "healthy r"
  shows "(\<forall>body rest response. pending r = body @ CHR 0x0A # rest \<longrightarrow> CHR 0x0A \<notin> set body \<longrightarrow> length body < 65536 \<longrightarrow>
      handle_line L P V state (trim_line_end body) s = Some response \<longrightarrow>
      (\<exists>r'. control_turn L P V read_line False False state r s = Some (Continues r' (write_response L response))
        \<and> pending r' = rest))
    \<and> (CHR 0x0A \<notin> set (take 65536 (pending r)) \<longrightarrow>
      control_turn L P V read_line False False state r s = Some (Closed
        (if pending r = [] then []
         else write_response L (failure None Invalid_Request
           (if 65536 \<le> length (pending r) then ''control request exceeded max size''
            else ''connection closed mid-request'')))))"
proof -
  have max: "MAX_CONTROL_REQUEST_BYTES = 65536" by (simp add: MAX_CONTROL_REQUEST_BYTES_def)
  show ?thesis
  proof (intro conjI allI impI)
    fix body rest response
    assume "pending r = body @ CHR 0x0A # rest" "CHR 0x0A \<notin> set body" "length body < 65536"
      "handle_line L P V state (trim_line_end body) s = Some response"
    then show "\<exists>r'. control_turn L P V read_line False False state r s = Some (Continues r' (write_response L response))
        \<and> pending r' = rest"
      using line_reader.control_turn_line [OF assms(1,2), of body rest L P V state s response] by (auto simp: max)
  qed (use line_reader.control_turn_unfinished [OF assms, of L P V state s] in \<open>simp add: max\<close>)
qed

theorem control_line_framing_witness:
  "control_turn text_rpc ex_platform ex_commands buffer_read_line False False ex_runtime ''half'' (empty_store 0)
    = Some (Closed (write_response text_rpc (failure None Invalid_Request ''connection closed mid-request'')))
   \<and> (\<exists>r' reply. control_turn text_rpc ex_platform ex_commands buffer_read_line False False ex_runtime
        (''nonsense'' @ CHR 0x0A # ''half'') (empty_store 0) = Some (Continues r' reply) \<and> r' = ''half'')"
proof -
  have h: "handle_line text_rpc ex_platform ex_commands ex_runtime (trim_line_end ''nonsense'') (empty_store 0)
    = Some (failure None Rpc_Parse_Error (''invalid JSON: '' @ ''syntax error''))"
    by (simp add: handle_line_def text_rpc_def trim_line_end_def read_json_def expect_def)
  have "control_turn text_rpc ex_platform ex_commands buffer_read_line False False ex_runtime ''half'' (empty_store 0)
    = Some (Closed (write_response text_rpc (failure None Invalid_Request ''connection closed mid-request'')))"
    using control_line_framing [OF buffer.line_reader_axioms, of "''half''" text_rpc ex_platform ex_commands ex_runtime
      "empty_store 0"] by simp
  moreover have "\<exists>r' reply. control_turn text_rpc ex_platform ex_commands buffer_read_line False False ex_runtime
        (''nonsense'' @ CHR 0x0A # ''half'') (empty_store 0) = Some (Continues r' reply) \<and> r' = ''half''"
    using control_line_framing [OF buffer.line_reader_axioms, of "''nonsense'' @ CHR 0x0A # ''half''" text_rpc ex_platform
        ex_commands ex_runtime "empty_store 0", THEN conjunct1, rule_format, OF TrueI refl _ _ h] by auto
  ultimately show ?thesis by blast
qed



text \<open>C40: End to end: the client's query for a sender arrives as a line on a control connection, and the
  client reads the line that the daemon's turn writes. Then the client prints the windows of the
  sender's plan with the totals that enforcement counts, or that the sender is unrestricted when
  the plan has no windows.\<close>
theorem client_prints_enforced_totals:
  assumes "json_rpc L" and "line_reader read_line pending healthy"
    and "hash_server (V (connection_manager (limiter_of_state state))) hash deadline clock serves"
    and "plan_for P (config_of_state state) u = p" and "limiter_key_prefix (limiter_of_state state) = pre"
    and "plan_wf p" and "plan_fine p" and "admitted (plan_admits p) H"
    and "sender_rep hash deadline clock serves pre u p H s" and "clock s < 2 ^ 63"
    and "new_limits_sasl_request L u 1 = Some req" and "healthy r"
    and "pending r = request_text L req @ [CHR 0x0A]" and "length (request_text L req) < 65536"
    and "peer_connect N sock = None" and "peer_set_timeout N QUERY_TIMEOUT = None"
    and "peer_write N (request_text L req @ [CHR 0x0A]) = None"
    and "peer_read_line N = line_read_from (control_turn L P V read_line False False state r s)"
    and "format_time F (of_nat (clock s)) = Some time"
  shows "run_status_command L N F sock u False = Some (Inr
    (if bucket_sizes p = [] then [u @ '': unrestricted (no rate limit)'']
     else (u @ '': windows as of '' @ time) # map (\<lambda>w. print_window F (status_of_log p H (clock s) w)) (windows p)))"
proof -
  have short: "length (request_text L req) < MAX_CONTROL_REQUEST_BYTES"
    using assms(14) by (simp add: MAX_CONTROL_REQUEST_BYTES_def)
  have status: "compute_sasl_status (V (connection_manager (limiter_of_state state))) (limiter_key_prefix (limiter_of_state state))
      (plan_for P (config_of_state state) u) u s = Some (Inr (if bucket_sizes p = [] then Unrestricted True
        else Limited (of_nat (clock s)) (map (status_of_log p H (clock s)) (windows p))))"
    using hash_server.compute_sasl_status_correct [OF assms(3,6-10)]
    by (simp add: assms(4,5) compute_sasl_status_def)
  have "after_epoch (of_nat (clock s)) = Some (of_nat (clock s))"
    using assms(10) by (simp add: after_epoch_def unat_of_nat)
  with json_rpc.status_query_round [OF assms(1,2,12,13) short status assms(15,16,11,17,18), of F False] assms(19)
  show ?thesis by (cases "bucket_sizes p = []") (simp_all add: comp_def)
qed

theorem client_prints_enforced_totals_witness:
  "run_status_command text_rpc ex_peer ex_formats ''/run/rl/control'' ''ann'' False
    = Some (Inr [''ann: windows as of 1000'', ''  60s: 2/2 (100%)''] :: unit ctl_error + string list)"
proof -
  have adm: "admitted (plan_admits ex_plan) [(1000, 2)]" using ex_decisions(1) by (simp add: admitted_def)
  have server: "hash_server (ex_commands (connection_manager (limiter_of_state ex_runtime))) store_hash expiry store_clock store_serves"
    using mem.hash_server_axioms by simp
  have plan: "plan_for ex_platform (config_of_state ex_runtime) ''ann'' = ex_plan" using ex_plan_for by simp
  have pre: "limiter_key_prefix (limiter_of_state ex_runtime) = ''postfix-ratelimitd''" by simp
  have early: "store_clock (server (ex_turn ex_daemon)) < 2 ^ 63" by (simp add: ex_first(5))
  have "run_status_command text_rpc ex_peer ex_formats ''/run/rl/control'' ''ann'' False
    = Some (Inr (if bucket_sizes ex_plan = [] then [''ann'' @ '': unrestricted (no rate limit)'']
        else (''ann'' @ '': windows as of '' @ ''1000'') # map (\<lambda>w. print_window ex_formats (status_of_log ex_plan [(1000, 2)]
          (store_clock (server (ex_turn ex_daemon))) w)) (windows ex_plan)) :: unit ctl_error + string list)"
    by (rule client_prints_enforced_totals [where V = ex_commands and state = ex_runtime and P = ex_platform
        and read_line = buffer_read_line and pending = "\<lambda>s. s" and healthy = "\<lambda>_. True" and r = ex_query
        and req = ex_status_request, OF wire.json_rpc_axioms buffer.line_reader_axioms server plan pre ex_plan_ok adm
        ex_first(6) early ex_query_new])
      (use ex_query_short in \<open>simp_all add: ex_peer_def ex_query_def MAX_CONTROL_REQUEST_BYTES_def ex_first(5) ex_formats_def
        ex_shown\<close>)
  moreover have "bucket_sizes ex_plan \<noteq> []" by (simp add: ex_plan_def)
  ultimately show ?thesis by (simp add: ex_first(5) ex_printed)
qed

end
