(* ===== verification/Spec2Isabelle.thy ===== *)
theory Spec2Isabelle
  imports Script_Doubles Unit_Tests Config_Properties Request_Properties Lifecycle_Properties Control_Properties
begin

text \<open>
  The Postfix policy service postfix-ratelimitd, which limits the recipients that an
  authenticated sender may address within sliding time windows, and its control client
  postfix-ratelimitctl.

  The program. Postfix opens a connection to the daemon's unix socket and sends one request per
  message. The daemon looks up the plan of the sender in its config, and hands the plan and the
  recipient count to a Lua script that a key-value server (Valkey, Redis) runs atomically. The
  script keeps one hash per sender and bucket size, whose fields are bucket ids and whose values
  are recipient counts; it either records the message in all of them or rejects it and changes
  nothing. SIGHUP reloads the config, SIGINT and SIGTERM end the daemon, and a second socket
  answers questions about the state of a sender.

  The theories, in the order of the imports.

  \<^item> Rl_Prelude: machine integers (\<open>u32\<close>, \<open>u64\<close> are words), decimal printing and parsing of
    Rust and Lua, lemmas on lists, maps and sums. A Rust string is the list of its bytes.
  \<^item> Plan, for the planning half of src/config.rs: durations, the bucket ladder \<open>bucket_size\<close>
    (a \<open>while\<close> loop, as in the code), \<open>CheckPlan::new\<close>, the validation of windows. The lemmas
    show that plans are well formed (\<open>plan_wf\<close>), fine grained (\<open>plan_fine\<close>) and equivalent to the
    windows they come from.
  \<^item> Config, for the loading half of src/config.rs: the documents, the defaults, \<open>Config::load\<close>
    and \<open>plan_for\<close>. The lemmas say which documents load, what the errors mean and which rule
    applies to a sender.
  \<^item> Json, Json_Text, Valkey: JSON values, and a codec for JSON text that satisfies what is assumed
    of codecs; the interface to the server and the laws of its commands (\<open>hash_server\<close>),
    interpreted by an in-memory store with deadlines.
  \<^item> Script, for lua/check_and_record.lua, phase by phase, with every error that Lua raises.
  \<^item> Limiter, for src/limiter.rs: keys and escaping, the argument of the script, the command check,
    \<open>check_sasl\<close> with lost requests and lost replies.
  \<^item> Sliding_Window: the specification. A sender's log of accepted messages, the windows' decision
    on a further message, and what any log of admitted messages is bounded by.
  \<^item> Limiter_Correct: the script refines the specification on every server that satisfies the
    laws: the hashes represent the log (\<open>sender_rep\<close>), a check decides as the plan's windows do on
    the log and extends it, time and expiry do not change what is represented.
  \<^item> Isolation: checks of one sender leave the keys of all others alone, whatever they hold and
    however the script ends; bounds on the stored fields; the outcomes of a lossy delivery.
  \<^item> Script_Doubles: the script once more, with every number that Lua converts or computes rounded
    to a double as IEEE 754 does, and the proof that nothing is lost on what the limiter sends.
    This is why the numbers of Script are \<^typ>\<open>int\<close>.
  \<^item> Protocol, for src/protocol.rs: reading a request under the size cap, attributes, the answer.
    \<open>read_loop\<close> is a \<open>partial_function\<close>, so that not returning is a value; it is proved total.
  \<^item> Daemon, for the request path of src/bin/postfix-ratelimitd.rs: counters, reports, throttled
    logging, \<open>handle_request\<close>, one turn of a connection, the connection limit.
  \<^item> Control_Socket, for src/control/mod.rs and src/control/rpc.rs: the methods, the status of a
    sender, one turn of a control connection.
  \<^item> Reload: \<open>Limiter::new\<close>, \<open>reload_config\<close> and the SIGHUP worker as a machine whose steps are the
    atomic operations of two threads.
  \<^item> Startup: \<open>main\<close> up to the accept loop, over a record of system calls: directory check, locks,
    binding the sockets under a narrowed umask.
  \<^item> Service, Service_Correct: the daemon as a whole when the turns of its connections do not
    overlap: connections, turns, reloads, reports and the passing of time; what one turn does to a
    sender's log, and the invariant from which both bounds on the answers follow.
  \<^item> Tasks, Tasks_Correct: the daemon at the grain of its tasks. A request is read, decided and
    answered in separate steps, between which anything else may happen, and the shutdown token may
    fire: cancellation, the drain of the tracked tasks and its timeout. The invariants of Service
    carry over; the requests in hand are accounted for, and every drain can finish. The properties
    of the service below are about runs of these steps (\<open>task_step\<close>).
  \<^item> Progress: in fair runs of the tasks every request in hand is decided and answered.
  \<^item> Journal: the lines logged in a run of the tasks (\<open>journal\<close>). The reports and the counters together
    account for every event, and the messages under \<open>log_throttled\<close> are bounded by the reports.
  \<^item> Hangup: the tasks, the SIGHUP worker and the files on disk composed (\<open>system_step\<close>). Every run
    projects to a run of the tasks and to one of the worker; after a signal the state is what a
    reload made of the files, and fair runs come to rest.
  \<^item> Coverage: the script on hashes that anything may have left, such as checks under an earlier plan
    of the sender: they hold at least a log (\<open>covers\<close>), so what the script accepts is admitted on it.
  \<^item> Plan_Changes: runs in which reloads change plans. A phase begins when the state and the checks
    in hand have the sender's new plan; its grants form a log that the server covers.
  \<^item> Command_Line: the options of the daemon, the choice of the log backend, \<open>main\<close> from the
    options to the accept loop, the state in which the loop starts (\<open>boot\<close>), the exit codes.
  \<^item> Ctl, for src/bin/postfix-ratelimitctl.rs: one query, from the socket's path to the printed lines
    and the exit code.
  \<^item> Rpc_Wire: what the client and the daemon rely on in the JSON-RPC crates (\<open>json_rpc\<close>), a query
    from the one through the other and back, and the laws proved of a codec for JSON text.
  \<^item> Unit_Tests: the repository's unit tests of these functions, evaluated on the model.
  \<^item> Example: one concrete instance of every parameter, on which the properties are applied.

  \<^item> Config_Properties, Request_Properties, Lifecycle_Properties, Control_Properties: the properties
    of single components. Those that span components are below. Each property that has a hypothesis
    is followed by a witness, an application to the concrete instance.

  Integers and bounds. Counters, limits, spans and sizes are words at the width of the code, with
  the wrap-around of the release build. Requests and control lines are capped at 64 KiB. The hash of
  a key has at most 101 fields: a window spans fewer than 100 of its buckets. Times of the server are
  natural numbers; the status assumes a clock below \<open>2 ^ 63\<close> seconds, the exactness of Lua's
  arithmetic one below \<open>2 ^ 52\<close>. No definition uses fuel.

  Parameters. Code outside the repository is an argument of the definitions, and what is relied on
  is a named hypothesis: \<open>platform\<close> (files, the TOML parser, URLs, the regex engine), the JSON codec
  (\<open>codec_ok\<close>, for integers that a double holds), the server's commands (\<open>hash_server\<close>), reading
  lines under a limit (\<open>line_reader\<close>), the JSON-RPC crate (\<open>rpc_lib\<close>, \<open>json_rpc\<close>), the client library (\<open>client_lib\<close>), system calls (\<open>socket_files\<close>),
  the client's side of a connection (\<open>peer\<close>) and text formats (\<open>formats\<close>).

  What changes in a run. Reloads read whatever the files have become, and an attempt to connect
  succeeds or fails as the server can be reached then (\<open>dials\<close>); the parser of the documents, the
  regex engine and the settings of a URL stay the same functions.

  Assumptions of the runs. The server's clock does not go back and the server loses no data: it
  drops a key only after its deadline, and nobody else writes to the bucket keys (\<open>idle\<close>). The
  bound on what a sender is granted holds in every phase with one plan (\<open>keeps\<close>), on a server whose
  bucket keys are hashes of counts at the start (\<open>tidy_server\<close>). The reasons of refusals, and the
  agreement with a log, are about runs in which reloads keep the sender's plan, the server and the
  key prefix (\<open>steady\<close>): after a change of plan older counts may be refused again.

  The journal has the lines of the handlers of policy requests, of the accept loop and of the reports,
  whatever the level of the log, each at the place where its counter moves; in the program another
  task's line may come in between, and a report takes its counters one after the other. The
  properties only add up, per counter, what is logged in all, which does not depend on that.

  Over-approximation. A step of the tasks may happen whenever the code does not rule it out: a
  reload or a report at any moment, the drain's timeout at any moment of the drain. In Hangup a
  reload happens only in a pass of the worker, on what the files were during that pass. Properties
  over all runs hold for the fewer runs that the program has.

  Not modelled: the delays between retries of a connection and after a failed accept
  (\<open>ACCEPT_ERROR_BACKOFF\<close>) and the length of the drain (\<open>SHUTDOWN_DRAIN_TIMEOUT\<close>), which are spans of
  time; how the derived deserializers read a TOML tree, which is generated code; the inside of the logging backends, of the command line parser and of the crates
  behind the parameters; the override of the clock by requests, which only test builds compile, in
  runs (it is modelled in the functions that read it); the integration tests and the packaging.
\<close>

section \<open>The service\<close>

text \<open>C1: The daemon is started on a server whose bucket keys are hashes of counts, whatever they count,
  and runs under any schedule of its tasks, with any reloads of whatever the config file has
  become. From any moment on at which the
  state and all checks in hand give a sender the plan \<open>p\<close>, with failed checks deferred, and as long as
  reloads keep that, the recipients answered \<open>dunno\<close> to the sender never exceed the limit of any
  window of \<open>p\<close>, at any time: whatever the earlier plans and checks of the sender, the other senders,
  the connections, lost requests and replies, the shutdown and the passing of time.\<close>
theorem accepted_within_every_window:
  assumes "\<And>cn. hash_server (V cn) hash deadline clock serves" and "codec_ok codec" and "tidy_server hash serves s"
    and "daemon_main tests env P C V s0 os_ops c w = Some (Serves logger rt locks ls, w')"
    and "(task_step P C V codec rd L (cli_config_path c) hash deadline clock serves)\<^sup>*\<^sup>* (boot rt s) x"
    and "run_within (task_step P C V codec rd L (cli_config_path c) hash deadline clock serves)
      (\<lambda>x. keeps P pre u p (runtime (shared x))) x y"
    and "all_keep P pre u p x" and "win \<in> set (windows p)"
  shows "logged (granted u (drop (length (answers (shared x))) (answers (shared y))))
    (\<lambda>t. t \<le> now \<and> now < t + unat (span_secs win)) \<le> unat (limit win)"
proof -
  have rt: "runtime_ok P C V rt" by (rule startup_runtime_ok [OF daemon_main_serves(1) [OF assms(4)]])
  then have "tidy_tasks P C V hash serves (boot rt s)" using assms(3) by (simp add: tidy_tasks_def boot_def)
  note tidy = tidy_tasks_steps [OF assms(1,2,5) this]
  have "plan_wf p"
    using tidy run_within_ends [OF assms(6)] by (auto simp: tidy_tasks_def keeps_def runtime_ok_def)
  from phase_within [OF phase_run [OF assms(1,2,6) tidy assms(7)] this assms(8)] show ?thesis .
qed

theorem accepted_within_every_window_witness:
  "logged (granted ''ann'' (drop 1 (answers (ex_turn ex_reloaded)))) (\<lambda>t. t \<le> 1030 \<and> 1030 < t + 60) \<le> 5
   \<and> granted ''ann'' (answers (ex_turn ex_reloaded)) = [(1000, 2), (1000, 2)]"
proof
  obtain locks ls w' where up: "daemon_main False ex_main_env ex_platform ex_client ex_commands (empty_store 0) files_os
      ex_cli ex_files = Some (Serves (Env_Logger Log_Info) ex_runtime locks ls, w')" by (rule ex_main)
  obtain x y where x: "ex_step\<^sup>*\<^sup>* ex_tasks x" "shared x = ex_reloaded" "busy x = Map.empty"
    and run: "run_within ex_step (\<lambda>z. runtime (shared z) = ex_lax_runtime) x y" and y: "shared y = ex_turn ex_reloaded"
    by (rule ex_reload_schedule)
  have start: "(task_step ex_platform ex_client ex_commands text_codec buffer_read_line text_rpc (cli_config_path ex_cli)
      store_hash expiry store_clock store_serves)\<^sup>*\<^sup>* (boot ex_runtime (empty_store 1000)) x"
    using ex_accepted x(1) unfolding ex_cli_path by (rule converse_rtranclp_into_rtranclp)
  have run': "run_within (task_step ex_platform ex_client ex_commands text_codec buffer_read_line text_rpc
      (cli_config_path ex_cli) store_hash expiry store_clock store_serves)
      (\<lambda>z. keeps ex_platform ''postfix-ratelimitd'' ''ann'' ex_lax_plan (runtime (shared z))) x y"
    unfolding ex_cli_path by (rule run_within_mono [OF run]) (simp add: ex_keeps(2))
  have held: "all_keep ex_platform ''postfix-ratelimitd'' ''ann'' ex_lax_plan x" by (simp add: all_keep_def x(3))
  have w: "\<lparr>key_index = 0, span_secs = 60, limit = 5\<rparr> \<in> set (windows ex_lax_plan)" by (simp add: ex_lax_plan_def)
  have servers: "hash_server (ex_commands cn) store_hash expiry store_clock store_serves" for cn
    using mem.hash_server_axioms by simp
  have "length (answers (shared x)) = 1" by (simp add: x(2) ex_reloaded_def ex_first(2))
  with accepted_within_every_window [OF servers text_codec_ok ex_tidy up start run' held w, of 1030]
  show "logged (granted ''ann'' (drop 1 (answers (ex_turn ex_reloaded)))) (\<lambda>t. t \<le> 1030 \<and> 1030 < t + 60) \<le> 5"
    by (simp add: y)
  show "granted ''ann'' (answers (ex_turn ex_reloaded)) = [(1000, 2), (1000, 2)]"
    by (simp add: ex_third(2) granted_def)
qed



text \<open>C3: One answered check decides exactly as the bucketed windows of the plan prescribe on the
  sender's log, records the message when it is accepted, changes nothing when it is rejected,
  and leaves the server representing the new log.\<close>
theorem check_refines_window_log:
  assumes "hash_server cmds hash deadline clock serves" and "codec_ok codec"
    and "plan_wf p" and "plan_fine p" and "sender_rep hash deadline clock serves pre u p H s"
  shows "\<exists>s'. check_sasl cmds codec Delivered pre u n p None s = (Inr (plan_admits p H (clock s) (unat n)), s')
    \<and> sender_rep hash deadline clock serves pre u p
        (if plan_admits p H (clock s) (unat n) then H @ [(clock s, unat n)] else H) s'
    \<and> (\<not> plan_admits p H (clock s) (unat n) \<longrightarrow> s' = s)"
  using hash_server.check_sasl_correct [OF assms(1,3,4,2,5), of n] by blast

theorem check_refines_window_log_witness:
  "\<exists>s'. check_sasl store_cmds text_codec Delivered ''postfix-ratelimitd'' ''ann'' 2 ex_plan None (empty_store 1000)
      = (Inr True, s')
    \<and> sender_rep store_hash expiry store_clock store_serves ''postfix-ratelimitd'' ''ann'' ex_plan [(1000, 2)] s'"
  using check_refines_window_log [OF mem.hash_server_axioms text_codec_ok ex_plan_ok ex_empty_rep [of 1000], of 2]
    ex_decisions(1) by auto

text \<open>C4: A check of one sender, however its delivery goes, whatever the request and the plan say
  and whatever its keys hold, leaves the hashes, deadlines and the clock that another sender's
  checks depend on untouched.\<close>
theorem senders_isolated:
  assumes "hash_server cmds hash deadline clock serves" and "u \<noteq> v"
    and "check_sasl cmds codec net pre u n p t s = (r, s')"
  shows "hash s' (bucket_key pre (identity SASL_IDENTITY_KIND v) b) = hash s (bucket_key pre (identity SASL_IDENTITY_KIND v) b)
    \<and> deadline s' (bucket_key pre (identity SASL_IDENTITY_KIND v) b)
      = deadline s (bucket_key pre (identity SASL_IDENTITY_KIND v) b)
    \<and> clock s' = clock s"
  using hash_server.check_sasl_other [OF assms(1,3,2), of b] by (simp add: same_key_def)

theorem senders_isolated_witness:
  "store_hash (snd (check_sasl store_cmds text_codec Delivered ''p'' ''ann'' 2 ex_plan None (empty_store 1000)))
     (bucket_key ''p'' (identity SASL_IDENTITY_KIND ''bob'') 1) = Map.empty"
proof -
  obtain r s' where c: "check_sasl store_cmds text_codec Delivered ''p'' ''ann'' 2 ex_plan None (empty_store 1000) = (r, s')"
    by fastforce
  show ?thesis using senders_isolated [OF mem.hash_server_axioms _ c, of "''bob''" 1] by (simp add: c)
qed

text \<open>C5: A sender whose recorded messages all lie further back than a window and one bucket, for
  every window, is accepted exactly when the message alone fits every limit.\<close>
theorem quiet_sender_accepted:
  assumes "hash_server cmds hash deadline clock serves" and "codec_ok codec"
    and "plan_wf p" and "plan_fine p" and "sender_rep hash deadline clock serves pre u p H s"
    and "\<And>w t m. w \<in> set (windows p) \<Longrightarrow> (t, m) \<in> set H \<Longrightarrow>
      t + unat (span_secs w) + unat (bucket_sizes p ! key_index w) \<le> clock s"
  shows "fst (check_sasl cmds codec Delivered pre u n p None s) = Inr (\<forall>w \<in> set (windows p). n \<le> limit w)"
proof -
  have "plan_admits p H (clock s) (unat n) \<longleftrightarrow> (\<forall>w \<in> set (windows p). unat n \<le> unat (limit w))"
    unfolding plan_admits_def
    by (rule ball_cong [OF refl], rule sliding_log.admits_after_quiet [OF plan_window_contract [OF assms(3)]])
      (auto intro: assms(6))
  then show ?thesis
    using hash_server.check_sasl_correct [OF assms(1,3,4,2,5), of n]
    by (auto simp: word_le_nat_alt)
qed

theorem quiet_sender_accepted_witness:
  "fst (check_sasl store_cmds text_codec Delivered ''postfix-ratelimitd'' ''ann'' 3 ex_plan None (empty_store 1000))
    = Inr False"
  using quiet_sender_accepted [OF mem.hash_server_axioms text_codec_ok ex_plan_ok ex_empty_rep [of 1000], of 3]
  by (simp add: ex_plan_def)

text \<open>C6: While time passes, the server may drop an expired key at any moment without changing any
  decision: a check afterwards still decides on all that was ever recorded for the sender.\<close>
theorem expiry_forgets_nothing:
  assumes "hash_server cmds hash deadline clock serves" and "codec_ok codec"
    and "idle hash deadline clock serves (set (map (bucket_key pre (identity SASL_IDENTITY_KIND u)) (bucket_sizes p))) s s'"
    and "plan_wf p" and "plan_fine p" and "sender_rep hash deadline clock serves pre u p H s"
  shows "fst (check_sasl cmds codec Delivered pre u n p None s') = Inr (plan_admits p H (clock s') (unat n))"
proof -
  have "sender_rep hash deadline clock serves pre u p H s'"
    by (rule hash_server.sender_rep_idle [OF assms(1,3) _ assms(6)])
      (metis plan_keys_arrays(1) [OF assms(4)] list.set_map subset_refl)
  from hash_server.check_sasl_correct [OF assms(1,4,5,2) this, of n] show ?thesis by auto
qed

theorem expiry_forgets_nothing_witness:
  "fst (check_sasl store_cmds text_codec Delivered ''postfix-ratelimitd'' ''ann'' 1 ex_plan None
     (store_wait 61 (server (ex_turn ex_daemon)))) = Inr (plan_admits ex_plan [(1000, 2)] 1061 1)"
  using expiry_forgets_nothing [OF mem.hash_server_axioms text_codec_ok store_wait_idle [where t = 61] ex_plan_ok
      ex_first(6), of 1] ex_first(5) by (simp add: store_wait_def Let_def)







section \<open>Shutdown\<close>





text \<open>C12: Every request is answered: in every infinite run before \<open>main\<close> returns in which the task of a
  connection gets to run again and again while it has a request in hand, a request that was read is
  decided, with the state that was loaded when it had been read, and the answer of that decision
  is then written, or writing it fails.\<close>
theorem every_request_answered:
  assumes "\<And>k. task_step P C V codec rd L path hash deadline clock serves (f k) (f (Suc k))"
    and "\<And>k. phase (f k) \<in> {Accepting, Draining}"
    and "\<And>k. busy (f k) i \<noteq> None \<Longrightarrow> \<exists>j \<ge> k. busy (f (Suc j)) i \<noteq> busy (f j) i
      \<or> \<not> connection_can_move P C V codec rd L path hash deadline clock serves i (f j)"
    and "busy (f k) i = Some (Checking current req)"
  shows "\<exists>j \<ge> k. \<exists>m > j. \<exists>net fails action. f (Suc j) = decide P V codec clock net i current req (f j)
    \<and> busy (f (Suc j)) i = Some (Replying action) \<and> busy (f m) i = Some (Replying action)
    \<and> f (Suc m) = reply fails i (f m)"
proof (rule request_answered [OF assms])
  fix j m net fails action
  assume a: "k \<le> j" "f (Suc j) = decide P V codec clock net i current req (f j)"
    "busy (f (Suc j)) i = Some (Replying action)" "j < m" "f (Suc m) = reply fails i (f m)"
    "busy (f m) i = Some (Replying action)"
  show ?thesis
    by (rule exI [where x = j], rule conjI [OF a(1)], rule exI [where x = m], rule conjI [OF a(4)], intro exI conjI)
      (fact a)+
qed

theorem every_request_answered_witness:
  "\<exists>j \<ge> 0. \<exists>m > j. \<exists>net fails action.
    ex_answering (Suc j) = decide ex_platform ex_commands text_codec store_clock net 0 ex_runtime ex_message (ex_answering j)
    \<and> busy (ex_answering (Suc j)) 0 = Some (Replying action) \<and> busy (ex_answering m) 0 = Some (Replying action)
    \<and> ex_answering (Suc m) = reply fails 0 (ex_answering m)"
  by (rule every_request_answered [OF ex_answering(1-4)])

section \<open>The script's numbers\<close>

text \<open>C13: Lua's doubles lose nothing: with every conversion and operation of the script rounded to
  a double, a check of a sender computes the same commands and the same answer as with unbounded
  integers, while the server's clock is below \<open>2 ^ 52\<close> seconds.\<close>
theorem script_exact_in_doubles:
  assumes "hash_server cmds hash deadline clock serves" and "plan_wf p" and "plan_fine p" and "codec_ok codec"
    and "admitted (plan_admits p) H" and "sender_rep hash deadline clock serves pre u p H s" and "clock s < 2 ^ 52"
    and "keys = map (bucket_key pre (identity SASL_IDENTITY_KIND u)) (bucket_sizes p)"
  shows "d_check_and_record cmds codec keys (to_text codec (check_request_json n None p)) s
    = check_and_record cmds codec keys (to_text codec (check_request_json n None p)) s"
  unfolding assms(8) by (rule hash_server.d_check_and_record_eq [OF assms(1-7)])

theorem script_exact_in_doubles_witness:
  "d_check_and_record store_cmds text_codec
      [bucket_key ''postfix-ratelimitd'' (identity SASL_IDENTITY_KIND ''ann'') 1]
      (to_text text_codec (check_request_json 1 None ex_plan)) (server (ex_turn ex_daemon))
    = check_and_record store_cmds text_codec
      [bucket_key ''postfix-ratelimitd'' (identity SASL_IDENTITY_KIND ''ann'') 1]
      (to_text text_codec (check_request_json 1 None ex_plan)) (server (ex_turn ex_daemon))"
proof -
  have adm: "admitted (plan_admits ex_plan) [(1000, 2)]" using ex_decisions(1) by (simp add: admitted_def)
  show ?thesis
    by (rule script_exact_in_doubles [OF mem.hash_server_axioms ex_plan_ok text_codec_ok adm ex_first(6)])
      (simp_all add: ex_first(5) ex_plan_def)
qed

end
